(* ===== verification/GoBase.thy ===== *)
theory GoBase
  imports
    Main
    "HOL-Library.Word"
    "HOL-Library.Monad_Syntax"
    "HOL-Library.Char_ord"
    "HOL-Library.List_Lexorder"
    "HOL-Library.Multiset"
begin

text \<open>
  The prelude: what every component of tmmscope shares. Go's run-time values (bytes, strings,
  slices), the panics of the language as \<open>None\<close>, and the functions of the packages strings,
  strconv and sort that the sources call, each with the lemmas the component proofs need.

  A Go string is a sequence of bytes, so it is HOL's \<open>string\<close>, whose characters are the 256
  byte values; a \<open>[]byte\<close> is a list of \<open>8 word\<close>. A computation that can panic returns an
  \<open>option\<close> (\<open>None\<close> is the panic); a Go function that returns \<open>(T, error)\<close> returns a
  sum, \<open>Inl\<close> the error.
\<close>

unbundle bit_operations_syntax

named_theorems go_simps

section \<open>Bytes and strings\<close>

type_synonym byte = "8 word"
type_synonym bytes = "byte list"

definition byte_char :: "byte \<Rightarrow> char" where
  "byte_char b = char_of (unat b)"

definition char_byte :: "char \<Rightarrow> byte" where
  "char_byte c = word_of_nat (of_char c)"

text \<open>The conversions \<open>string(b)\<close> and \<open>[]byte(s)\<close>.\<close>

definition string_of_bytes :: "bytes \<Rightarrow> string" where
  "string_of_bytes = map byte_char"

definition bytes_of_string :: "string \<Rightarrow> bytes" where
  "bytes_of_string = map char_byte"

lemma unat_byte_bound: "unat (b :: byte) < 256"
  using unsigned_less [of b, where 'a = nat] by simp

lemma byte_char_char_byte [simp]: "byte_char (char_byte c) = c"
proof -
  have "(of_char c :: nat) < 256" by simp
  then have "unat (word_of_nat (of_char c) :: byte) = of_char c"
    by (simp add: unsigned_of_nat take_bit_nat_eq_self)
  then show ?thesis by (simp add: byte_char_def char_byte_def)
qed

lemma char_byte_byte_char [simp]: "char_byte (byte_char b) = b"
  by (simp add: byte_char_def char_byte_def of_char_of unat_byte_bound)

lemma byte_char_inject [simp]: "byte_char a = byte_char b \<longleftrightarrow> a = b"
  by (metis char_byte_byte_char)

lemma byte_char_0: "byte_char b = CHR 0x00 \<longleftrightarrow> b = 0"
proof -
  have "byte_char 0 = CHR 0x00" by (simp add: byte_char_def char_of_def)
  then show ?thesis by (metis byte_char_inject)
qed

lemma string_of_bytes_of_string [simp]: "string_of_bytes (bytes_of_string s) = s"
  by (simp add: string_of_bytes_def bytes_of_string_def comp_def)

lemma bytes_of_string_of_bytes [simp]: "bytes_of_string (string_of_bytes b) = b"
  by (simp add: string_of_bytes_def bytes_of_string_def comp_def)

lemma length_string_of_bytes [simp]: "length (string_of_bytes b) = length b"
  by (simp add: string_of_bytes_def)

lemma length_bytes_of_string [simp]: "length (bytes_of_string s) = length s"
  by (simp add: bytes_of_string_def)

section \<open>Slices\<close>

text \<open>The slice expression \<open>b[lo:hi]\<close>: out of range it panics.\<close>

definition slice_expr :: "'a list \<Rightarrow> nat \<Rightarrow> nat \<Rightarrow> 'a list option" where
  "slice_expr b lo hi = (if lo \<le> hi \<and> hi \<le> length b then Some (take (hi - lo) (drop lo b)) else None)"

lemma slice_expr_in_range [simp]:
  "lo \<le> hi \<Longrightarrow> hi \<le> length b \<Longrightarrow> slice_expr b lo hi = Some (take (hi - lo) (drop lo b))"
  by (simp add: slice_expr_def)

lemma slice_expr_None: "slice_expr b lo hi = None \<longleftrightarrow> \<not> (lo \<le> hi \<and> hi \<le> length b)"
  by (simp add: slice_expr_def)

text \<open>A callback that updates a state and can panic, called for each element in order.\<close>

fun foldM :: "('a \<Rightarrow> 's \<Rightarrow> 's option) \<Rightarrow> 'a list \<Rightarrow> 's \<Rightarrow> 's option" where
  "foldM f [] s = Some s"
| "foldM f (x # xs) s = do { s' \<leftarrow> f x s; foldM f xs s' }"

lemma foldM_total: "(\<And>x s. x \<in> set xs \<Longrightarrow> f x s = Some (g x s)) \<Longrightarrow> foldM f xs s = Some (fold g xs s)"
  by (induction xs arbitrary: s) auto

section \<open>Decimal and hexadecimal text (package strconv)\<close>

definition digit :: "nat \<Rightarrow> char" where
  "digit d = ''0123456789'' ! d"

text \<open>\<open>FormatUint(n, 10)\<close>, and \<open>FormatInt(i, 10)\<close>, which is also \<open>Itoa\<close> and the verb
  \<open>%d\<close>.\<close>

fun FormatUint :: "nat \<Rightarrow> string" where
  "FormatUint n = (if n < 10 then [digit n] else FormatUint (n div 10) @ [digit (n mod 10)])"

declare FormatUint.simps [simp del]

definition FormatInt :: "int \<Rightarrow> string" where
  "FormatInt i = (if i < 0 then CHR ''-'' # FormatUint (nat (- i)) else FormatUint (nat i))"

definition is_digit :: "char \<Rightarrow> bool" where
  "is_digit c \<longleftrightarrow> 48 \<le> (of_char c :: nat) \<and> (of_char c :: nat) \<le> 57"

definition digit_val :: "char \<Rightarrow> nat" where
  "digit_val c = of_char c - 48"

text \<open>The value of a digit string, most significant digit first.\<close>

definition digits_val :: "string \<Rightarrow> nat" where
  "digits_val s = foldl (\<lambda>n c. 10 * n + digit_val c) 0 s"

lemma of_char_digit: "d < 10 \<Longrightarrow> (of_char (digit d) :: nat) = 48 + d"
proof -
  assume "d < 10"
  then have "d \<in> {0, 1, 2, 3, 4, 5, 6, 7, 8, 9}" by auto
  then show ?thesis by (auto simp: digit_def)
qed

lemma digit_val_digit [simp]: "d < 10 \<Longrightarrow> digit_val (digit d) = d"
  by (simp add: digit_val_def of_char_digit)

lemma is_digit_digit [simp]: "d < 10 \<Longrightarrow> is_digit (digit d)"
  by (simp add: is_digit_def of_char_digit)

lemma FormatUint_nonempty [simp]: "FormatUint n \<noteq> []"
  by (subst FormatUint.simps) simp

lemma FormatUint_digits: "c \<in> set (FormatUint n) \<Longrightarrow> is_digit c"
proof (induction n rule: FormatUint.induct)
  case (1 n)
  then show ?case
    by (cases "n < 10") (auto simp: FormatUint.simps [of n])
qed

lemma digits_val_snoc: "digits_val (s @ [c]) = 10 * digits_val s + digit_val c"
  by (simp add: digits_val_def)

lemma digits_val_FormatUint [simp]: "digits_val (FormatUint n) = n"
proof (induction n rule: FormatUint.induct)
  case (1 n)
  show ?case
  proof (cases "n < 10")
    case True
    then show ?thesis by (simp add: FormatUint.simps [of n] digits_val_def)
  next
    case False
    with "1.IH" show ?thesis
      by (simp add: FormatUint.simps [of n] digits_val_snoc)
  qed
qed

lemma FormatUint_inject [simp]: "FormatUint m = FormatUint n \<longleftrightarrow> m = n"
  by (metis digits_val_FormatUint)

text \<open>One hexadecimal digit as \<open>ParseUint(_, 16, _)\<close> reads it, either case.\<close>

definition hex_val :: "char \<Rightarrow> nat option" where
  "hex_val c = (let n = (of_char c :: nat) in
     if 48 \<le> n \<and> n \<le> 57 then Some (n - 48)
     else if 97 \<le> n \<and> n \<le> 102 then Some (n - 87)
     else if 65 \<le> n \<and> n \<le> 70 then Some (n - 55)
     else None)"

text \<open>\<open>ParseUint(s, 16, 8)\<close>: the empty string, a character that is no digit, and a value
  above 255 are errors.\<close>

fun parse_hex :: "string \<Rightarrow> nat \<Rightarrow> nat option" where
  "parse_hex [] n = Some n"
| "parse_hex (c # cs) n =
     (case hex_val c of None \<Rightarrow> None
      | Some d \<Rightarrow> if 16 * n + d \<le> 255 then parse_hex cs (16 * n + d) else None)"

definition ParseUint16_8 :: "string \<Rightarrow> nat option" where
  "ParseUint16_8 s = (if s = [] then None else parse_hex s 0)"

section \<open>Package strings\<close>

text \<open>\<open>strings.Split\<close> with a one-byte separator; the result is never empty.\<close>

fun Split :: "char \<Rightarrow> string \<Rightarrow> string list" where
  "Split sep [] = [[]]"
| "Split sep (c # cs) =
     (if c = sep then [] # Split sep cs
      else (case Split sep cs of [] \<Rightarrow> [[c]] | p # ps \<Rightarrow> (c # p) # ps))"

fun Join :: "char \<Rightarrow> string list \<Rightarrow> string" where
  "Join sep [] = []"
| "Join sep [p] = p"
| "Join sep (p # q # ps) = p @ sep # Join sep (q # ps)"

lemma Split_nonempty [simp]: "Split sep s \<noteq> []"
  by (induction s) (auto split: list.split)

lemma Join_Split: "Join sep (Split sep s) = s"
proof (induction s)
  case Nil
  then show ?case by simp
next
  case (Cons c cs)
  obtain p ps where eq: "Split sep cs = p # ps" by (cases "Split sep cs") auto
  then show ?case using Cons by (cases ps) auto
qed

lemma Split_no_sep: "sep \<notin> set s \<Longrightarrow> Split sep s = [s]"
  by (induction s) auto

lemma Split_append_sep: "sep \<notin> set s \<Longrightarrow> Split sep (s @ sep # t) = s # Split sep t"
  by (induction s) auto

lemma Split_Join:
  "ps \<noteq> [] \<Longrightarrow> \<forall>p \<in> set ps. sep \<notin> set p \<Longrightarrow> Split sep (Join sep ps) = ps"
  by (induction sep ps rule: Join.induct) (auto simp: Split_append_sep Split_no_sep)

lemma Split_parts_no_sep: "p \<in> set (Split sep s) \<Longrightarrow> sep \<notin> set p"
proof (induction s arbitrary: p)
  case (Cons c cs)
  obtain q qs where "Split sep cs = q # qs" by (cases "Split sep cs") auto
  with Cons show ?case by (auto split: if_splits)
qed simp

text \<open>\<open>strings.Cut\<close> at a one-byte separator: before, after, found.\<close>

fun Cut :: "char \<Rightarrow> string \<Rightarrow> string \<times> string \<times> bool" where
  "Cut sep [] = ([], [], False)"
| "Cut sep (c # cs) =
     (if c = sep then ([], cs, True)
      else (let (a, b, ok) = Cut sep cs in (c # a, b, ok)))"

lemma Cut_found: "sep \<notin> set k \<Longrightarrow> Cut sep (k @ sep # v) = (k, v, True)"
  by (induction k) auto

lemma Cut_not_found: "sep \<notin> set s \<Longrightarrow> Cut sep s = (s, [], False)"
  by (induction s) auto

lemma Cut_before_no_sep: "Cut sep s = (a, b, ok) \<Longrightarrow> sep \<notin> set a"
  by (induction s arbitrary: a b ok) (auto split: if_splits prod.splits)

lemma Cut_ok: "Cut sep s = (a, b, True) \<Longrightarrow> s = a @ sep # b"
  by (induction s arbitrary: a b) (auto split: if_splits prod.splits)

lemma Cut_not_ok: "Cut sep s = (a, b, False) \<Longrightarrow> a = s \<and> b = [] \<and> sep \<notin> set s"
  by (induction s arbitrary: a b) (auto split: if_splits prod.splits)

fun HasPrefix :: "string \<Rightarrow> string \<Rightarrow> bool" where
  "HasPrefix s [] = True"
| "HasPrefix [] (p # ps) = False"
| "HasPrefix (c # cs) (p # ps) = (c = p \<and> HasPrefix cs ps)"

lemma HasPrefix_iff: "HasPrefix s p \<longleftrightarrow> (\<exists>t. s = p @ t)"
  by (induction s p rule: HasPrefix.induct) auto

lemma HasPrefix_append [simp]: "HasPrefix (p @ t) p"
  by (auto simp: HasPrefix_iff)

definition HasSuffix :: "string \<Rightarrow> string \<Rightarrow> bool" where
  "HasSuffix s p = HasPrefix (rev s) (rev p)"

definition TrimSuffix :: "string \<Rightarrow> string \<Rightarrow> string" where
  "TrimSuffix s p = (if HasSuffix s p then take (length s - length p) s else s)"

text \<open>\<open>strings.Index\<close>: the first occurrence, \<open>None\<close> for -1.\<close>

fun Index :: "string \<Rightarrow> string \<Rightarrow> nat option" where
  "Index [] p = (if p = [] then Some 0 else None)"
| "Index (c # cs) p =
     (if HasPrefix (c # cs) p then Some 0 else map_option Suc (Index cs p))"

definition Contains :: "string \<Rightarrow> string \<Rightarrow> bool" where
  "Contains s p = (Index s p \<noteq> None)"

lemma Index_None: "Index s p = None \<longleftrightarrow> (\<nexists>a b. s = a @ p @ b)"
proof (induction s)
  case Nil
  then show ?case by auto
next
  case (Cons c cs)
  show ?case
  proof (cases "HasPrefix (c # cs) p")
    case True
    then show ?thesis by (auto simp: HasPrefix_iff) (metis append_Nil)
  next
    case False
    have "(\<exists>a b. c # cs = a @ p @ b) \<longleftrightarrow> (\<exists>a b. cs = a @ p @ b)"
    proof
      assume "\<exists>a b. c # cs = a @ p @ b"
      then obtain a b where eq: "c # cs = a @ p @ b" by blast
      with False have "a \<noteq> []" by (auto simp: HasPrefix_iff)
      with eq show "\<exists>a b. cs = a @ p @ b" by (cases a) auto
    qed (metis append_Cons)
    with False Cons show ?thesis by simp
  qed
qed

lemma Contains_iff: "Contains s p \<longleftrightarrow> (\<exists>a b. s = a @ p @ b)"
  by (auto simp: Contains_def Index_None)

text \<open>\<open>strings.TrimSpace\<close> removes the Unicode white space runes at both ends: six ASCII bytes
  and the UTF-8 encodings of U+0085, U+00A0, U+1680, U+2000 to U+200A, U+2028, U+2029, U+202F,
  U+205F and U+3000.\<close>

definition space_runes :: "string list" where
  "space_runes =
    [[CHR 0x09], [CHR 0x0A], [CHR 0x0B], [CHR 0x0C], [CHR 0x0D], [CHR 0x20], [CHR 0xC2, CHR 0x85],
     [CHR 0xC2, CHR 0xA0], [CHR 0xE1, CHR 0x9A, CHR 0x80], [CHR 0xE2, CHR 0x80, CHR 0x80],
     [CHR 0xE2, CHR 0x80, CHR 0x81], [CHR 0xE2, CHR 0x80, CHR 0x82],
     [CHR 0xE2, CHR 0x80, CHR 0x83], [CHR 0xE2, CHR 0x80, CHR 0x84],
     [CHR 0xE2, CHR 0x80, CHR 0x85], [CHR 0xE2, CHR 0x80, CHR 0x86],
     [CHR 0xE2, CHR 0x80, CHR 0x87], [CHR 0xE2, CHR 0x80, CHR 0x88],
     [CHR 0xE2, CHR 0x80, CHR 0x89], [CHR 0xE2, CHR 0x80, CHR 0x8A],
     [CHR 0xE2, CHR 0x80, CHR 0xA8], [CHR 0xE2, CHR 0x80, CHR 0xA9],
     [CHR 0xE2, CHR 0x80, CHR 0xAF], [CHR 0xE2, CHR 0x81, CHR 0x9F],
     [CHR 0xE3, CHR 0x80, CHR 0x80]]"

definition leading_space :: "string list \<Rightarrow> string \<Rightarrow> nat" where
  "leading_space rs s = (case find (HasPrefix s) rs of None \<Rightarrow> 0 | Some r \<Rightarrow> length r)"

function trim_front :: "string list \<Rightarrow> string \<Rightarrow> string" where
  "trim_front rs s =
     (let k = leading_space rs s in if k = 0 \<or> s = [] then s else trim_front rs (drop k s))"
  by pat_completeness auto
termination
  by (relation "measure (\<lambda>(rs, s). length s)") auto

declare trim_front.simps [simp del]

definition TrimSpace :: "string \<Rightarrow> string" where
  "TrimSpace s = rev (trim_front (map rev space_runes) (rev (trim_front space_runes s)))"

section \<open>Package sort\<close>

text \<open>
  \<open>sort.Slice\<close> promises a permutation of its input that is sorted by its comparison; the
  order of equal elements is left open. The model sorts with the library's stable
  \<^term>\<open>sort_key\<close>, which is what Go's insertion sort (used up to 12 elements) computes. The
  contract is the locale \<open>slice_sort\<close>: what a client proves from it holds for every
  implementation, and \<open>agree\<close> says that on distinct keys all implementations return the same
  list, so the choice is visible only where two elements have equal keys.
\<close>

locale slice_sort =
  fixes srt :: "'a list \<Rightarrow> 'a list"
    and key :: "'a \<Rightarrow> 'k :: linorder"
  assumes permutes: "mset (srt xs) = mset xs"
    and sorts: "sorted (map key (srt xs))"
begin

lemma same_set [simp]: "set (srt xs) = set xs"
  by (metis permutes set_mset_mset)

lemma same_length [simp]: "length (srt xs) = length xs"
  by (metis permutes size_mset)

lemma same_keys: "mset (map key (srt xs)) = mset (map key xs)"
  by (simp add: permutes)

lemma distinct_keys: "distinct (map key (srt xs)) \<longleftrightarrow> distinct (map key xs)"
  by (metis same_keys mset_eq_imp_distinct_iff)

lemma agree:
  assumes "mset ys = mset xs" and "sorted (map key ys)" and "distinct (map key xs)"
  shows "srt xs = ys"
proof -
  have inj: "inj_on key (set xs)" using assms(3) by (simp add: distinct_map)
  have "sort_key key xs = ys"
    using assms(1) inj assms(2) by (intro sort_key_inj_key_eq) simp_all
  moreover have "sort_key key xs = srt xs"
    using permutes inj sorts by (intro sort_key_inj_key_eq) simp_all
  ultimately show ?thesis by simp
qed

end

section \<open>Codecs\<close>

text \<open>
  A wire format: what one side encodes the other reads back, followed by whatever comes next.
  \<open>many\<close> reads items until the input is empty; the fuel bounds the number of items, and the
  length of the input is always enough, as an item is not empty.
\<close>

fun many :: "('b list \<Rightarrow> ('a \<times> 'b list) option) \<Rightarrow> nat \<Rightarrow> 'b list \<Rightarrow> 'a list option" where
  "many dec n [] = Some []"
| "many dec 0 (b # bs) = None"
| "many dec (Suc n) (b # bs) =
     (case dec (b # bs) of None \<Rightarrow> None | Some (x, rest) \<Rightarrow> map_option (Cons x) (many dec n rest))"

locale codec =
  fixes enc :: "'a \<Rightarrow> 'b list"
    and dec :: "'b list \<Rightarrow> ('a \<times> 'b list) option"
    and ok :: "'a \<Rightarrow> bool"
  assumes roundtrip: "ok x \<Longrightarrow> dec (enc x @ rest) = Some (x, rest)"
    and nonempty: "ok x \<Longrightarrow> enc x \<noteq> []"
begin

lemma prefix_free:
  assumes "ok x" and "ok y" and "enc x @ r = enc y @ s"
  shows "x = y \<and> r = s"
  using roundtrip [OF assms(1), of r] roundtrip [OF assms(2), of s]
  unfolding assms(3) by (metis option.inject prod.inject)

lemma many_fuel:
  "\<forall>x \<in> set xs. ok x \<Longrightarrow> length xs \<le> n \<Longrightarrow> many dec n (concat (map enc xs)) = Some xs"
proof (induction xs arbitrary: n)
  case (Cons x xs)
  then obtain m where n: "n = Suc m" by (cases n) auto
  have x: "ok x" using Cons.prems by simp
  then obtain b bs where b: "concat (map enc (x # xs)) = b # bs"
    using nonempty [OF x] by (cases "concat (map enc (x # xs))") auto
  have "dec (b # bs) = Some (x, concat (map enc xs))"
    using roundtrip [OF x, of "concat (map enc xs)"] b by simp
  then show ?case unfolding b n using Cons n by simp
qed simp

lemma length_enc: "\<forall>x \<in> set xs. ok x \<Longrightarrow> length xs \<le> length (concat (map enc xs))"
proof (induction xs)
  case (Cons x xs)
  then obtain b bs where "enc x = b # bs" using nonempty [of x] by (cases "enc x") auto
  with Cons show ?case by simp
qed simp

lemma many_enc:
  assumes "\<forall>x \<in> set xs. ok x"
  shows "many dec (length (concat (map enc xs))) (concat (map enc xs)) = Some xs"
  using assms by (intro many_fuel length_enc)

end

section \<open>Writing a file (os.WriteFile)\<close>

text \<open>The call truncates the file when it opens it: it writes everything, or does not open the file,
  which stays as it was, or fails later, when the last \<open>k\<close> bytes are missing on disk (all of them for
  a large \<open>k\<close>; none when only closing failed). The texts are those of the errors.\<close>

datatype write_outcome = WroteAll | NotOpened string | CutShort nat string

definition cut_end :: "nat \<Rightarrow> 'a list \<Rightarrow> 'a list" where
  "cut_end k b = take (length b - k) b"

section \<open>Allocation\<close>

text \<open>The largest allocation of the runtime on 64-bit Linux: \<open>make\<close> panics beyond it. Running out of
  memory below it is outside the model.\<close>

definition maxAlloc :: int where
  "maxAlloc = 2 ^ 48"

section \<open>Integers as text\<close>

text \<open>The sign of a number, and the range of an int.\<close>

definition signOf :: "string \<Rightarrow> bool \<times> string" where
  "signOf s = (case s of [] \<Rightarrow> (False, []) | c # cs \<Rightarrow>
     if c = CHR ''-'' then (True, cs) else if c = CHR ''+'' then (False, cs) else (False, s))"

definition toInt64 :: "bool \<Rightarrow> nat \<Rightarrow> int option" where
  "toInt64 neg n = (if neg then (if n \<le> 2 ^ 63 then Some (- int n) else None)
                  else (if n < 2 ^ 63 then Some (int n) else None))"

text \<open>\<open>strconv.Atoi\<close> and \<open>ParseInt(_, 10, 64)\<close>: an optional sign, one or more digits, in range.\<close>

definition Atoi :: "string \<Rightarrow> int option" where
  "Atoi s = (case signOf s of (neg, u) \<Rightarrow>
     if u = [] \<or> \<not> list_all is_digit u then None else toInt64 neg (digits_val u))"

definition in_int64 :: "int \<Rightarrow> bool" where
  "in_int64 n \<longleftrightarrow> - (2 ^ 63) \<le> n \<and> n < 2 ^ 63"

lemma toInt64_range: "toInt64 neg n = Some i \<Longrightarrow> in_int64 i"
  by (auto simp: toInt64_def in_int64_def split: if_splits)

lemma Atoi_range: "Atoi s = Some n \<Longrightarrow> in_int64 n"
  by (auto simp: Atoi_def dest: toInt64_range split: prod.splits if_splits)

lemma Atoi_FormatInt: "in_int64 n \<Longrightarrow> Atoi (FormatInt n) = Some n"
proof -
  assume n: "in_int64 n"
  have ds: "list_all is_digit (FormatUint m)" for m
    by (simp add: list_all_iff FormatUint_digits)
  show ?thesis
  proof (cases "n < 0")
    case True
    then show ?thesis using n ds by (simp add: FormatInt_def Atoi_def signOf_def toInt64_def in_int64_def)
  next
    case False
    obtain c cs where eq: "FormatUint (nat n) = c # cs" by (cases "FormatUint (nat n)") auto
    then have "c \<noteq> CHR ''-'' \<and> c \<noteq> CHR ''+''" using FormatUint_digits [of c "nat n"] by (auto simp: is_digit_def)
    then have "signOf (FormatUint (nat n)) = (False, FormatUint (nat n))" by (simp add: signOf_def eq)
    moreover have "FormatUint (nat n) \<noteq> []" by (simp add: eq)
    ultimately show ?thesis using False n ds by (simp add: FormatInt_def Atoi_def toInt64_def in_int64_def)
  qed
qed

end
