(* ===== verification/Redis.thy ===== *)
theory Redis
  imports GoBase
begin

text \<open>
  The RESP2 client of cmd/tmm-stat-exporter/redis.go. A connection is what the server will send
  (\<open>rin\<close>, up to the close or the deadline), what was sent to it (\<open>rout\<close>), and how many more
  flushes the peer accepts; every behaviour of a server is one such connection. The TLS dial is
  outside the model: a connection is given. A call returns a value, an error, or panics:
  \<open>readReply\<close> allocates what the peer asks for, and \<open>make\<close> panics above the address space.
\<close>

section \<open>Replies and errors\<close>

datatype reply = RStr string | RInt int | RArr "reply list" | RNil

datatype redis_error = EOF | ShortReply string | ServerError string | NumError string
  | UnknownType char | WriteError | UnexpectedScan

text \<open>The outcome of reading: a value and the rest of the stream, an error and the rest, a panic.
  \<open>OutOfFuel\<close> stands for a reader that did not finish; \<open>readReply_total\<close> excludes it.\<close>

datatype 'a outcome = Ok 'a string | Err redis_error string | Panic | OutOfFuel

definition crlf :: string where
  "crlf = [CHR 0x0D, CHR 0x0A]"

text \<open>\<open>ReadString('\n')\<close>: the line with its newline; \<open>None\<close> at the end of the stream.\<close>

fun readLine :: "string \<Rightarrow> (string \<times> string) option" where
  "readLine [] = None"
| "readLine (c # cs) =
     (if c = CHR 0x0A then Some ([c], cs)
      else (case readLine cs of None \<Rightarrow> None | Some (l, r) \<Rightarrow> Some (c # l, r)))"

text \<open>\<open>readFull\<close> of \<open>n\<close> bytes: the bytes and the rest, or the error at the end of the stream.\<close>

definition readFull :: "string \<Rightarrow> nat \<Rightarrow> string outcome" where
  "readFull s n = (if n \<le> length s then Ok (take n s) (drop n s) else Err EOF [])"

text \<open>The loop that fills the array, over a reader of one element.\<close>

fun readN :: "(string \<Rightarrow> reply outcome) \<Rightarrow> nat \<Rightarrow> string \<Rightarrow> reply list outcome" where
  "readN rd 0 s = Ok [] s"
| "readN rd (Suc n) s =
     (case rd s of
        Ok x s' \<Rightarrow> (case readN rd n s' of Ok xs s'' \<Rightarrow> Ok (x # xs) s'' | Err e s'' \<Rightarrow> Err e s''
                  | Panic \<Rightarrow> Panic | OutOfFuel \<Rightarrow> OutOfFuel)
      | Err e s' \<Rightarrow> Err e s' | Panic \<Rightarrow> Panic | OutOfFuel \<Rightarrow> OutOfFuel)"

text \<open>The fuel bounds the nesting of arrays.\<close>

fun readReply :: "nat \<Rightarrow> string \<Rightarrow> reply outcome" where
  "readReply 0 s = OutOfFuel"
| "readReply (Suc k) s =
     (case readLine s of
        None \<Rightarrow> Err EOF []
      | Some (line, s') \<Rightarrow>
          if length line < 3 then Err (ShortReply line) s'
          else
            (case slice_expr line 1 (length line - 2) of None \<Rightarrow> Panic | Some body \<Rightarrow>
             let typ = hd line in
             if typ = CHR ''+'' then Ok (RStr body) s'
             else if typ = CHR ''-'' then Err (ServerError body) s'
             else if typ = CHR '':'' then
               (case Atoi body of None \<Rightarrow> Err (NumError body) s' | Some n \<Rightarrow> Ok (RInt n) s')
             else if typ = CHR ''$'' then
               (case Atoi body of
                  None \<Rightarrow> Err (NumError body) s'
                | Some n \<Rightarrow>
                    if n < 0 then Ok RNil s'
                    else if n + 2 > maxAlloc then Panic
                    else (case readFull s' (nat n + 2) of
                            Ok buf s'' \<Rightarrow> Ok (RStr (take (nat n) buf)) s''
                          | Err e s'' \<Rightarrow> Err e s'' | Panic \<Rightarrow> Panic | OutOfFuel \<Rightarrow> OutOfFuel))
             else if typ = CHR ''*'' then
               (case Atoi body of
                  None \<Rightarrow> Err (NumError body) s'
                | Some n \<Rightarrow>
                    if n < 0 then Ok RNil s'
                    else if 16 * n > maxAlloc then Panic
                    else (case readN (readReply k) (nat n) s' of
                            Ok xs s'' \<Rightarrow> Ok (RArr xs) s''
                          | Err e s'' \<Rightarrow> Err e s'' | Panic \<Rightarrow> Panic | OutOfFuel \<Rightarrow> OutOfFuel))
             else Err (UnknownType typ) s'))"

lemma reply_body [simp]:
  "\<not> length line < 3 \<Longrightarrow> slice_expr line (Suc 0) (length line - 2) = Some (take (length line - 3) (tl line))"
  by (simp add: drop_Suc numeral_eq_Suc)

section \<open>The client\<close>

record redisClient =
  rin :: string
  rout :: string
  rflushes :: nat

definition request :: "string list \<Rightarrow> string" where
  "request args =
     ''*'' @ FormatUint (length args) @ crlf
     @ concat (map (\<lambda>a. ''$'' @ FormatUint (length a) @ crlf @ a @ crlf) args)"

text \<open>\<open>None\<close> is the panic.\<close>

definition redis_do :: "redisClient \<Rightarrow> string list \<Rightarrow> ((redis_error + reply) \<times> redisClient) option" where
  "redis_do c args =
     (if rflushes c = 0 then Some (Inl WriteError, c)
      else
        (let c' = c\<lparr>rout := rout c @ request args, rflushes := rflushes c - 1\<rparr>
         in case readReply (Suc (length (rin c))) (rin c) of
              Ok r s \<Rightarrow> Some (Inr r, c'\<lparr>rin := s\<rparr>)
            | Err e s \<Rightarrow> Some (Inl e, c'\<lparr>rin := s\<rparr>)
            | _ \<Rightarrow> None))"

fun strings_of :: "reply list \<Rightarrow> string list" where
  "strings_of [] = []"
| "strings_of (RStr s # rs) = s # strings_of rs"
| "strings_of (_ # rs) = strings_of rs"

text \<open>The SCAN loop. The fuel bounds the number of rounds; every round that goes on has read a
  reply, so the length of the stream is enough.\<close>

datatype 'a run = Done 'a | Panicked | NoFuel

fun scan_loop :: "nat \<Rightarrow> redisClient \<Rightarrow> string \<Rightarrow> string \<Rightarrow> string list \<Rightarrow> string
    \<Rightarrow> (redis_error option \<times> string list \<times> redisClient) run" where
  "scan_loop 0 c pattern num keys cursor = NoFuel"
| "scan_loop (Suc k) c pattern num keys cursor =
     (case redis_do c [''SCAN'', cursor, ''MATCH'', pattern, ''COUNT'', num] of
        None \<Rightarrow> Panicked
      | Some (Inl e, c') \<Rightarrow> Done (Some e, keys, c')
      | Some (Inr (RArr [cur, batch]), c') \<Rightarrow>
          (let cursor' = (case cur of RStr s \<Rightarrow> s | _ \<Rightarrow> []);
               keys' = keys @ (case batch of RArr ks \<Rightarrow> strings_of ks | _ \<Rightarrow> [])
           in if cursor' = ''0'' then Done (None, keys', c')
              else scan_loop k c' pattern num keys' cursor')
      | Some (Inr _, c') \<Rightarrow> Done (Some UnexpectedScan, keys, c'))"

definition scanMatch :: "redisClient \<Rightarrow> string \<Rightarrow> int
    \<Rightarrow> (redis_error option \<times> string list \<times> redisClient) run" where
  "scanMatch c pattern num = scan_loop (Suc (length (rin c))) c pattern (FormatInt num) [] ''0''"

definition redis_get :: "redisClient \<Rightarrow> string \<Rightarrow> (string option \<times> redisClient) option" where
  "redis_get c key =
     (case redis_do c [''GET'', key] of
        None \<Rightarrow> None
      | Some (Inr (RStr s), c') \<Rightarrow> Some (Some s, c')
      | Some (_, c') \<Rightarrow> Some (None, c'))"

text \<open>\<open>dialRedis\<close> after the TLS handshake: \<open>SELECT\<close> when the database is not 0.\<close>

definition dialSelect :: "redisClient \<Rightarrow> int \<Rightarrow> ((redis_error + redisClient)) option" where
  "dialSelect c db =
     (if db = 0 then Some (Inr c)
      else (case redis_do c [''SELECT'', FormatInt db] of
              None \<Rightarrow> None
            | Some (Inl e, c') \<Rightarrow> Some (Inl e)
            | Some (Inr _, c') \<Rightarrow> Some (Inr c')))"

section \<open>What a reader consumes\<close>

lemma readLine_append: "readLine s = Some (l, r) \<Longrightarrow> s = l @ r"
  by (induction s arbitrary: l r) (auto split: if_splits option.splits prod.splits)

lemma readLine_line: "CHR 0x0A \<notin> set l \<Longrightarrow> readLine (l @ CHR 0x0A # r) = Some (l @ [CHR 0x0A], r)"
  by (induction l) auto

text \<open>A reader that takes something off the stream whenever it succeeds, and never adds to it.\<close>

definition consumes :: "nat \<Rightarrow> (string \<Rightarrow> 'a outcome) \<Rightarrow> bool" where
  "consumes d rd \<longleftrightarrow>
     (\<forall>s. case rd s of Ok x s' \<Rightarrow> length s' + d \<le> length s | Err e s' \<Rightarrow> length s' \<le> length s | _ \<Rightarrow> True)"

lemma consumesI:
  assumes "\<And>s x s'. rd s = Ok x s' \<Longrightarrow> length s' + d \<le> length s"
    and "\<And>s e s'. rd s = Err e s' \<Longrightarrow> length s' \<le> length s"
  shows "consumes d rd"
  using assms by (auto simp: consumes_def split: outcome.split)

lemma consumes_Ok: "consumes d rd \<Longrightarrow> rd s = Ok x s' \<Longrightarrow> length s' + d \<le> length s"
  by (auto simp: consumes_def dest: spec [of _ s])

lemma consumes_Err: "consumes d rd \<Longrightarrow> rd s = Err e s' \<Longrightarrow> length s' \<le> length s"
  by (auto simp: consumes_def dest: spec [of _ s])

lemma consumes_readN: "consumes d rd \<Longrightarrow> consumes 0 (readN rd n)"
proof (induction n)
  case (Suc n)
  then have ih: "consumes 0 (readN rd n)" by simp
  show ?case
    by (rule consumesI) (auto split: outcome.splits
        dest!: consumes_Ok [OF Suc.prems] consumes_Err [OF Suc.prems] consumes_Ok [OF ih] consumes_Err [OF ih])
qed (simp add: consumes_def)

lemma consumes_readFull: "consumes n (\<lambda>s. readFull s n)"
  by (rule consumesI) (auto simp: readFull_def split: if_splits)

lemma consumes_readReply: "consumes 3 (readReply k)"
proof (induction k)
  case (Suc k)
  have bulk: "length t \<le> length s" if "readFull s n = Ok x t" for s n x t
    using consumes_Ok [OF consumes_readFull that] by simp
  have bulk': "length t \<le> length s" if "readFull s n = Err e t" for s n e t
    using consumes_Err [OF consumes_readFull that] .
  have arr: "length t \<le> length s" if "readN (readReply k) n s = Ok x t" for s n x t
    using consumes_Ok [OF consumes_readN [OF Suc] that] by simp
  have arr': "length t \<le> length s" if "readN (readReply k) n s = Err e t" for s n e t
    using consumes_Err [OF consumes_readN [OF Suc] that] .
  have line: "length s' + length l = length s" if "readLine s = Some (l, s')" for s l s'
    using readLine_append [OF that] by simp
  show ?case
    by (rule consumesI)
       (auto simp: Let_def split: option.splits if_splits outcome.splits prod.splits
         dest!: line bulk bulk' arr arr')
qed (simp add: consumes_def)

section \<open>Fuel\<close>

lemma readN_cong:
  assumes "consumes 3 f" and "\<And>t. length t \<le> length s \<Longrightarrow> f t = g t"
  shows "readN f n s = readN g n s"
  using assms(2)
proof (induction n arbitrary: s)
  case (Suc n)
  have eq: "f s = g s" using Suc.prems by simp
  have "readN f n t = readN g n t" if "f s = Ok x t" for x t
    using consumes_Ok [OF assms(1) that] by (intro Suc) simp
  then show ?case using eq by (auto split: outcome.split)
qed simp

lemma readN_fuel:
  assumes "consumes 3 f" and "\<And>t. length t \<le> length s \<Longrightarrow> f t \<noteq> OutOfFuel"
  shows "readN f n s \<noteq> OutOfFuel"
  using assms(2)
proof (induction n arbitrary: s)
  case (Suc n)
  have "f s \<noteq> OutOfFuel" using Suc.prems by simp
  moreover have "readN f n t \<noteq> OutOfFuel" if "f s = Ok x t" for x t
    using consumes_Ok [OF assms(1) that] by (intro Suc) simp
  ultimately show ?case by (auto split: outcome.split)
qed simp

lemma readReply_fuel:
  assumes "length s < k"
  shows "readReply k s \<noteq> OutOfFuel"
  using assms
proof (induction k arbitrary: s)
  case (Suc k)
  have step: "readN (readReply k) n t \<noteq> OutOfFuel" if "length t < length s" for n t
    using that Suc.prems by (intro readN_fuel consumes_readReply Suc.IH) simp
  have "readN (readReply k) n t \<noteq> OutOfFuel" if "readLine s = Some (l, t)" "\<not> length l < 3" for n l t
    by (rule step) (use readLine_append [OF that(1)] that(2) in auto)
  moreover have "readFull t n \<noteq> OutOfFuel" "readFull t n \<noteq> Panic" for t n by (simp_all add: readFull_def)
  ultimately show ?case by (auto simp: Let_def split: option.split outcome.split)
qed simp

lemma readReply_more_fuel:
  "length s < k \<Longrightarrow> length s < m \<Longrightarrow> readReply k s = readReply m s"
proof (induction k arbitrary: s m)
  case (Suc k)
  then obtain m' where m: "m = Suc m'" by (cases m) auto
  have "readN (readReply k) n t = readN (readReply m') n t"
    if "readLine s = Some (l, t)" "\<not> length l < 3" for n l t
    using readLine_append [OF that(1)] that(2) Suc.prems m
    by (intro readN_cong consumes_readReply Suc.IH) auto
  then show ?case unfolding m by (auto simp: Let_def split: option.split)
qed simp

section \<open>What is read, and when reading panics\<close>

text \<open>A line that announces more than can be allocated: \<open>n + 2\<close> bytes of a bulk string or \<open>n\<close>
  interface values of 16 bytes.\<close>

definition announcesHuge :: "string \<Rightarrow> bool" where
  "announcesHuge s =
     (case readLine s of
        None \<Rightarrow> False
      | Some (line, _) \<Rightarrow> 3 \<le> length line
          \<and> (case Atoi (take (length line - 3) (tl line)) of
               None \<Rightarrow> False
             | Some n \<Rightarrow> hd line = CHR ''$'' \<and> n + 2 > maxAlloc \<or> hd line = CHR ''*'' \<and> 16 * n > maxAlloc))"

text \<open>The parts of the stream an outcome leaves: what was read is a front part of at least \<open>d\<close>
  bytes for a value.\<close>

definition frontOf :: "nat \<Rightarrow> string \<Rightarrow> 'a outcome \<Rightarrow> bool" where
  "frontOf d s out =
     (case out of
        Ok r rest \<Rightarrow> \<exists>p. s = p @ rest \<and> d \<le> length p
      | Err e rest \<Rightarrow> \<exists>p. s = p @ rest
      | Panic \<Rightarrow> \<exists>p rest. s = p @ rest \<and> announcesHuge rest
      | OutOfFuel \<Rightarrow> True)"

lemma frontOf_later:
  assumes "frontOf 0 s' out" and "s = l @ s'" and "d \<le> length l"
  shows "frontOf d s out"
proof (cases out)
  case (Ok r rest)
  then obtain p where "s' = p @ rest" using assms(1) by (auto simp: frontOf_def)
  then show ?thesis using assms(2,3) Ok by (auto simp: frontOf_def intro!: exI [of _ "l @ p"])
next
  case (Err e rest)
  then obtain p where "s' = p @ rest" using assms(1) by (auto simp: frontOf_def)
  then show ?thesis using assms(2) Err by (auto simp: frontOf_def intro!: exI [of _ "l @ p"])
next
  case Panic
  then obtain p rest where "s' = p @ rest" "announcesHuge rest" using assms(1) by (auto simp: frontOf_def)
  then show ?thesis using assms(2) Panic
    unfolding frontOf_def Panic outcome.case by (intro exI [of _ "l @ p"] exI [of _ rest]) simp
qed (simp add: frontOf_def)

lemma readN_front: "(\<And>s. frontOf d s (rd s)) \<Longrightarrow> frontOf 0 s (readN rd n s)"
proof (induction n arbitrary: s)
  case (Suc n)
  note step = Suc.prems [of s]
  show ?case
  proof (cases "rd s")
    case (Ok x s')
    then obtain p where "s = p @ s'" using step by (auto simp: frontOf_def)
    from frontOf_later [OF Suc.IH [OF Suc.prems] this, of 0]
    show ?thesis using Ok by (auto simp: frontOf_def split: outcome.splits)
  qed (use step in \<open>auto simp: frontOf_def\<close>)
qed (simp add: frontOf_def)

lemma readReply_front: "frontOf 3 s (readReply k s)"
proof (induction k arbitrary: s)
  case (Suc k)
  show ?case
  proof (cases "readLine s")
    case (Some r)
    obtain l s' where r: "r = (l, s')" by fastforce
    note line = Some [unfolded r] and s = readLine_append [OF Some [unfolded r]]
    show ?thesis
    proof (cases "length l < 3")
      case False
      have huge: "frontOf 3 s Panic" if "announcesHuge s"
        unfolding frontOf_def outcome.case using that by (intro exI [of _ "[]"] exI [of _ s]) simp
      have bulk: "frontOf 0 s' (case readFull s' m of
            Ok buf s'' \<Rightarrow> Ok (RStr (take (nat n) buf)) s'' | Err e s'' \<Rightarrow> Err e s''
          | Panic \<Rightarrow> Panic | OutOfFuel \<Rightarrow> OutOfFuel)" for n m
        by (auto simp: readFull_def frontOf_def intro: exI [of _ "take m s'"])
      have arr: "frontOf 0 s' (case readN (readReply k) n s' of
            Ok xs s'' \<Rightarrow> Ok (RArr xs) s'' | Err e s'' \<Rightarrow> Err e s''
          | Panic \<Rightarrow> Panic | OutOfFuel \<Rightarrow> OutOfFuel)" for n
        using readN_front [where rd = "readReply k" and s = s' and n = n, OF Suc]
        by (auto simp: frontOf_def split: outcome.splits)
      have now: "frontOf 0 s' (Ok x s')" "frontOf 0 s' (Err e s')" for x :: reply and e
        by (simp_all add: frontOf_def)
      have len: "3 \<le> length l" using False by simp
      note later = frontOf_later [OF _ s len]
      show ?thesis
        using line False huge
        by (auto simp: Let_def announcesHuge_def drop_Suc split: option.split
            intro!: later [OF bulk] later [OF arr] later [OF now(1)] later [OF now(2)]
            simp del: readN.simps)
    qed (use line s in \<open>auto simp: frontOf_def\<close>)
  qed (simp add: frontOf_def)
qed (simp add: frontOf_def)

section \<open>Numbers and lines on the wire\<close>

lemma digit_not_newline: "is_digit c \<Longrightarrow> c \<noteq> CHR 0x0A \<and> c \<noteq> CHR 0x0D"
  by (auto simp: is_digit_def)

lemma FormatInt_no_newline: "CHR 0x0A \<notin> set (FormatInt n)"
proof -
  have "CHR 0x0A \<notin> set (FormatUint m)" for m
    using FormatUint_digits digit_not_newline by blast
  then show ?thesis by (auto simp: FormatInt_def)
qed

text \<open>A reply starts with a line: the type byte and a text.\<close>

lemma readLine_typed:
  assumes "CHR 0x0A \<notin> set body" and "c \<noteq> CHR 0x0A"
  shows "readLine (c # body @ crlf @ s) = Some (c # body @ crlf, s)"
  using readLine_line [of "c # body @ [CHR 0x0D]" s] assms by (simp add: crlf_def)

lemma readReply_bulk_header:
  assumes "in_int64 n"
  shows "readReply (Suc k) (CHR ''$'' # FormatInt n @ crlf @ s) =
    (if n < 0 then Ok RNil s
     else if n + 2 > maxAlloc then Panic
     else if nat n + 2 \<le> length s then Ok (RStr (take (nat n) s)) (drop (nat n + 2) s)
     else Err EOF [])"
  using readLine_typed [OF FormatInt_no_newline, of "CHR ''$''" n s] assms
  by (simp add: Atoi_FormatInt readFull_def crlf_def)

lemma readReply_array_header:
  assumes "in_int64 n"
  shows "readReply (Suc k) (CHR ''*'' # FormatInt n @ crlf @ s) =
    (if n < 0 then Ok RNil s
     else if 16 * n > maxAlloc then Panic
     else (case readN (readReply k) (nat n) s of
             Ok xs s' \<Rightarrow> Ok (RArr xs) s' | Err e s' \<Rightarrow> Err e s' | Panic \<Rightarrow> Panic | OutOfFuel \<Rightarrow> OutOfFuel))"
  using readLine_typed [OF FormatInt_no_newline, of "CHR ''*''" n s] assms
  by (simp add: Atoi_FormatInt crlf_def)

lemma readReply_int:
  assumes "in_int64 n"
  shows "readReply (Suc k) (CHR '':'' # FormatInt n @ crlf @ s) = Ok (RInt n) s"
  using readLine_typed [OF FormatInt_no_newline, of "CHR '':''" n s] assms
  by (simp add: Atoi_FormatInt crlf_def)

section \<open>What a server sends\<close>

fun encodeReply :: "reply \<Rightarrow> string" where
  "encodeReply (RStr t) = CHR ''$'' # FormatInt (int (length t)) @ crlf @ t @ crlf"
| "encodeReply (RInt n) = CHR '':'' # FormatInt n @ crlf"
| "encodeReply RNil = CHR ''$'' # FormatInt (- 1) @ crlf"
| "encodeReply (RArr rs) = CHR ''*'' # FormatInt (int (length rs)) @ crlf @ concat (map encodeReply rs)"

text \<open>The replies whose parts fit the machine, and how deep their arrays nest.\<close>

fun reply_ok :: "reply \<Rightarrow> bool" where
  "reply_ok (RStr t) = (length t + 2 \<le> 2 ^ 48)"
| "reply_ok (RInt n) = in_int64 n"
| "reply_ok RNil = True"
| "reply_ok (RArr rs) = (length rs \<le> 2 ^ 44 \<and> list_all reply_ok rs)"

fun depth :: "reply \<Rightarrow> nat" where
  "depth (RArr rs) = Suc (foldr max (map depth rs) 0)"
| "depth _ = 1"

lemma depth_member: "r \<in> set rs \<Longrightarrow> depth r \<le> foldr max (map depth rs) 0"
  by (induction rs) (auto simp: le_max_iff_disj)

lemma readN_encode:
  assumes "\<And>r t. r \<in> set rs \<Longrightarrow> rd (encodeReply r @ t) = Ok r t"
  shows "readN rd (length rs) (concat (map encodeReply rs) @ s) = Ok rs s"
  using assms by (induction rs) simp_all

lemma readReply_encodeReply:
  "reply_ok r \<Longrightarrow> depth r \<le> k \<Longrightarrow> readReply k (encodeReply r @ s) = Ok r s"
proof (induction r arbitrary: k s rule: encodeReply.induct)
  case (1 t)
  then obtain m where "k = Suc m" by (cases k) auto
  with 1 show ?case
    by (simp add: readReply_bulk_header in_int64_def maxAlloc_def nat_add_distrib del: readReply.simps)
       (simp add: crlf_def)
next
  case (2 n)
  then obtain m where "k = Suc m" by (cases k) auto
  with 2 show ?case by (simp add: readReply_int del: readReply.simps)
next
  case 3
  then obtain m where "k = Suc m" by (cases k) auto
  then show ?case by (simp add: readReply_bulk_header in_int64_def del: readReply.simps)
next
  case (4 rs)
  then obtain m where k: "k = Suc m" by (cases k) auto
  have "readReply m (encodeReply r @ t) = Ok r t" if "r \<in> set rs" for r t
    using 4 that k depth_member [OF that] by (intro "4.IH") (auto simp: list_all_iff)
  then have "readN (readReply m) (length rs) (concat (map encodeReply rs) @ s) = Ok rs s"
    by (rule readN_encode)
  then show ?case using 4 unfolding k
    by (simp add: readReply_array_header in_int64_def maxAlloc_def del: readReply.simps)
qed

lemma depth_le_length: "depth r \<le> length (encodeReply r)"
proof (induction r rule: encodeReply.induct)
  case (4 rs)
  have "\<forall>r \<in> set rs. depth r \<le> length (encodeReply r) \<Longrightarrow>
      foldr max (map depth rs) 0 \<le> length (concat (map encodeReply rs))"
    by (induction rs) (auto simp: trans_le_add1 trans_le_add2)
  then show ?case using 4 by simp
qed simp_all

text \<open>The client's reader, with the fuel the client uses, is a decoder of replies.\<close>

definition decodeReply :: "string \<Rightarrow> (reply \<times> string) option" where
  "decodeReply s = (case readReply (Suc (length s)) s of Ok r s' \<Rightarrow> Some (r, s') | _ \<Rightarrow> None)"

lemma readReply_encodeReply_fuel:
  "reply_ok r \<Longrightarrow> readReply (Suc (length (encodeReply r @ s))) (encodeReply r @ s) = Ok r s"
  using depth_le_length [of r] by (intro readReply_encodeReply) simp_all

interpretation resp: codec encodeReply decodeReply reply_ok
proof unfold_locales
  show "decodeReply (encodeReply r @ s) = Some (r, s)" if "reply_ok r" for r s
    unfolding decodeReply_def readReply_encodeReply_fuel [OF that] by simp
  show "encodeReply r \<noteq> []" for r by (cases r) simp_all
qed

lemma request_encodeReply: "request args = encodeReply (RArr (map RStr args))"
  by (simp add: request_def FormatInt_def comp_def)

section \<open>The client against a server\<close>

lemma redis_do_reply:
  assumes "rflushes c = Suc n" and "rin c = encodeReply r @ s" and "reply_ok r"
  shows "redis_do c args = Some (Inr r, c\<lparr>rin := s, rout := rout c @ request args, rflushes := n\<rparr>)"
proof -
  have "readReply (Suc (length (rin c))) (rin c) = Ok r s"
    unfolding assms(2) by (rule readReply_encodeReply_fuel [OF assms(3)])
  then show ?thesis using assms(1) by (simp add: redis_do_def Let_def del: readReply.simps)
qed

lemma redis_do_consumes: "redis_do c args = Some (Inr r, c') \<Longrightarrow> length (rin c') + 3 \<le> length (rin c)"
  using consumes_Ok [OF consumes_readReply]
  by (auto simp: redis_do_def Let_def simp del: readReply.simps split: if_splits outcome.splits)

lemma scan_loop_terminates: "length (rin c) < k \<Longrightarrow> scan_loop k c pattern num keys cursor \<noteq> NoFuel"
proof (induction k arbitrary: c keys cursor)
  case (Suc k)
  have "scan_loop k c' pattern num keys' cursor' \<noteq> NoFuel"
    if "redis_do c args = Some (Inr r, c')" for c' args r keys' cursor'
    using redis_do_consumes [OF that] Suc.prems by (intro Suc.IH) simp
  then show ?case by (auto simp: Let_def split: option.split sum.split reply.split list.split)
qed simp

definition scanReply :: "string \<times> string list \<Rightarrow> reply" where
  "scanReply r = RArr [RStr (fst r), RArr (map RStr (snd r))]"

definition scanStream :: "(string \<times> string list) list \<Rightarrow> string" where
  "scanStream rounds = concat (map (encodeReply \<circ> scanReply) rounds)"

definition scanRequest :: "string \<Rightarrow> string \<Rightarrow> string \<Rightarrow> string" where
  "scanRequest pattern num cursor = request [''SCAN'', cursor, ''MATCH'', pattern, ''COUNT'', num]"

lemma strings_of_RStr [simp]: "strings_of (map RStr ks) = ks"
  by (induction ks) simp_all

lemma scan_loop_step:
  assumes "rflushes c = Suc n" and "rin c = encodeReply (scanReply r) @ s" and "reply_ok (scanReply r)"
  shows "scan_loop (Suc k) c pattern num keys cursor =
    (let c' = c\<lparr>rin := s, rout := rout c @ scanRequest pattern num cursor, rflushes := n\<rparr>
     in if fst r = ''0'' then Done (None, keys @ snd r, c')
        else scan_loop k c' pattern num (keys @ snd r) (fst r))"
  using redis_do_reply [OF assms] by (simp add: scanReply_def scanRequest_def Let_def)

lemma scan_loop_rounds:
  assumes "\<forall>r \<in> set rounds. fst r \<noteq> ''0'' \<and> reply_ok (scanReply r)" and "reply_ok (scanReply (''0'', ks))"
    and "rin c = scanStream (rounds @ [(''0'', ks)]) @ s" and "length rounds < rflushes c"
    and "length rounds < k"
  shows "scan_loop k c pattern num keys cursor =
    Done (None, keys @ concat (map snd rounds) @ ks,
          c\<lparr>rin := s,
            rout := rout c @ concat (map (scanRequest pattern num) (cursor # map fst rounds)),
            rflushes := rflushes c - Suc (length rounds)\<rparr>)"
  using assms
proof (induction rounds arbitrary: k c keys cursor)
  case Nil
  then obtain m n where "k = Suc m" "rflushes c = Suc n" by (cases k; cases "rflushes c") auto
  with Nil show ?case
    using scan_loop_step [of c n "(''0'', ks)" s] by (simp add: scanStream_def Let_def)
next
  case (Cons r rounds)
  then obtain m n where k: "k = Suc m" and n: "rflushes c = Suc n" by (cases k; cases "rflushes c") auto
  let ?s = "scanStream (rounds @ [(''0'', ks)]) @ s"
  let ?c = "c\<lparr>rin := ?s, rout := rout c @ scanRequest pattern num cursor, rflushes := n\<rparr>"
  have r: "rin c = encodeReply (scanReply r) @ ?s" "reply_ok (scanReply r)" "fst r \<noteq> ''0''"
    using Cons.prems(1,3) by (simp_all add: scanStream_def)
  then have "scan_loop k c pattern num keys cursor = scan_loop m ?c pattern num (keys @ snd r) (fst r)"
    unfolding k scan_loop_step [OF n r(1,2)] Let_def by (simp only: if_False)
  also have "\<dots> = Done (None, (keys @ snd r) @ concat (map snd rounds) @ ks,
      ?c\<lparr>rin := s, rout := rout ?c @ concat (map (scanRequest pattern num) (fst r # map fst rounds)),
         rflushes := rflushes ?c - Suc (length rounds)\<rparr>)"
    using Cons.prems k n by (intro Cons.IH) simp_all
  finally show ?case using n by simp
qed

lemma scanMatch_rounds:
  assumes "\<forall>r \<in> set rounds. fst r \<noteq> ''0'' \<and> reply_ok (scanReply r)" and "reply_ok (scanReply (''0'', ks))"
    and "rin c = scanStream (rounds @ [(''0'', ks)]) @ s" and "length rounds < rflushes c"
  shows "scanMatch c pattern num =
    Done (None, concat (map snd rounds) @ ks,
          c\<lparr>rin := s,
            rout := rout c @ concat (map (scanRequest pattern (FormatInt num)) (''0'' # map fst rounds)),
            rflushes := rflushes c - Suc (length rounds)\<rparr>)"
proof -
  have "length rounds \<le> length (concat (map encodeReply (map scanReply rounds)))"
    using assms(1) resp.length_enc [of "map scanReply rounds"] by simp
  then have "length rounds < Suc (length (rin c))" using assms(3) by (simp add: scanStream_def comp_def)
  from scan_loop_rounds [OF assms(1,2,3,4) this, of pattern "FormatInt num" "[]" "''0''"]
  show ?thesis by (simp add: scanMatch_def)
qed

section \<open>Properties\<close>

text \<open>C32: \<open>readReply\<close> returns on every stream, and it panics only over the allocation: it takes
  at least the three bytes of a line off the front of the stream when it returns a value, and
  nothing but a front part when it returns an error; when it panics, some place of the stream
  announces a bulk string or an array above the address space. The nesting of arrays is bounded by
  the length of the stream, so more fuel changes nothing.\<close>

theorem readReply_total:
  "(case readReply (Suc (length s)) s of
      Ok r rest \<Rightarrow> \<exists>p. s = p @ rest \<and> 3 \<le> length p
    | Err e rest \<Rightarrow> \<exists>p. s = p @ rest
    | Panic \<Rightarrow> \<exists>p rest. s = p @ rest \<and> announcesHuge rest
    | OutOfFuel \<Rightarrow> False)
   \<and> readReply (Suc (length s) + k) s = readReply (Suc (length s)) s"
proof
  have "readReply (Suc (length s)) s \<noteq> OutOfFuel" by (rule readReply_fuel) simp
  then show "case readReply (Suc (length s)) s of
      Ok r rest \<Rightarrow> \<exists>p. s = p @ rest \<and> 3 \<le> length p
    | Err e rest \<Rightarrow> \<exists>p. s = p @ rest
    | Panic \<Rightarrow> \<exists>p rest. s = p @ rest \<and> announcesHuge rest
    | OutOfFuel \<Rightarrow> False"
    using readReply_front [of s "Suc (length s)"] by (auto simp: frontOf_def split: outcome.split)
  show "readReply (Suc (length s) + k) s = readReply (Suc (length s)) s"
    by (rule readReply_more_fuel) simp_all
qed

text \<open>The SCAN loop ends on every connection, however the server answers: each round that
  goes on has read a reply.\<close>

theorem scanMatch_terminates: "scanMatch c pattern num \<noteq> NoFuel"
  unfolding scanMatch_def by (rule scan_loop_terminates) simp

text \<open>C19: against a server that answers SCAN in rounds, the last with cursor 0, \<open>scanMatch\<close>
  returns the keys of all rounds in order, sends one request per round with the cursor of the
  round before, and leaves the stream at the byte after the last reply.\<close>

theorem scanMatch_collects:
  assumes "\<forall>r \<in> set rounds. fst r \<noteq> ''0'' \<and> reply_ok (scanReply r)" and "reply_ok (scanReply (''0'', ks))"
    and "rin c = scanStream (rounds @ [(''0'', ks)]) @ s" and "length rounds < rflushes c"
  shows "scanMatch c pattern num =
    Done (None, concat (map snd rounds) @ ks,
          c\<lparr>rin := s,
            rout := rout c @ concat (map (scanRequest pattern (FormatInt num)) (''0'' # map fst rounds)),
            rflushes := rflushes c - Suc (length rounds)\<rparr>)"
  using assms by (rule scanMatch_rounds)

text \<open>A request is a RESP array of bulk strings: the client's own reader gives the arguments
  back, whatever bytes they hold.\<close>

theorem request_roundtrip:
  assumes "list_all (\<lambda>a. length a + 2 \<le> 2 ^ 48) args" and "length args \<le> 2 ^ 44"
  shows "readReply (Suc (length (request args @ s))) (request args @ s) = Ok (RArr (map RStr args)) s"
  unfolding request_encodeReply
  by (rule readReply_encodeReply_fuel) (use assms in \<open>simp add: list_all_iff\<close>)

text \<open>C33: a bulk string: a negative length is the null reply, a stream that ends early is an
  error, and the announced length is allocated unchecked, so a length above the address space
  (one near the top of the int range wraps) panics.\<close>

theorem readReply_bulk:
  assumes "in_int64 n"
  shows "readReply (Suc k) (''$'' @ FormatInt n @ crlf @ s) =
    (if n < 0 then Ok RNil s
     else if n + 2 > 2 ^ 48 then Panic
     else if nat n + 2 \<le> length s then Ok (RStr (take (nat n) s)) (drop (nat n + 2) s)
     else Err EOF [])"
  using readReply_bulk_header [OF assms] by (simp add: maxAlloc_def del: readReply.simps)

definition demo_conn :: redisClient where
  "demo_conn = \<lparr>rin = scanStream [(''7'', [''k1'']), (''0'', [''k2''])] @ ''x'', rout = [], rflushes = 2\<rparr>"

theorem scanMatch_collects_witness:
  "scanMatch demo_conn ''*T*'' 200 =
    Done (None, [''k1'', ''k2''],
      demo_conn\<lparr>rin := ''x'',
        rout := scanRequest ''*T*'' (FormatInt 200) ''0'' @ scanRequest ''*T*'' (FormatInt 200) ''7'',
        rflushes := 0\<rparr>)"
  using scanMatch_collects [of "[(''7'', [''k1''])]" "[''k2'']" demo_conn "''x''" "''*T*''" 200]
  by (simp add: demo_conn_def scanReply_def)

theorem request_roundtrip_witness:
  "readReply (Suc (length (request [''GET'', ''k1''] @ ''x''))) (request [''GET'', ''k1''] @ ''x'')
     = Ok (RArr [RStr ''GET'', RStr ''k1'']) ''x''"
  using request_roundtrip [of "[''GET'', ''k1'']" "''x''"] by simp

theorem readReply_bulk_witness:
  "readReply 1 (''$'' @ FormatInt (2 ^ 63 - 1) @ crlf @ ''x'') = Panic"
  using readReply_bulk [of "2 ^ 63 - 1" 0 "''x''"] by (simp add: in_int64_def del: readReply.simps)

end
