(* ===== verification/GoFloat.thy ===== *)
theory GoFloat
  imports GoBase
begin

text \<open>
  The \<open>float64\<close> values this program handles. Every sample is an integer (a counter, a count,
  0 or 1) or the sum or difference of two such values, so a \<open>float64\<close> is an integer that 53
  significant bits can hold, an infinity, or NaN (which only the difference of two infinities
  gives). Conversions and additions round to nearest, ties to even, as IEEE 754 and Go do. A
  negative zero cannot arise: zeros come from the conversion of 0 and from sums, and x - x
  is +0. \<open>Float64bits\<close> is the binary64 encoding; the bits of NaN depend on the platform, and no
  lemma uses them.
\<close>

datatype f64 = FInt int | FPInf | FNInf | FNaN

fun bitlen :: "nat \<Rightarrow> nat" where
  "bitlen n = (if n = 0 then 0 else Suc (bitlen (n div 2)))"

declare bitlen.simps [simp del]

text \<open>Round to 53 significant bits, half to even.\<close>

definition round53 :: "nat \<Rightarrow> nat" where
  "round53 n =
     (let l = bitlen n in
      if l \<le> 53 then n
      else (let k = l - 53; q = n div 2 ^ k; r = n mod 2 ^ k
            in if 2 ^ (k - 1) < r \<or> (r = 2 ^ (k - 1) \<and> odd q) then (q + 1) * 2 ^ k else q * 2 ^ k))"

text \<open>The float nearest to an integer.\<close>

definition to_f64 :: "int \<Rightarrow> f64" where
  "to_f64 x =
     (let m = round53 (nat \<bar>x\<bar>)
      in if 2 ^ 1024 \<le> m then (if 0 < x then FPInf else FNInf) else FInt (sgn x * int m))"

fun fadd :: "f64 \<Rightarrow> f64 \<Rightarrow> f64" where
  "fadd (FInt a) (FInt b) = to_f64 (a + b)"
| "fadd FNaN _ = FNaN"
| "fadd _ FNaN = FNaN"
| "fadd FPInf FNInf = FNaN"
| "fadd FNInf FPInf = FNaN"
| "fadd FPInf _ = FPInf"
| "fadd FNInf _ = FNInf"
| "fadd _ FPInf = FPInf"
| "fadd _ FNInf = FNInf"

fun fneg :: "f64 \<Rightarrow> f64" where
  "fneg (FInt a) = FInt (- a)"
| "fneg FPInf = FNInf"
| "fneg FNInf = FPInf"
| "fneg FNaN = FNaN"

definition fsub :: "f64 \<Rightarrow> f64 \<Rightarrow> f64" where
  "fsub a b = fadd a (fneg b)"

text \<open>The comparison \<open>x < 0\<close>.\<close>

fun fneg_p :: "f64 \<Rightarrow> bool" where
  "fneg_p (FInt a) = (a < 0)"
| "fneg_p FNInf = True"
| "fneg_p _ = False"

text \<open>\<open>strconv.ParseFloat\<close> of a string of decimal digits (an out-of-range value is an infinity).\<close>

definition ParseFloat_digits :: "string \<Rightarrow> f64" where
  "ParseFloat_digits s = to_f64 (int (digits_val s))"

text \<open>\<open>math.Float64bits\<close>: sign, biased exponent, and the significand without its top bit.\<close>

definition significand :: "nat \<Rightarrow> nat" where
  "significand m = (if bitlen m \<le> 53 then m * 2 ^ (53 - bitlen m) else m div 2 ^ (bitlen m - 53))"

fun Float64bits :: "f64 \<Rightarrow> 64 word" where
  "Float64bits (FInt x) =
     (if x = 0 then 0
      else (let m = nat \<bar>x\<bar>
            in word_of_nat ((if x < 0 then 2 ^ 63 else 0) + (bitlen m + 1022) * 2 ^ 52
                            + (significand m - 2 ^ 52))))"
| "Float64bits FPInf = 0x7FF0000000000000"
| "Float64bits FNInf = 0xFFF0000000000000"
| "Float64bits FNaN = 0x7FF8000000000001"

section \<open>Rounding\<close>

lemma bitlen_0 [simp]: "bitlen 0 = 0"
  by (simp add: bitlen.simps)

lemma bitlen_pos: "0 < n \<Longrightarrow> bitlen n = Suc (bitlen (n div 2))"
  by (simp add: bitlen.simps)

lemma bitlen_1 [simp]: "bitlen 1 = 1" "bitlen (Suc 0) = 1"
  by (simp_all add: bitlen_pos)

lemma bitlen_numeral [simp]: "bitlen (numeral k) = Suc (bitlen (numeral k div 2))"
  by (simp add: bitlen_pos)

lemma bitlen_upper: "n < 2 ^ bitlen n"
proof (induction n rule: bitlen.induct)
  case (1 n)
  then show ?case by (cases "n = 0") (auto simp: bitlen_pos)
qed

lemma bitlen_lower: "0 < n \<Longrightarrow> 2 ^ (bitlen n - 1) \<le> n"
proof (induction n rule: bitlen.induct)
  case (1 n)
  show ?case
  proof (cases "n div 2 = 0")
    case True
    with "1.prems" have "n = 1" by auto
    then show ?thesis by (simp add: bitlen_pos)
  next
    case False
    with 1 have ih: "2 ^ (bitlen (n div 2) - 1) \<le> n div 2" by simp
    have "0 < bitlen (n div 2)" using False by (simp add: bitlen_pos)
    then have "(2 :: nat) ^ bitlen (n div 2) = 2 * 2 ^ (bitlen (n div 2) - 1)"
      by (metis Suc_diff_1 power_Suc)
    with ih have "2 ^ bitlen (n div 2) \<le> n" by linarith
    with "1.prems" show ?thesis by (simp add: bitlen_pos)
  qed
qed

lemma bitlen_le: "n < 2 ^ k \<Longrightarrow> bitlen n \<le> k"
proof (rule ccontr)
  assume n: "n < 2 ^ k" and "\<not> bitlen n \<le> k"
  then have k: "k \<le> bitlen n - 1" and "0 < n" by (cases "n = 0"; simp)+
  have "(2 :: nat) ^ k \<le> 2 ^ (bitlen n - 1)" using k by (rule power_increasing) simp
  with bitlen_lower [OF \<open>0 < n\<close>] n show False by linarith
qed

lemma round53_small: "n < 2 ^ 53 \<Longrightarrow> round53 n = n"
  using bitlen_le [of n 53] by (simp add: round53_def)

text \<open>What 53 bits can hold.\<close>

definition holds53 :: "nat \<Rightarrow> bool" where
  "holds53 a \<longleftrightarrow> (\<exists>q k. q < 2 ^ 53 \<and> a = q * 2 ^ k)"

lemma quotient53:
  assumes "53 < bitlen n"
  shows "n div 2 ^ (bitlen n - 53) < 2 ^ 53" and "2 ^ 52 \<le> n div 2 ^ (bitlen n - 53)"
proof -
  let ?k = "bitlen n - 53"
  have "(2 :: nat) ^ (53 + ?k) = 2 ^ 53 * 2 ^ ?k" by (rule power_add)
  then have "n < 2 ^ 53 * 2 ^ ?k" using bitlen_upper [of n] assms by simp
  then show "n div 2 ^ ?k < 2 ^ 53" by (simp add: less_mult_imp_div_less)
  have "0 < n" using assms by (cases n) auto
  then have "2 ^ (bitlen n - 1) \<le> n" by (rule bitlen_lower)
  moreover have "(2 :: nat) ^ (52 + ?k) = 2 ^ 52 * 2 ^ ?k" by (rule power_add)
  moreover have "bitlen n - 1 = 52 + ?k" using assms by simp
  ultimately have "2 ^ 52 * 2 ^ ?k \<le> n" by (metis (no_types))
  then show "2 ^ 52 \<le> n div 2 ^ ?k" by (simp only: less_eq_div_iff_mult_less_eq zero_less_power zero_less_numeral)
qed

lemma holds53_round53: "holds53 (round53 n)"
proof (cases "bitlen n \<le> 53")
  case True
  then have "n < 2 ^ 53"
    using bitlen_upper [of n] power_increasing [OF True, of "2 :: nat"] by linarith
  then have "n < 2 ^ 53 \<and> n = n * 2 ^ 0" by simp
  with True show ?thesis unfolding holds53_def round53_def by (simp only: Let_def if_True) blast
next
  case False
  let ?k = "bitlen n - 53" and ?q = "n div 2 ^ (bitlen n - 53)"
  have q: "?q < 2 ^ 53" using quotient53 False by simp
  have "holds53 (?q * 2 ^ ?k)" using q unfolding holds53_def by blast
  moreover have "holds53 ((?q + 1) * 2 ^ ?k)"
  proof (cases "?q + 1 < 2 ^ 53")
    case True
    then show ?thesis unfolding holds53_def by blast
  next
    case False
    with q have "(?q + 1) = 2 ^ 53" by simp
    then have "(?q + 1) * 2 ^ ?k = 2 ^ 52 * 2 ^ (?k + 1)" by simp
    moreover have "(2 :: nat) ^ 52 < 2 ^ 53" by simp
    ultimately show ?thesis unfolding holds53_def by blast
  qed
  ultimately show ?thesis using False by (auto simp: round53_def Let_def)
qed

text \<open>Rounding never crosses a value that 53 bits can hold, so it keeps such values.\<close>

lemma round53_ge:
  assumes "holds53 a" and "a \<le> n"
  shows "a \<le> round53 n"
proof (cases "bitlen n \<le> 53")
  case True
  then show ?thesis using assms by (simp add: round53_def)
next
  case False
  let ?k = "bitlen n - 53" and ?q = "n div 2 ^ (bitlen n - 53)"
  obtain c j where c: "c < 2 ^ 53" and a: "a = c * 2 ^ j"
    using assms(1) unfolding holds53_def by blast
  have "a \<le> ?q * 2 ^ ?k"
  proof (cases "?k \<le> j")
    case True
    then have "a = c * 2 ^ (j - ?k) * 2 ^ ?k" using a by (simp flip: power_add)
    then have "2 ^ ?k dvd a" by simp
    then show ?thesis
      using div_le_mono [OF assms(2), of "2 ^ ?k"] by (metis dvd_div_mult_self mult_le_mono1)
  next
    case False
    then have "j \<le> ?k - 1" by simp
    then have "(2 :: nat) ^ j \<le> 2 ^ (?k - 1)" by (rule power_increasing) simp
    then have "a \<le> c * 2 ^ (?k - 1)" unfolding a by (rule mult_le_mono2)
    also have "\<dots> < 2 ^ 53 * 2 ^ (?k - 1)" using c by simp
    also have "\<dots> = 2 ^ 52 * 2 ^ ?k" using False by (cases ?k) auto
    also have "\<dots> \<le> ?q * 2 ^ ?k"
      using quotient53(2) \<open>\<not> bitlen n \<le> 53\<close> by (intro mult_le_mono1) simp
    finally show ?thesis by simp
  qed
  also have "\<dots> \<le> round53 n" using False by (auto simp: round53_def Let_def)
  finally show ?thesis .
qed

lemma round53_id: "holds53 a \<Longrightarrow> round53 a = a"
proof (rule antisym)
  assume h: "holds53 a"
  then show "a \<le> round53 a" by (rule round53_ge) simp
  show "round53 a \<le> a"
  proof (cases "bitlen a \<le> 53")
    case True
    then show ?thesis by (simp add: round53_def)
  next
    case False
    let ?k = "bitlen a - 53"
    obtain c j where c: "c < 2 ^ 53" and a: "a = c * 2 ^ j" using h unfolding holds53_def by blast
    have "?k \<le> j"
    proof (rule ccontr)
      assume j: "\<not> ?k \<le> j"
      then have "j \<le> ?k - 1" by simp
      then have "(2 :: nat) ^ j \<le> 2 ^ (?k - 1)" by (rule power_increasing) simp
      then have "a \<le> c * 2 ^ (?k - 1)" unfolding a by (rule mult_le_mono2)
      also have "\<dots> < 2 ^ 53 * 2 ^ (?k - 1)" using c by simp
      also have "\<dots> = 2 ^ (53 + (?k - 1))" by (rule power_add [symmetric])
      also have "53 + (?k - 1) = bitlen a - 1" using j False by simp
      also have "(2 :: nat) ^ (bitlen a - 1) \<le> a"
        using False by (intro bitlen_lower) (cases a, auto)
      finally show False by simp
    qed
    then have "a = c * 2 ^ (j - ?k) * 2 ^ ?k" using a by (simp flip: power_add)
    then have "a mod 2 ^ ?k = 0" by (metis mod_mult_self2_is_0)
    then show ?thesis using False by (simp add: round53_def Let_def)
  qed
qed

lemma to_f64_small: "\<bar>x\<bar> < 2 ^ 53 \<Longrightarrow> to_f64 x = FInt x"
proof -
  assume x: "\<bar>x\<bar> < 2 ^ 53"
  then have m: "nat \<bar>x\<bar> < 2 ^ 53" by simp
  moreover have "(2 :: nat) ^ 53 < 2 ^ 1024" by (rule power_strict_increasing) auto
  ultimately have "\<not> 2 ^ 1024 \<le> nat \<bar>x\<bar>" by linarith
  then show ?thesis
    using round53_small [OF m] by (simp add: to_f64_def sgn_mult_abs del: power_numeral)
qed

section \<open>Binary64\<close>

text \<open>The values that a \<open>float64\<close> of the program can be, and the decoder of the binary64 format:
  sign bit, eleven exponent bits with bias 1023, 52 bits of significand after the leading 1. The
  fraction of a value that is not an integer is cut off; no sample has one.\<close>

fun valid_f64 :: "f64 \<Rightarrow> bool" where
  "valid_f64 (FInt x) = (round53 (nat \<bar>x\<bar>) = nat \<bar>x\<bar> \<and> nat \<bar>x\<bar> < 2 ^ 1024)"
| "valid_f64 _ = True"

definition f64_of_bits :: "64 word \<Rightarrow> f64" where
  "f64_of_bits w =
     (let n = unat w; neg = (2 ^ 63 \<le> n); e = n div 2 ^ 52 mod 2048; f = n mod 2 ^ 52
      in if e = 2047 then (if f \<noteq> 0 then FNaN else if neg then FNInf else FPInf)
         else if e = 0 then FInt 0
         else (let m = (if 1075 \<le> e then (2 ^ 52 + f) * 2 ^ (e - 1075) else (2 ^ 52 + f) div 2 ^ (1075 - e))
               in FInt (if neg then - int m else int m)))"

lemma to_f64_valid: "valid_f64 (to_f64 x)"
proof -
  let ?m = "round53 (nat \<bar>x\<bar>)"
  have "round53 ?m = ?m" by (rule round53_id) (rule holds53_round53)
  moreover have "nat \<bar>sgn x * int ?m\<bar> = (if x = 0 then 0 else ?m)" by (auto simp: abs_mult)
  moreover have "round53 0 = 0" by (simp add: round53_def)
  ultimately show ?thesis by (auto simp: to_f64_def Let_def simp del: power_numeral)
qed

lemma significand_range:
  assumes "0 < m"
  shows "2 ^ 52 \<le> significand m \<and> significand m < 2 ^ 53"
proof (cases "bitlen m \<le> 53")
  case True
  have up: "m < 2 ^ bitlen m" by (rule bitlen_upper)
  have lo: "2 ^ (bitlen m - 1) \<le> m" using assms by (rule bitlen_lower)
  have pos: "0 < bitlen m" using assms by (simp add: bitlen_pos)
  have "(2 :: nat) ^ (bitlen m - 1) * 2 ^ (53 - bitlen m) = 2 ^ (bitlen m - 1 + (53 - bitlen m))"
    by (rule power_add [symmetric])
  also have "bitlen m - 1 + (53 - bitlen m) = 52" using True pos by simp
  finally have l: "2 ^ 52 \<le> m * 2 ^ (53 - bitlen m)" using lo by (metis mult_le_mono1)
  have "(2 :: nat) ^ bitlen m * 2 ^ (53 - bitlen m) = 2 ^ (bitlen m + (53 - bitlen m))"
    by (rule power_add [symmetric])
  also have "bitlen m + (53 - bitlen m) = 53" using True by simp
  finally have "m * 2 ^ (53 - bitlen m) < 2 ^ 53"
    using up by (metis mult_less_mono1 zero_less_numeral zero_less_power)
  with l True show ?thesis by (simp add: significand_def)
next
  case False
  then show ?thesis using quotient53 [of m] by (simp add: significand_def)
qed

lemma holds53_dvd:
  assumes "round53 m = m" and "53 < bitlen m"
  shows "m div 2 ^ (bitlen m - 53) * 2 ^ (bitlen m - 53) = m"
proof -
  let ?k = "bitlen m - 53"
  have "2 ^ ?k dvd round53 m" using assms(2) by (auto simp: round53_def Let_def)
  then show ?thesis using assms(1) by simp
qed

lemma f64_fields:
  fixes s E F :: nat
  assumes "s \<le> 1" and "E < 2048" and "F < 2 ^ 52"
  defines "n \<equiv> s * 2 ^ 63 + E * 2 ^ 52 + F"
  shows "n < 2 ^ 64" and "2 ^ 63 \<le> n \<longleftrightarrow> s = 1" and "n div 2 ^ 52 mod 2048 = E" and "n mod 2 ^ 52 = F"
proof -
  have n: "n = (s * 2048 + E) * 2 ^ 52 + F" by (simp add: n_def)
  show "n mod 2 ^ 52 = F" unfolding n using assms(3) by (simp only: mod_mult_self3 mod_less)
  have "n div 2 ^ 52 = s * 2048 + E"
    unfolding n using assms(3) by (simp only: div_mult_self3 div_less add_0_right
        power_not_zero zero_neq_numeral not_False_eq_True simp_thms)
  then show "n div 2 ^ 52 mod 2048 = E" using assms(2) by simp
  show "n < 2 ^ 64" using assms(1-3) by (simp add: n_def)
  show "2 ^ 63 \<le> n \<longleftrightarrow> s = 1" using assms(1-3) by (cases "s = 0") (simp_all add: n_def)
qed

lemma f64_of_bits_Float64bits:
  assumes "valid_f64 x"
  shows "f64_of_bits (Float64bits x) = x"
proof (cases x)
  case (FInt i)
  show ?thesis
  proof (cases "i = 0")
    case True
    then show ?thesis by (simp add: FInt f64_of_bits_def)
  next
    case False
    let ?m = "nat \<bar>i\<bar>" and ?s = "if i < 0 then 1 else 0 :: nat"
    let ?n = "?s * 2 ^ 63 + (bitlen ?m + 1022) * 2 ^ 52 + (significand ?m - 2 ^ 52)"
    have m: "0 < ?m" "round53 ?m = ?m" "?m < 2 ^ 1024"
      using False assms FInt by (simp_all del: power_numeral)
    have l: "0 < bitlen ?m" "bitlen ?m \<le> 1024"
      using m(1) bitlen_le [OF m(3)] by (simp_all add: bitlen_pos)
    have sig: "2 ^ 52 \<le> significand ?m" "significand ?m < 2 ^ 53"
      using significand_range [OF m(1)] by auto
    have "?s \<le> 1" "bitlen ?m + 1022 < 2048" using l by auto
    moreover have "significand ?m - 2 ^ 52 < 2 ^ 52"
      unfolding less_diff_conv2 [OF sig(1)] using sig(2) by simp
    ultimately have "?s \<le> 1" "bitlen ?m + 1022 < 2048" "significand ?m - 2 ^ 52 < 2 ^ 52" .
    note n = f64_fields [OF this]
    have bits: "Float64bits x = word_of_nat ?n" using False FInt by (simp add: Let_def)
    have u: "unat (Float64bits x) = ?n"
      unfolding bits unsigned_of_nat using n(1) by (simp add: take_bit_nat_eq_self del: power_numeral)
    have decoded: "(if 1075 \<le> bitlen ?m + 1022 then significand ?m * 2 ^ (bitlen ?m + 1022 - 1075)
        else significand ?m div 2 ^ (1075 - (bitlen ?m + 1022))) = ?m"
    proof (cases "bitlen ?m \<le> 53")
      case True
      then show ?thesis by (cases "bitlen ?m = 53") (auto simp: significand_def)
    next
      case False
      then show ?thesis using holds53_dvd [OF m(2)] by (simp add: significand_def)
    qed
    have sum: "2 ^ 52 + (significand ?m - 2 ^ 52) = significand ?m" using sig(1) by simp
    have e: "bitlen ?m + 1022 \<noteq> 2047" "bitlen ?m + 1022 \<noteq> 0" using l by simp_all
    have "f64_of_bits (Float64bits x) = FInt (if ?s = 1 then - int ?m else int ?m)"
      unfolding f64_of_bits_def u Let_def n(2,3,4) sum decoded using e by (simp only: if_False)
    then show ?thesis using FInt by auto
  qed
qed (simp_all add: f64_of_bits_def)

section \<open>Decimal text\<close>

text \<open>
  \<open>strconv.FormatFloat(x, 'g', -1, 64)\<close>: the fewest decimal digits that read back as the same
  float, the nearest such number if there are two, a tie to the even digit. \<open>shortest\<close> looks for
  a multiple of a power of ten, from the largest power down. The text is in scientific notation
  when the decimal exponent is 6 or more, plain digits below.
\<close>

definition near10 :: "nat \<Rightarrow> nat \<Rightarrow> nat option" where
  "near10 n k =
     (let p = 10 ^ k; q = n div p; r = n mod p; lo = (round53 (q * p) = n); hi = (round53 ((q + 1) * p) = n)
      in if lo \<and> hi then Some (if 2 * r < p \<or> (2 * r = p \<and> even q) then q else q + 1)
         else if lo then Some q else if hi then Some (q + 1) else None)"

fun shortest :: "nat \<Rightarrow> nat \<Rightarrow> nat \<times> nat" where
  "shortest n 0 = (n, 0)"
| "shortest n (Suc k) = (case near10 n (Suc k) of Some d \<Rightarrow> (d, Suc k) | None \<Rightarrow> shortest n k)"

definition FormatG_nat :: "nat \<Rightarrow> string" where
  "FormatG_nat n =
     (let (d, k) = shortest n (bitlen n); ds = FormatUint d; x = length ds + k - 1
      in if x < 6 then ds @ replicate k CHR ''0''
         else hd ds # (if tl ds = [] then [] else CHR ''.'' # tl ds)
              @ ''e+'' @ (if x < 10 then ''0'' else []) @ FormatUint x)"

fun FormatG :: "f64 \<Rightarrow> string" where
  "FormatG (FInt x) = (if x < 0 then CHR ''-'' # FormatG_nat (nat (- x)) else FormatG_nat (nat x))"
| "FormatG FPInf = ''+Inf''"
| "FormatG FNInf = ''-Inf''"
| "FormatG FNaN = ''NaN''"

text \<open>The reader of such text.\<close>

definition ParseG_nat :: "string \<Rightarrow> nat" where
  "ParseG_nat s =
     (let (m, e, _) = Cut CHR ''e'' s; (a, b, _) = Cut CHR ''.'' m
      in digits_val (a @ b) * 10 ^ (digits_val (tl e) - length b))"

definition ParseG :: "string \<Rightarrow> f64" where
  "ParseG s =
     (if s = ''+Inf'' then FPInf else if s = ''-Inf'' then FNInf else if s = ''NaN'' then FNaN
      else if hd s = CHR ''-'' then to_f64 (- int (ParseG_nat (tl s)))
      else to_f64 (int (ParseG_nat s)))"

lemma near10_rounds: "near10 n k = Some d \<Longrightarrow> round53 (d * 10 ^ k) = n"
  by (auto simp: near10_def Let_def split: if_splits)

lemma shortest_rounds: "round53 n = n \<Longrightarrow> shortest n k = (d, j) \<Longrightarrow> round53 (d * 10 ^ j) = n"
  by (induction k) (auto simp del: power_Suc dest: near10_rounds split: option.splits)

lemma digits_val_zeros: "digits_val (s @ replicate k CHR ''0'') = digits_val s * 10 ^ k"
proof (induction k)
  case (Suc k)
  have "s @ replicate (Suc k) CHR ''0'' = (s @ replicate k CHR ''0'') @ [CHR ''0'']"
    by (simp add: replicate_append_same)
  then show ?case using Suc by (simp only: digits_val_snoc) (simp add: digit_val_def)
qed simp

lemma digits_val_zero: "digits_val (CHR ''0'' # s) = digits_val s"
  by (simp add: digits_val_def digit_val_def)

lemma digits_no: "list_all is_digit s \<Longrightarrow> CHR ''e'' \<notin> set s \<and> CHR ''.'' \<notin> set s \<and> CHR ''-'' \<notin> set s"
  by (auto simp: list_all_iff is_digit_def)

lemma FormatUint_all: "list_all is_digit (FormatUint n)"
  by (simp add: list_all_iff FormatUint_digits)

lemma ParseG_FormatG_nat:
  assumes "shortest n (bitlen n) = (d, k)"
  shows "ParseG_nat (FormatG_nat n) = d * 10 ^ k"
proof -
  let ?ds = "FormatUint d" and ?x = "length (FormatUint d) + k - 1"
  have ds: "CHR ''e'' \<notin> set ?ds" "CHR ''.'' \<notin> set ?ds" using digits_no [OF FormatUint_all] by auto
  obtain c cs where eq: "?ds = c # cs" by (cases ?ds) auto
  then have x: "?x = length cs + k" by simp
  show ?thesis
  proof (cases "?x < 6")
    case True
    have "CHR ''e'' \<notin> set (?ds @ replicate k CHR ''0'')" "CHR ''.'' \<notin> set (?ds @ replicate k CHR ''0'')"
      using ds by auto
    then show ?thesis using True assms
      by (simp add: FormatG_nat_def ParseG_nat_def Cut_not_found digits_val_zeros Let_def)
         (simp add: digits_val_def)
  next
    case False
    let ?m = "c # (if cs = [] then [] else CHR ''.'' # cs)"
    let ?e = "(if ?x < 10 then ''0'' else []) @ FormatUint ?x"
    have "CHR ''e'' \<notin> set ?m" using ds eq by auto
    then have cut: "Cut CHR ''e'' (?m @ CHR ''e'' # CHR ''+'' # ?e) = (?m, CHR ''+'' # ?e, True)"
      by (rule Cut_found)
    have dot: "Cut CHR ''.'' ?m = (if cs = [] then ([c], [], False) else ([c], cs, True))"
      using ds eq by auto
    have shape: "FormatG_nat n = ?m @ CHR ''e'' # CHR ''+'' # ?e"
      using False assms eq by (simp add: FormatG_nat_def Let_def)
    have "digits_val ?e = ?x" by (simp add: digits_val_zero)
    moreover have "digits_val (c # cs) = d" using eq digits_val_FormatUint [of d] by simp
    ultimately show ?thesis
      unfolding shape ParseG_nat_def cut using dot x by (auto simp: Let_def)
  qed
qed

definition float_char :: "char \<Rightarrow> bool" where
  "float_char c \<longleftrightarrow> is_digit c \<or> c \<in> {CHR ''.'', CHR ''e'', CHR ''+''}"

lemma FormatG_nat_chars: "list_all float_char (FormatG_nat n)"
proof -
  obtain d k where s: "shortest n (bitlen n) = (d, k)" by fastforce
  have ds: "list_all float_char (FormatUint m)" for m
    using FormatUint_digits by (auto simp: list_all_iff float_char_def)
  obtain c cs where eq: "FormatUint d = c # cs" by (cases "FormatUint d") auto
  have "float_char CHR ''0''" "float_char CHR ''.''" "float_char CHR ''e''" "float_char CHR ''+''"
    by (simp_all add: float_char_def is_digit_def)
  then show ?thesis using s eq ds [of d] ds [of "length cs + k"]
    by (auto simp: FormatG_nat_def Let_def list_all_iff)
qed

lemma FormatG_nat_shape: "FormatG_nat n \<noteq> []" "hd (FormatG_nat n) \<noteq> CHR ''-''" "hd (FormatG_nat n) \<noteq> CHR ''+''"
  "hd (FormatG_nat n) \<noteq> CHR ''N''"
proof -
  obtain d k where s: "shortest n (bitlen n) = (d, k)" by fastforce
  obtain c cs where eq: "FormatUint d = c # cs" by (cases "FormatUint d") auto
  then have "is_digit c" using FormatUint_digits [of c d] by simp
  then have c: "c \<noteq> CHR ''-''" "c \<noteq> CHR ''+''" "c \<noteq> CHR ''N''" by (auto simp: is_digit_def)
  have "FormatG_nat n \<noteq> [] \<and> hd (FormatG_nat n) = c" using s eq by (auto simp: FormatG_nat_def Let_def)
  then show "FormatG_nat n \<noteq> []" "hd (FormatG_nat n) \<noteq> CHR ''-''" "hd (FormatG_nat n) \<noteq> CHR ''+''"
    "hd (FormatG_nat n) \<noteq> CHR ''N''" using c by auto
qed

lemma to_f64_round53:
  assumes "round53 m = n" and "n < 2 ^ 1024"
  shows "to_f64 (int m) = FInt (int n)" and "to_f64 (- int m) = FInt (- int n)"
proof -
  have "round53 0 = 0" by (simp add: round53_def)
  then have "n = 0 \<or> 0 < m" using assms(1) by (cases m) auto
  then show "to_f64 (int m) = FInt (int n)" "to_f64 (- int m) = FInt (- int n)"
    using assms by (cases "m = 0", auto simp: to_f64_def Let_def simp del: power_numeral)
qed

lemma ParseG_FormatG:
  assumes "valid_f64 x"
  shows "ParseG (FormatG x) = x"
proof (cases x)
  case (FInt i)
  let ?n = "nat \<bar>i\<bar>"
  have v: "round53 ?n = ?n" "?n < 2 ^ 1024" using assms FInt by (simp_all del: power_numeral)
  obtain d k where s: "shortest ?n (bitlen ?n) = (d, k)" by fastforce
  have g: "ParseG_nat (FormatG_nat ?n) = d * 10 ^ k" using s by (rule ParseG_FormatG_nat)
  have r: "round53 (d * 10 ^ k) = ?n" using v(1) s by (rule shortest_rounds)
  show ?thesis
  proof (cases "i < 0")
    case True
    then have "FormatG x = CHR ''-'' # FormatG_nat ?n" using FInt by simp
    moreover have "FormatG_nat ?n \<noteq> ''Inf''"
      using FormatG_nat_chars [of ?n] by (auto simp: float_char_def is_digit_def)
    ultimately have "ParseG (FormatG x) = to_f64 (- int (d * 10 ^ k))" by (simp add: ParseG_def g)
    also have "\<dots> = FInt (- int ?n)" by (rule to_f64_round53(2) [OF r v(2)])
    finally show ?thesis using True FInt by simp
  next
    case False
    then have t: "FormatG x = FormatG_nat ?n" using FInt by simp
    have "FormatG_nat ?n \<noteq> ''+Inf'' \<and> FormatG_nat ?n \<noteq> ''-Inf'' \<and> FormatG_nat ?n \<noteq> ''NaN''"
      using FormatG_nat_shape [of ?n] by auto
    then have "ParseG (FormatG x) = to_f64 (int (d * 10 ^ k))"
      using FormatG_nat_shape [of ?n] by (simp add: ParseG_def g t)
    also have "\<dots> = FInt (int ?n)" by (rule to_f64_round53(1) [OF r v(2)])
    finally show ?thesis using False FInt by simp
  qed
qed (simp_all add: ParseG_def)

lemma FormatG_line: "CHR 0x0A \<notin> set (FormatG x)" "FormatG x \<noteq> []"
proof -
  have "CHR 0x0A \<notin> set (FormatG_nat n)" for n
    using FormatG_nat_chars [of n] by (auto simp: list_all_iff float_char_def is_digit_def)
  then show "CHR 0x0A \<notin> set (FormatG x)" by (cases x) auto
  show "FormatG x \<noteq> []" using FormatG_nat_shape(1) by (cases x) auto
qed

end
