(* ===== verification/TmBytes.thy ===== *)
theory TmBytes
  imports GoBase
begin

text \<open>
  The byte-level readers and writers of \<open>internal/tmstat/tmstat.go\<close>: the little-endian
  integers \<open>leUint\<close>, \<open>leInt\<close> and \<open>setUint\<close>, the NUL-terminated string \<open>cstr\<close>, the colon-hex
  \<open>addrHex\<close> and \<open>allZero\<close>. The locale \<open>byte_field\<close> is the interface the row aggregation
  uses of them: what a read returns after a write, and which writes it does not see.
\<close>

section \<open>Little-endian integers\<close>

text \<open>The loop \<open>v |= uint64(b[off+i]) << (8 * i)\<close>; a shift by 64 or more gives 0, as in Go, and an
  index out of range panics. The guard of \<open>leUint\<close> keeps the loop in range (\<open>leUint_returns\<close>), and
  \<open>leUint\<close> below is the value that the code returns.\<close>

fun leUint_loop :: "bytes \<Rightarrow> nat \<Rightarrow> nat list \<Rightarrow> 64 word \<Rightarrow> 64 word option" where
  "leUint_loop b off [] v = Some v"
| "leUint_loop b off (i # is) v =
     (if off + i < length b then leUint_loop b off is (v OR push_bit (8 * i) (ucast (b ! (off + i)))) else None)"

definition leUint_run :: "bytes \<Rightarrow> nat \<Rightarrow> nat \<Rightarrow> 64 word option" where
  "leUint_run b off sz = (if off + sz > length b then Some 0 else leUint_loop b off [0..<sz] 0)"

definition leUint :: "bytes \<Rightarrow> nat \<Rightarrow> nat \<Rightarrow> 64 word" where
  "leUint b off sz = (case leUint_run b off sz of Some v \<Rightarrow> v | None \<Rightarrow> 0)"

text \<open>\<open>leInt\<close> sign-extends by shifting up and arithmetically down; the result is read as a
  signed value.\<close>

definition leInt :: "bytes \<Rightarrow> nat \<Rightarrow> nat \<Rightarrow> int" where
  "leInt b off sz =
     (let u = leUint b off sz
      in if sz < 8 \<and> sz > 0
         then (let shift = 64 - 8 * sz in sint (signed_drop_bit shift (push_bit shift u)))
         else sint u)"

text \<open>\<open>setUint\<close> stores \<open>byte(v >> (8 * i))\<close> at \<open>off + i\<close>, and nothing when the field does
  not fit; here too an index out of range panics, the guard excludes it, and \<open>setUint\<close> is the row
  that the code leaves.\<close>

fun setUint_loop :: "bytes \<Rightarrow> nat \<Rightarrow> nat list \<Rightarrow> 64 word \<Rightarrow> bytes option" where
  "setUint_loop b off [] v = Some b"
| "setUint_loop b off (i # is) v =
     (if off + i < length b then setUint_loop (b[off + i := ucast (drop_bit (8 * i) v)]) off is v else None)"

definition setUint_run :: "bytes \<Rightarrow> nat \<Rightarrow> nat \<Rightarrow> 64 word \<Rightarrow> bytes option" where
  "setUint_run b off sz v = (if off + sz > length b then Some b else setUint_loop b off [0..<sz] v)"

definition setUint :: "bytes \<Rightarrow> nat \<Rightarrow> nat \<Rightarrow> 64 word \<Rightarrow> bytes" where
  "setUint b off sz v = (case setUint_run b off sz v of Some b' \<Rightarrow> b' | None \<Rightarrow> b)"

section \<open>Strings and addresses\<close>

fun indexByte :: "bytes \<Rightarrow> byte \<Rightarrow> nat option" where
  "indexByte [] c = None"
| "indexByte (x # xs) c = (if x = c then Some 0 else map_option Suc (indexByte xs c))"

text \<open>\<open>cstr\<close> clamps the size to the row's end and then slices: an offset beyond the end makes
  the size negative, and the slice expression panics.\<close>

definition cstr :: "bytes \<Rightarrow> nat \<Rightarrow> nat \<Rightarrow> string option" where
  "cstr b off sz =
     do {
       s \<leftarrow> slice_expr b off (if off + sz > length b then length b else off + sz);
       Some (string_of_bytes (case indexByte s 0 of Some i \<Rightarrow> take i s | None \<Rightarrow> s))
     }"

definition hexUpper :: "nat \<Rightarrow> char" where
  "hexUpper d = ''0123456789ABCDEF'' ! d"

fun addrHex_loop :: "bytes \<Rightarrow> string" where
  "addrHex_loop [] = []"
| "addrHex_loop (x # xs) =
     CHR '':'' # hexUpper (unat (drop_bit 4 x)) # hexUpper (unat (x AND 0xf)) # addrHex_loop xs"

text \<open>The colon is written before every byte but the first.\<close>

definition addrHex :: "bytes \<Rightarrow> string" where
  "addrHex b = (if b = [] then [] else tl (addrHex_loop b))"

fun allZero :: "bytes \<Rightarrow> bool" where
  "allZero [] = True"
| "allZero (c # cs) = (if c \<noteq> 0 then False else allZero cs)"

section \<open>What the readers and writers compute\<close>

text \<open>The loops without their range checks, and the readers in terms of them.\<close>

fun leUint_fold :: "bytes \<Rightarrow> nat \<Rightarrow> nat list \<Rightarrow> 64 word \<Rightarrow> 64 word" where
  "leUint_fold b off [] v = v"
| "leUint_fold b off (i # is) v = leUint_fold b off is (v OR push_bit (8 * i) (ucast (b ! (off + i))))"

fun setUint_fold :: "bytes \<Rightarrow> nat \<Rightarrow> nat list \<Rightarrow> 64 word \<Rightarrow> bytes" where
  "setUint_fold b off [] v = b"
| "setUint_fold b off (i # is) v = setUint_fold (b[off + i := ucast (drop_bit (8 * i) v)]) off is v"

lemma leUint_loop_fold:
  "list_all (\<lambda>i. off + i < length b) is \<Longrightarrow> leUint_loop b off is v = Some (leUint_fold b off is v)"
  by (induction b off "is" v rule: leUint_loop.induct) auto

lemma setUint_loop_fold:
  "list_all (\<lambda>i. off + i < length b) is \<Longrightarrow> setUint_loop b off is v = Some (setUint_fold b off is v)"
  by (induction b off "is" v rule: setUint_loop.induct) auto

lemma leUint_eq: "leUint b off sz = (if off + sz > length b then 0 else leUint_fold b off [0..<sz] 0)"
  by (simp add: leUint_def leUint_run_def leUint_loop_fold list_all_iff)

lemma setUint_eq: "setUint b off sz v = (if off + sz > length b then b else setUint_fold b off [0..<sz] v)"
  by (simp add: setUint_def setUint_run_def setUint_loop_fold list_all_iff)

text \<open>The code returns, with these values.\<close>

lemma leUint_returns [simp]: "leUint_run b off sz = Some (leUint b off sz)"
  by (simp add: leUint_def leUint_run_def leUint_loop_fold list_all_iff)

lemma setUint_returns [simp]: "setUint_run b off sz v = Some (setUint b off sz v)"
  by (simp add: setUint_def setUint_run_def setUint_loop_fold list_all_iff)

lemma length_setUint_fold [simp]: "length (setUint_fold b off is v) = length b"
  by (induction b off "is" v rule: setUint_fold.induct) auto

lemma length_setUint [simp]: "length (setUint b off sz v) = length b"
  by (simp add: setUint_eq)

lemma bit_byte_high: "8 \<le> n \<Longrightarrow> \<not> bit (b :: byte) n"
  using bit_imp_le_length [of b n] by auto

lemma bit_leUint_fold:
  "bit (leUint_fold b off is v) n \<longleftrightarrow>
     bit v n \<or> (n < 64 \<and> n div 8 \<in> set is \<and> bit (b ! (off + n div 8)) (n mod 8))"
proof (induction b off "is" v rule: leUint_fold.induct)
  case (1 b off v)
  then show ?case by simp
next
  case (2 b off i "is" v)
  have "bit (push_bit (8 * i) (ucast (b ! (off + i)) :: 64 word)) n \<longleftrightarrow>
      n < 64 \<and> n div 8 = i \<and> bit (b ! (off + i)) (n mod 8)"
  proof (cases "n div 8 = i")
    case True
    then have "n - 8 * i = n mod 8" and "8 * i \<le> n" by (auto simp: minus_mult_div_eq_mod)
    with True show ?thesis by (auto simp: bit_push_bit_iff bit_ucast_iff)
  next
    case False
    then consider "n < 8 * i" | "8 \<le> n - 8 * i" by linarith
    then show ?thesis
      using False by cases (auto simp: bit_push_bit_iff bit_ucast_iff bit_byte_high)
  qed
  then show ?case by (auto simp: 2 bit_or_iff)
qed

text \<open>Bit \<open>n\<close> of the value is bit \<open>n mod 8\<close> of byte \<open>n div 8\<close> of the field.\<close>

lemma bit_leUint:
  "off + sz \<le> length b \<Longrightarrow>
   bit (leUint b off sz) n \<longleftrightarrow> n < 64 \<and> n div 8 < sz \<and> bit (b ! (off + n div 8)) (n mod 8)"
  by (simp add: leUint_eq bit_leUint_fold)

lemma setUint_fold_nth:
  "distinct is \<Longrightarrow> \<forall>i \<in> set is. off + i < length b \<Longrightarrow>
   setUint_fold b off is v ! k =
     (if off \<le> k \<and> k - off \<in> set is then ucast (drop_bit (8 * (k - off)) v) else b ! k)"
proof (induction b off "is" v rule: setUint_fold.induct)
  case (2 b off i "is" v)
  then show ?case by (auto simp: nth_list_update)
qed simp

lemma setUint_nth:
  "off + sz \<le> length b \<Longrightarrow>
   setUint b off sz v ! k =
     (if off \<le> k \<and> k < off + sz then ucast (drop_bit (8 * (k - off)) v) else b ! k)"
  by (auto simp: setUint_eq setUint_fold_nth)

lemma leUint_setUint_same:
  assumes "off + sz \<le> length b"
  shows "leUint (setUint b off sz v) off sz = take_bit (8 * sz) v"
proof (rule bit_word_eqI)
  fix n assume "n < LENGTH(64)"
  then have n: "n < 64" by simp
  have "n div 8 < sz \<longleftrightarrow> n < 8 * sz" by auto
  moreover have "8 * (n div 8) + n mod 8 = n" by simp
  ultimately show "bit (leUint (setUint b off sz v) off sz) n = bit (take_bit (8 * sz) v) n"
    using assms n
    by (auto simp: bit_leUint setUint_nth bit_take_bit_iff bit_ucast_iff bit_drop_bit_eq)
qed

text \<open>Two fields that share no byte.\<close>

definition disjoint_fields :: "nat \<Rightarrow> nat \<Rightarrow> nat \<Rightarrow> nat \<Rightarrow> bool" where
  "disjoint_fields o1 s1 o2 s2 \<longleftrightarrow> o1 + s1 \<le> o2 \<or> o2 + s2 \<le> o1"

lemma leUint_setUint_other:
  assumes "disjoint_fields o1 s1 o2 s2"
  shows "leUint (setUint b o2 s2 v) o1 s1 = leUint b o1 s1"
proof (cases "o1 + s1 \<le> length b \<and> o2 + s2 \<le> length b")
  case True
  show ?thesis
  proof (rule bit_word_eqI)
    fix n
    have "n div 8 < s1 \<Longrightarrow> setUint b o2 s2 v ! (o1 + n div 8) = b ! (o1 + n div 8)"
      using True assms by (auto simp: setUint_nth disjoint_fields_def)
    then show "bit (leUint (setUint b o2 s2 v) o1 s1) n = bit (leUint b o1 s1) n"
      using True by (auto simp: bit_leUint)
  qed
next
  case False
  then show ?thesis by (auto simp: leUint_eq setUint_eq)
qed

lemma take_drop_setUint_other:
  assumes "disjoint_fields o1 s1 o2 s2"
  shows "take s1 (drop o1 (setUint b o2 s2 v)) = take s1 (drop o1 b)"
proof (cases "o2 + s2 \<le> length b")
  case True
  show ?thesis
    by (rule nth_equalityI) (use True assms in \<open>auto simp: setUint_nth disjoint_fields_def\<close>)
next
  case False
  then show ?thesis by (simp add: setUint_eq)
qed

lemma leUint_cong:
  assumes "length b = length b'" and "take sz (drop off b) = take sz (drop off b')"
  shows "leUint b off sz = leUint b' off sz"
proof (cases "off + sz \<le> length b")
  case True
  have "b ! (off + i) = b' ! (off + i)" if "i < sz" for i
  proof -
    have "take sz (drop off b) ! i = take sz (drop off b') ! i" by (simp only: assms(2))
    with that True assms(1) show ?thesis by simp
  qed
  with True assms(1) show ?thesis by (intro bit_word_eqI) (auto simp: bit_leUint)
next
  case False
  with assms(1) show ?thesis by (simp add: leUint_eq)
qed

lemma leUint_fits: "take_bit (8 * sz) (leUint b off sz) = leUint b off sz"
proof (cases "off + sz \<le> length b")
  case True
  show ?thesis
  proof (rule bit_word_eqI)
    fix n
    have "n div 8 < sz \<longleftrightarrow> n < 8 * sz" by auto
    with True show "bit (take_bit (8 * sz) (leUint b off sz)) n = bit (leUint b off sz) n"
      by (auto simp: bit_take_bit_iff bit_leUint)
  qed
next
  case False
  then show ?thesis by (simp add: leUint_eq)
qed

text \<open>The base-256 value of a field of at most eight bytes.\<close>

lemma leUint_snoc:
  assumes "off + Suc k \<le> length b"
  shows "leUint b off (Suc k) = leUint b off k OR push_bit (8 * k) (ucast (b ! (off + k)))"
proof (rule bit_word_eqI)
  fix n assume "n < LENGTH(64)"
  then have n: "n < 64" by simp
  consider "n div 8 < k" | "n div 8 = k" | "k < n div 8" by linarith
  then show "bit (leUint b off (Suc k)) n =
      bit (leUint b off k OR push_bit (8 * k) (ucast (b ! (off + k)))) n"
  proof cases
    case 1
    then have "n < 8 * k" by linarith
    with 1 assms show ?thesis by (auto simp: bit_leUint bit_or_iff bit_push_bit_iff)
  next
    case 2
    then have "n - 8 * k = n mod 8" and "8 * k \<le> n" by (auto simp: minus_mult_div_eq_mod)
    with 2 n assms show ?thesis
      by (auto simp: bit_leUint bit_or_iff bit_push_bit_iff bit_ucast_iff)
  next
    case 3
    then have "8 \<le> n - 8 * k" by linarith
    with 3 assms show ?thesis
      by (auto simp: bit_leUint bit_or_iff bit_push_bit_iff bit_ucast_iff bit_byte_high)
  qed
qed

lemma leUint_lt: "k \<le> 8 \<Longrightarrow> unat (leUint b off k) < 2 ^ (8 * k)"
proof -
  have "unat (take_bit (8 * k) (leUint b off k)) = take_bit (8 * k) (unat (leUint b off k))"
    by (rule unsigned_take_bit_eq)
  then show ?thesis
    by (metis leUint_fits take_bit_nat_less_exp)
qed

lemma unat_leUint:
  assumes "off + sz \<le> length b" and "sz \<le> 8"
  shows "unat (leUint b off sz) = (\<Sum>i < sz. unat (b ! (off + i)) * 256 ^ i)"
  using assms
proof (induction sz)
  case 0
  then show ?case by (simp add: leUint_eq)
next
  case (Suc k)
  let ?x = "leUint b off k" and ?y = "push_bit (8 * k) (ucast (b ! (off + k))) :: 64 word"
  have y: "unat ?y = unat (b ! (off + k)) * 2 ^ (8 * k)"
  proof -
    have "unat (b ! (off + k)) * 2 ^ (8 * k) < 2 ^ 8 * 2 ^ (8 * k)"
      using unat_byte_bound [of "b ! (off + k)"] by simp
    also have "\<dots> = 2 ^ (8 * Suc k)" by (simp add: power_add)
    also have "\<dots> \<le> (2 :: nat) ^ 64" using Suc.prems(2) by (intro power_increasing) auto
    finally have small: "unat (b ! (off + k)) * 2 ^ (8 * k) < 2 ^ 64" .
    have "unat (ucast (b ! (off + k)) :: 64 word) = unat (b ! (off + k))"
      using unat_byte_bound [of "b ! (off + k)"]
      by (simp add: unsigned_ucast_eq take_bit_nat_eq_self)
    with small show ?thesis
      by (simp only: unsigned_push_bit_eq) (simp add: push_bit_eq_mult take_bit_nat_eq_self)
  qed
  have disj: "?x AND ?y = 0"
  proof (rule bit_word_eqI)
    fix n
    have "bit ?x n \<Longrightarrow> n < 8 * k" using Suc.prems(1) by (auto simp: bit_leUint)
    then show "bit (?x AND ?y) n = bit 0 n" by (auto simp: bit_and_iff bit_push_bit_iff)
  qed
  have "unat (leUint b off (Suc k)) = unat ?x + unat ?y"
  proof -
    have "?x OR ?y = ?x + ?y" using disj by (simp add: disjunctive_add_eq_or)
    moreover have "unat ?x + unat ?y < 2 ^ 64"
    proof -
      have "unat ?x < 2 ^ (8 * k)" using Suc.prems(2) by (intro leUint_lt) simp
      moreover have "unat ?y \<le> 255 * 2 ^ (8 * k)"
        using y unat_byte_bound [of "b ! (off + k)"] by (simp add: less_Suc_eq_le)
      ultimately have "unat ?x + unat ?y < 256 * 2 ^ (8 * k)" by simp
      also have "\<dots> = 2 ^ (8 * Suc k)" by (simp add: power_add)
      also have "\<dots> \<le> (2 :: nat) ^ 64" using Suc.prems(2) by (intro power_increasing) auto
      finally show ?thesis .
    qed
    ultimately show ?thesis
      using Suc.prems(1) by (simp add: leUint_snoc unat_word_ariths)
  qed
  moreover have "(2 :: nat) ^ (8 * k) = 256 ^ k" by (simp add: power_mult)
  ultimately show ?case using Suc y by simp
qed

text \<open>Sign extension reads the field as two's complement.\<close>

lemma leInt_signed:
  assumes "0 < sz" and "sz \<le> 8"
  shows "leInt b off sz = signed_take_bit (8 * sz - 1) (uint (leUint b off sz))"
proof (cases "sz = 8")
  case True
  then show ?thesis by (simp add: leInt_def sint_uint)
next
  case False
  let ?u = "leUint b off sz" and ?s = "64 - 8 * sz"
  have len: "63 - ?s = 8 * sz - 1" using assms False by simp
  have "sint (signed_drop_bit ?s (push_bit ?s ?u)) = drop_bit ?s (sint (push_bit ?s ?u))"
    by (rule sint_signed_drop_bit_eq)
  also have "sint (push_bit ?s ?u) = signed_take_bit 63 (push_bit ?s (uint ?u))"
    by (simp add: sint_uint unsigned_push_bit_eq signed_take_bit_take_bit)
  also have "drop_bit ?s \<dots> = signed_take_bit (8 * sz - 1) (uint ?u)"
    by (rule bit_eqI) (use assms False in \<open>auto simp: bit_drop_bit_eq bit_signed_take_bit_iff
        bit_push_bit_iff min_def\<close>)
  finally show ?thesis using assms False by (simp add: leInt_def Let_def)
qed

section \<open>The interface of the readers and writers\<close>

text \<open>
  Reading a field returns what was last written to it, cut to the field's width, and a write is
  not seen through a disjoint field. \<open>accumulate\<close> is what the merge of two rows does to all
  the counter columns: each field gets the sum, modulo its width, and the rest of the row is
  left alone.
\<close>

locale byte_field =
  fixes rd :: "bytes \<Rightarrow> nat \<Rightarrow> nat \<Rightarrow> 64 word"
    and wr :: "bytes \<Rightarrow> nat \<Rightarrow> nat \<Rightarrow> 64 word \<Rightarrow> bytes"
  assumes rd_wr_same: "off + sz \<le> length b \<Longrightarrow> rd (wr b off sz v) off sz = take_bit (8 * sz) v"
    and rd_wr_other: "disjoint_fields o1 s1 o2 s2 \<Longrightarrow> rd (wr b o2 s2 v) o1 s1 = rd b o1 s1"
    and length_wr: "length (wr b off sz v) = length b"
    and wr_frame: "disjoint_fields o1 s1 o2 s2 \<Longrightarrow>
      take s1 (drop o1 (wr b o2 s2 v)) = take s1 (drop o1 b)"
begin

lemma length_accumulate [simp]:
  "length (foldl (\<lambda>b c. wr b (off c) (sz c) (rd b (off c) (sz c) + inc c)) b cs) = length b"
  by (induction cs arbitrary: b) (auto simp: length_wr)

lemma accumulate_frame:
  "\<forall>c \<in> set cs. disjoint_fields o1 s1 (off c) (sz c) \<Longrightarrow>
   take s1 (drop o1 (foldl (\<lambda>b c. wr b (off c) (sz c) (rd b (off c) (sz c) + inc c)) b cs))
     = take s1 (drop o1 b)"
  by (induction cs arbitrary: b) (auto simp: wr_frame)

lemma accumulate_other:
  "\<forall>c \<in> set cs. disjoint_fields o1 s1 (off c) (sz c) \<Longrightarrow>
   rd (foldl (\<lambda>b c. wr b (off c) (sz c) (rd b (off c) (sz c) + inc c)) b cs) o1 s1 = rd b o1 s1"
  by (induction cs arbitrary: b) (auto simp: rd_wr_other)

lemma accumulate:
  assumes "pairwise (\<lambda>c d. disjoint_fields (off c) (sz c) (off d) (sz d)) (set cs)"
    and "distinct cs" and "x \<in> set cs" and "off x + sz x \<le> length b"
  shows "rd (foldl (\<lambda>b c. wr b (off c) (sz c) (rd b (off c) (sz c) + inc c)) b cs) (off x) (sz x)
    = take_bit (8 * sz x) (rd b (off x) (sz x) + inc x)"
  using assms
proof (induction cs arbitrary: b)
  case Nil
  then show ?case by simp
next
  case (Cons c cs)
  let ?b = "wr b (off c) (sz c) (rd b (off c) (sz c) + inc c)"
  have pw: "pairwise (\<lambda>c d. disjoint_fields (off c) (sz c) (off d) (sz d)) (set cs)"
    using Cons.prems(1) by (rule pairwise_subset) auto
  show ?case
  proof (cases "x = c")
    case True
    then have "\<forall>d \<in> set cs. disjoint_fields (off x) (sz x) (off d) (sz d)"
      using Cons.prems(1,2) by (auto simp: pairwise_def)
    with True Cons.prems(4) show ?thesis by (simp add: accumulate_other rd_wr_same)
  next
    case False
    then have "disjoint_fields (off x) (sz x) (off c) (sz c)"
      using Cons.prems(1,3) by (auto simp: pairwise_def)
    moreover have "off x + sz x \<le> length ?b" using Cons.prems(4) by (simp add: length_wr)
    ultimately show ?thesis
      using Cons.IH [OF pw, of ?b] Cons.prems(2,3) False by (simp add: rd_wr_other)
  qed
qed

end

interpretation le: byte_field leUint setUint
  by unfold_locales
    (simp_all add: leUint_setUint_same leUint_setUint_other take_drop_setUint_other)

section \<open>Properties\<close>

lemma leUint_cap8:
  assumes "8 \<le> sz" and "off + sz \<le> length b"
  shows "leUint b off sz = leUint b off 8"
  using assms by (intro bit_word_eqI) (auto simp: bit_leUint)

lemma signed_take_bit_cases:
  fixes u :: int
  assumes "0 \<le> u" and "u < 2 ^ Suc n"
  shows "signed_take_bit n u = (if u < 2 ^ n then u else u - 2 ^ Suc n)"
proof -
  have "(u + 2 ^ n) mod 2 ^ Suc n = (if u < 2 ^ n then u + 2 ^ n else u + 2 ^ n - 2 ^ Suc n)"
  proof (cases "u < 2 ^ n")
    case True
    with assms show ?thesis by (simp add: mod_pos_pos_trivial)
  next
    case False
    with assms have "(u + 2 ^ n - 2 ^ Suc n) mod 2 ^ Suc n = u + 2 ^ n - 2 ^ Suc n"
      by (intro mod_pos_pos_trivial) auto
    moreover have "(u + 2 ^ n - 2 ^ Suc n) mod 2 ^ Suc n = (u + 2 ^ n) mod 2 ^ Suc n"
      by (rule minus_mod_self2)
    ultimately show ?thesis using False by simp
  qed
  then show ?thesis by (simp add: signed_take_bit_eq_take_bit_shift take_bit_eq_mod)
qed

text \<open>\<open>leUint\<close> returns the base-256 value of the field's bytes, least significant first; a
  field wider than eight bytes is read from its first eight, and a field that does not fit in
  the row reads as 0.\<close>

theorem leUint_value:
  "unat (leUint b off sz) =
     (if off + sz > length b then 0 else \<Sum>i < min sz 8. unat (b ! (off + i)) * 256 ^ i)"
proof (cases "off + sz \<le> length b")
  case True
  then show ?thesis
    using unat_leUint [of off sz b] unat_leUint [of off 8 b] leUint_cap8 [of sz off b]
    by (cases "sz \<le> 8") (simp_all add: min_def)
next
  case False
  then show ?thesis by (simp add: leUint_eq)
qed

text \<open>\<open>leInt\<close> reads the same bytes as a two's-complement integer of the field's width: the
  value is below half of the range and as read, or in the upper half and the range is
  subtracted.\<close>

theorem leInt_twos_complement:
  "leInt b off sz =
     (let u = int (unat (leUint b off sz)); w = 8 * min sz 8
      in if sz = 0 \<or> u < 2 ^ (w - 1) then u else u - 2 ^ w)"
proof (cases "sz = 0")
  case True
  then show ?thesis by (simp add: leInt_def leUint_eq)
next
  case False
  define k where "k = min sz 8"
  have k: "0 < k" "k \<le> 8" using False by (simp_all add: k_def)
  have u: "uint (leUint b off sz) < 2 ^ (8 * k)"
  proof (cases "sz \<le> 8")
    case True
    then have "int (unat (leUint b off sz)) < int (2 ^ (8 * sz))"
      using leUint_lt [of sz b off] by (simp only: of_nat_less_iff)
    with True show ?thesis by (simp add: k_def)
  next
    case False
    then show ?thesis using uint_lt2p [of "leUint b off sz"] by (simp add: k_def)
  qed
  have "leInt b off sz = signed_take_bit (8 * k - 1) (uint (leUint b off sz))"
  proof (cases "sz \<le> 8")
    case True
    with False show ?thesis by (simp add: leInt_signed k_def)
  next
    case False
    then show ?thesis by (simp add: leInt_def sint_uint k_def)
  qed
  also have "\<dots> = (if uint (leUint b off sz) < 2 ^ (8 * k - 1) then uint (leUint b off sz)
      else uint (leUint b off sz) - 2 ^ (8 * k))"
    using signed_take_bit_cases [of "uint (leUint b off sz)" "8 * k - 1"] u k by simp
  finally show ?thesis using False by (simp add: k_def Let_def)
qed

text \<open>What \<open>setUint\<close> writes is what \<open>leUint\<close> reads back, cut to the field's width, and every
  other byte of the row is kept; a field that does not fit changes nothing.\<close>

theorem setUint_roundtrip:
  "leUint (setUint b off sz v) off sz = (if off + sz \<le> length b then take_bit (8 * sz) v else 0)
   \<and> take off (setUint b off sz v) = take off b
   \<and> drop (off + sz) (setUint b off sz v) = drop (off + sz) b
   \<and> (setUint b off sz v = b \<or> off + sz \<le> length b)"
proof -
  have "take off (drop 0 (setUint b off sz v)) = take off (drop 0 b)"
    by (rule take_drop_setUint_other) (simp add: disjoint_fields_def)
  moreover have "take (length b) (drop (off + sz) (setUint b off sz v)) = take (length b) (drop (off + sz) b)"
    by (rule take_drop_setUint_other) (simp add: disjoint_fields_def)
  ultimately show ?thesis
    using leUint_setUint_same [of off sz b v] by (auto simp: leUint_eq setUint_eq)
qed

end
