(* ===== verification/Promwrite.thy ===== *)
theory Promwrite
  imports GoFloat TmBytes
begin

text \<open>
  The Prometheus remote_write encoder, internal/promwrite: the protobuf wire helpers, the label
  sets, and the request body. A uint64 is a \<open>64 word\<close>, and \<open>append\<close> is list append. The snappy
  compressor is a third-party package: it is the parameter \<open>snappy\<close>. The second half is the
  specification: a decoder for the protobuf messages the package comment describes, and the
  theorems that the bytes decode to the samples.
\<close>

section \<open>Wire helpers\<close>

function appendUvarint :: "bytes \<Rightarrow> 64 word \<Rightarrow> bytes" where
  "appendUvarint b v =
     (if 0x80 \<le> v then appendUvarint (b @ [ucast v OR 0x80]) (drop_bit 7 v) else b @ [ucast v])"
  by pat_completeness auto
termination
proof (relation "measure (\<lambda>(b, v). unat v)")
  fix b :: bytes and v :: "64 word"
  assume "0x80 \<le> v"
  then have "0x80 \<le> unat v" by (simp add: word_le_nat_alt)
  then have "unat v div 128 < unat v" by simp
  moreover have "unat (drop_bit 7 v) = unat v div 128"
    by (simp add: drop_bit_eq_div unat_div)
  ultimately show "((b @ [ucast v OR 0x80], drop_bit 7 v), b, v) \<in> measure (\<lambda>(b, v). unat v)"
    by simp
qed simp

declare appendUvarint.simps [simp del]

definition appendTag :: "bytes \<Rightarrow> nat \<Rightarrow> nat \<Rightarrow> bytes" where
  "appendTag b field wire = appendUvarint b (push_bit 3 (word_of_nat field) OR word_of_nat wire)"

definition appendBytesField :: "bytes \<Rightarrow> nat \<Rightarrow> bytes \<Rightarrow> bytes" where
  "appendBytesField b field data =
     appendUvarint (appendTag b field 2) (word_of_nat (length data)) @ data"

definition appendStringField :: "bytes \<Rightarrow> nat \<Rightarrow> string \<Rightarrow> bytes" where
  "appendStringField b field s =
     appendUvarint (appendTag b field 2) (word_of_nat (length s)) @ bytes_of_string s"

text \<open>An int64 argument is an \<open>int\<close>; the conversion to uint64 wraps.\<close>

definition appendVarintField :: "bytes \<Rightarrow> nat \<Rightarrow> int \<Rightarrow> bytes" where
  "appendVarintField b field v = appendUvarint (appendTag b field 0) (word_of_int v)"

text \<open>\<open>binary.LittleEndian.PutUint64\<close>.\<close>

definition PutUint64 :: "64 word \<Rightarrow> bytes" where
  "PutUint64 v = map (\<lambda>i. ucast (drop_bit (8 * i) v)) [0..<8]"

definition appendDoubleField :: "bytes \<Rightarrow> nat \<Rightarrow> f64 \<Rightarrow> bytes" where
  "appendDoubleField b field f = appendTag b field 1 @ PutUint64 (Float64bits f)"

section \<open>Samples and requests\<close>

record label =
  lblName :: string
  lblValue :: string

record sample =
  Metric :: string
  Labels :: "label list"
  SValue :: f64
  Global :: bool

definition dropPerInstance :: "label list \<Rightarrow> label list" where
  "dropPerInstance extra =
     filter (\<lambda>l. \<not> (lblName l = ''pod'' \<or> lblName l = ''node'')) extra"

definition encodeLabel :: "label \<Rightarrow> bytes" where
  "encodeLabel l = appendStringField (appendStringField [] 1 (lblName l)) 2 (lblValue l)"

definition encodeSample :: "f64 \<Rightarrow> int \<Rightarrow> bytes" where
  "encodeSample value tsMillis = appendVarintField (appendDoubleField [] 1 value) 2 tsMillis"

text \<open>The label set of a series: the metric name, the external labels and the sample's own,
  sorted by name.\<close>

definition sampleLabels :: "label list \<Rightarrow> sample \<Rightarrow> label list" where
  "sampleLabels extra s =
     (let ex = (if Global s then dropPerInstance extra else extra)
      in sort_key lblName (\<lparr>lblName = ''__name__'', lblValue = Metric s\<rparr> # ex @ Labels s))"

definition encodeSeries :: "label list \<Rightarrow> int \<Rightarrow> sample \<Rightarrow> bytes" where
  "encodeSeries extra tsMillis s =
     (let ts = fold (\<lambda>l ts. appendBytesField ts 1 (encodeLabel l)) (sampleLabels extra s) []
      in appendBytesField ts 2 (encodeSample (SValue s) tsMillis))"

definition writeRequest :: "sample list \<Rightarrow> label list \<Rightarrow> int \<Rightarrow> bytes" where
  "writeRequest samples extra tsMillis =
     fold (\<lambda>s req. appendBytesField req 1 (encodeSeries extra tsMillis s)) samples []"

definition BuildWriteRequest ::
  "(bytes \<Rightarrow> bytes) \<Rightarrow> sample list \<Rightarrow> label list \<Rightarrow> int \<Rightarrow> bytes" where
  "BuildWriteRequest snappy samples extra tsMillis = snappy (writeRequest samples extra tsMillis)"

section \<open>Varints\<close>

text \<open>The protobuf base-128 varint: seven bits a byte, least significant first, the top bit set
  on all bytes but the last.\<close>

fun getUvarint :: "bytes \<Rightarrow> (nat \<times> bytes) option" where
  "getUvarint [] = None"
| "getUvarint (b # bs) =
     (if unat b < 128 then Some (unat b, bs)
      else (case getUvarint bs of None \<Rightarrow> None
            | Some (n, rest) \<Rightarrow> Some (unat b - 128 + 128 * n, rest)))"

lemma uvarint_last: "v < 0x80 \<Longrightarrow> unat (ucast (v :: 64 word) :: byte) = unat v"
  by (simp add: word_less_nat_alt unsigned_ucast_eq take_bit_nat_eq_self)

lemma or_128: "take_bit 8 n OR 128 = 128 + take_bit 7 (n :: nat)"
proof -
  have b: "bit (128 :: nat) k \<longleftrightarrow> k = 7" for k
    using bit_exp_iff [of 7 k, where 'a = nat] by simp
  have "128 + take_bit 7 n = 128 OR take_bit 7 n"
    by (rule disjunctive_add) (auto simp: b bit_take_bit_iff)
  also have "\<dots> = take_bit 8 n OR 128"
    by (rule bit_eqI) (auto simp: b bit_or_iff bit_take_bit_iff)
  finally show ?thesis by simp
qed

lemma uvarint_cont: "unat (ucast (v :: 64 word) OR 0x80 :: byte) = 128 + unat v mod 128"
proof -
  have "unat (ucast v :: byte) = take_bit 8 (unat v)" by (simp add: unsigned_ucast_eq)
  then show ?thesis using or_128 [of "unat v"] by (simp add: unsigned_or_eq take_bit_eq_mod)
qed

text \<open>The encoder appends, so it can be read off its result on the empty slice.\<close>

lemma unat_drop7: "0x80 \<le> v \<Longrightarrow> unat (drop_bit 7 v) < unat (v :: 64 word)"
  by (simp add: drop_bit_eq_div unat_div word_le_nat_alt)

lemma appendUvarint_append: "appendUvarint b v = b @ appendUvarint [] v"
proof (induction "unat v" arbitrary: b v rule: less_induct)
  case less
  show ?case
  proof (cases "0x80 \<le> v")
    case True
    let ?c = "ucast v OR 0x80 :: byte" and ?w = "drop_bit 7 v"
    have "appendUvarint b v = appendUvarint (b @ [?c]) ?w"
      using True by (subst appendUvarint.simps) (simp only: if_True)
    also have "\<dots> = (b @ [?c]) @ appendUvarint [] ?w" by (rule less) (rule unat_drop7 [OF True])
    also have "\<dots> = b @ appendUvarint [?c] ?w"
      using less [OF unat_drop7 [OF True], of "[?c]"] by simp
    also have "appendUvarint [?c] ?w = appendUvarint [] v"
      using True by (subst (2) appendUvarint.simps) (simp only: if_True append_Nil)
    finally show ?thesis .
  next
    case False
    then show ?thesis by (simp add: appendUvarint.simps)
  qed
qed

definition uvarint :: "64 word \<Rightarrow> bytes" where
  "uvarint v = appendUvarint [] v"

lemma uvarint_small: "v < 0x80 \<Longrightarrow> uvarint v = [ucast v]"
  by (simp add: uvarint_def appendUvarint.simps not_le)

lemma uvarint_big: "0x80 \<le> v \<Longrightarrow> uvarint v = (ucast v OR 0x80) # uvarint (drop_bit 7 v)"
  unfolding uvarint_def
  by (subst appendUvarint.simps) (simp only: if_True append_Nil,
      subst appendUvarint_append, simp)

lemma getUvarint_uvarint: "getUvarint (uvarint v @ rest) = Some (unat v, rest)"
proof (induction "unat v" arbitrary: v rule: less_induct)
  case less
  show ?case
  proof (cases "0x80 \<le> v")
    case True
    have "unat (drop_bit 7 v) = unat v div 128" by (simp add: drop_bit_eq_div unat_div)
    with less [OF unat_drop7 [OF True]] show ?thesis
      by (simp add: uvarint_big [OF True] uvarint_cont)
  next
    case False
    then have "v < 0x80" by simp
    then show ?thesis
      by (simp add: uvarint_small uvarint_last) (simp add: word_less_nat_alt)
  qed
qed

lemma length_uvarint: "unat v < 2 ^ (7 * Suc k) \<Longrightarrow> length (uvarint v) \<le> Suc k"
proof (induction k arbitrary: v)
  case 0
  then show ?case by (simp add: uvarint_small word_less_nat_alt)
next
  case (Suc k)
  show ?case
  proof (cases "0x80 \<le> v")
    case True
    have "unat (drop_bit 7 v) = unat v div 128" by (simp add: drop_bit_eq_div unat_div)
    also have "\<dots> < 2 ^ (7 * Suc k)"
      using Suc.prems by (intro less_mult_imp_div_less) (simp add: power_add mult.commute)
    finally show ?thesis using Suc.IH by (simp add: uvarint_big [OF True])
  next
    case False
    then show ?thesis by (simp add: uvarint_small)
  qed
qed

lemma length_uvarint_10: "length (uvarint v) \<le> 10"
proof -
  have "unat v < 2 ^ 64" using unsigned_less [of v, where 'a = nat] by simp
  then have "unat v < 2 ^ (7 * Suc 9)" by simp
  then show ?thesis using length_uvarint [of v 9] by simp
qed

lemma uvarint_nonempty [simp]: "uvarint v \<noteq> []"
  by (cases "0x80 \<le> v") (simp_all add: uvarint_small uvarint_big)

interpretation uv: codec "uvarint" "map_option (\<lambda>(n, rest). (word_of_nat n, rest)) \<circ> getUvarint" "\<lambda>_. True"
  by unfold_locales (simp_all add: getUvarint_uvarint)

section \<open>Fields\<close>

text \<open>A protobuf field on the wire: its number and a varint, eight bytes, or a byte string.\<close>

datatype wire = Varint "64 word" | Fixed64 "64 word" | LenDelim bytes

fun wireType :: "wire \<Rightarrow> nat" where
  "wireType (Varint _) = 0"
| "wireType (Fixed64 _) = 1"
| "wireType (LenDelim _) = 2"

fun wireBytes :: "wire \<Rightarrow> bytes" where
  "wireBytes (Varint v) = uvarint v"
| "wireBytes (Fixed64 v) = PutUint64 v"
| "wireBytes (LenDelim d) = uvarint (word_of_nat (length d)) @ d"

definition putField :: "nat \<times> wire \<Rightarrow> bytes" where
  "putField fw = uvarint (word_of_nat (8 * fst fw + wireType (snd fw))) @ wireBytes (snd fw)"

definition getField :: "bytes \<Rightarrow> ((nat \<times> wire) \<times> bytes) option" where
  "getField bs =
     (case getUvarint bs of None \<Rightarrow> None
      | Some (tag, r) \<Rightarrow>
          (let f = tag div 8; w = tag mod 8 in
           if w = 0 then
             (case getUvarint r of None \<Rightarrow> None
              | Some (n, r') \<Rightarrow> Some ((f, Varint (word_of_nat n)), r'))
           else if w = 1 then
             (if 8 \<le> length r then Some ((f, Fixed64 (leUint r 0 8)), drop 8 r) else None)
           else if w = 2 then
             (case getUvarint r of None \<Rightarrow> None
              | Some (n, r') \<Rightarrow>
                  if n \<le> length r' then Some ((f, LenDelim (take n r')), drop n r') else None)
           else None))"

fun field_ok :: "nat \<times> wire \<Rightarrow> bool" where
  "field_ok (f, LenDelim d) = (f < 16 \<and> length d < 2 ^ 64)"
| "field_ok (f, _) = (f < 16)"

lemma length_PutUint64 [simp]: "length (PutUint64 v) = 8"
  by (simp add: PutUint64_def)

lemma leUint_PutUint64: "leUint (PutUint64 v @ rest) 0 8 = v"
proof (rule bit_word_eqI)
  fix n assume "n < LENGTH(64)"
  then have n: "n < 64" "n div 8 < 8" by auto
  have "8 * (n div 8) + n mod 8 = n" by simp
  then show "bit (leUint (PutUint64 v @ rest) 0 8) n = bit v n"
    using n by (simp add: bit_leUint PutUint64_def nth_append bit_ucast_iff bit_drop_bit_eq)
qed

lemma unat_small: "n < 2 ^ 64 \<Longrightarrow> unat (word_of_nat n :: 64 word) = n"
  by (simp add: unsigned_of_nat take_bit_nat_eq_self)

lemma unat_tag: "f < 16 \<Longrightarrow> w < 8 \<Longrightarrow> unat (word_of_nat (8 * f + w) :: 64 word) = 8 * f + w"
  by (rule unat_small) simp

lemma wireType_less [simp]: "wireType w < 8"
  by (cases w) simp_all

lemma getField_putField: "field_ok fw \<Longrightarrow> getField (putField fw @ rest) = Some (fw, rest)"
proof (cases fw)
  case (Pair f w)
  assume ok: "field_ok fw"
  then have f: "f < 16" using Pair by (cases w) auto
  have tag: "getUvarint (putField fw @ rest) = Some (8 * f + wireType w, wireBytes w @ rest)"
    unfolding Pair putField_def fst_conv snd_conv append_assoc getUvarint_uvarint
    by (simp only: unat_tag [OF f wireType_less])
  have "(8 * f + wireType w) div 8 = f" "(8 * f + wireType w) mod 8 = wireType w"
    by (simp_all add: div_nat_eqI)
  note step = getField_def tag option.case prod.case Let_def this
  show ?thesis
  proof (cases w)
    case (Varint v)
    show ?thesis unfolding step by (simp add: Varint getUvarint_uvarint Pair)
  next
    case (Fixed64 v)
    show ?thesis unfolding step by (simp add: Fixed64 leUint_PutUint64 Pair)
  next
    case (LenDelim d)
    then have "unat (word_of_nat (length d) :: 64 word) = length d" using ok Pair by (simp add: unat_small)
    then show ?thesis unfolding step by (simp add: LenDelim getUvarint_uvarint Pair)
  qed
qed

interpretation fld: codec putField getField field_ok
proof unfold_locales
  show "getField (putField fw @ rest) = Some (fw, rest)" if "field_ok fw" for fw rest
    using that by (rule getField_putField)
  show "putField fw \<noteq> []" for fw by (simp add: putField_def)
qed

text \<open>The code's helpers append such fields.\<close>

lemma appendTag_eq: "f < 16 \<Longrightarrow> w < 8 \<Longrightarrow> appendTag b f w = b @ uvarint (word_of_nat (8 * f + w))"
proof -
  assume a: "f < 16" "w < 8"
  have small: "take_bit 3 w = w" using a(2) by (simp add: take_bit_nat_eq_self)
  have "\<not> bit (8 * f) n \<or> \<not> bit w n" for n
  proof (cases "n < 3")
    case True
    have "8 * f = push_bit 3 f" by (simp add: push_bit_eq_mult)
    then show ?thesis using True by (simp add: bit_push_bit_iff)
  next
    case False
    then have "\<not> bit w n" using bit_take_bit_iff [of 3 w n] small by simp
    then show ?thesis ..
  qed
  then have "8 * f + w = 8 * f OR w" by (rule disjunctive_add)
  then have "(word_of_nat (8 * f + w) :: 64 word) = word_of_nat (8 * f) OR word_of_nat w"
    by (simp only: of_nat_or_eq)
  then have "push_bit 3 (word_of_nat f) OR word_of_nat w = (word_of_nat (8 * f + w) :: 64 word)"
    by (simp only: push_bit_eq_mult) (simp add: mult.commute)
  then show ?thesis by (simp add: appendTag_def appendUvarint_append [of b] uvarint_def)
qed

lemma appendBytesField_eq: "f < 16 \<Longrightarrow> appendBytesField b f d = b @ putField (f, LenDelim d)"
  by (simp add: appendBytesField_def appendTag_eq appendUvarint_append [of "b @ _"] putField_def
      flip: uvarint_def)

lemma appendStringField_eq:
  "f < 16 \<Longrightarrow> appendStringField b f s = b @ putField (f, LenDelim (bytes_of_string s))"
  by (simp add: appendStringField_def appendTag_eq appendUvarint_append [of "b @ _"] putField_def
      flip: uvarint_def)

lemma appendVarintField_eq: "f < 16 \<Longrightarrow> appendVarintField b f v = b @ putField (f, Varint (word_of_int v))"
  by (simp add: appendVarintField_def appendTag_eq appendUvarint_append [of "b @ _"] putField_def
      flip: uvarint_def)

lemma appendDoubleField_eq:
  "f < 16 \<Longrightarrow> appendDoubleField b f x = b @ putField (f, Fixed64 (Float64bits x))"
  by (simp add: appendDoubleField_def appendTag_eq putField_def)

section \<open>Messages\<close>

text \<open>The decoders of the four messages: a singular field is the last one given, an absent one has
  the default value, a repeated field is the list of its occurrences, unknown fields are
  skipped.\<close>

definition getFields :: "bytes \<Rightarrow> (nat \<times> wire) list option" where
  "getFields bs = many getField (length bs) bs"

fun lenDelims :: "nat \<Rightarrow> (nat \<times> wire) list \<Rightarrow> bytes list" where
  "lenDelims f [] = []"
| "lenDelims f ((g, LenDelim d) # fs) = (if g = f then d # lenDelims f fs else lenDelims f fs)"
| "lenDelims f (_ # fs) = lenDelims f fs"

fun fixed64Field :: "nat \<Rightarrow> (nat \<times> wire) list \<Rightarrow> 64 word \<Rightarrow> 64 word" where
  "fixed64Field f [] v = v"
| "fixed64Field f ((g, Fixed64 x) # fs) v = fixed64Field f fs (if g = f then x else v)"
| "fixed64Field f (_ # fs) v = fixed64Field f fs v"

fun varintField :: "nat \<Rightarrow> (nat \<times> wire) list \<Rightarrow> 64 word \<Rightarrow> 64 word" where
  "varintField f [] v = v"
| "varintField f ((g, Varint x) # fs) v = varintField f fs (if g = f then x else v)"
| "varintField f (_ # fs) v = varintField f fs v"

definition stringField :: "nat \<Rightarrow> (nat \<times> wire) list \<Rightarrow> string" where
  "stringField f fs = (case rev (lenDelims f fs) of [] \<Rightarrow> [] | d # _ \<Rightarrow> string_of_bytes d)"

definition decodeLabel :: "bytes \<Rightarrow> label option" where
  "decodeLabel bs = map_option
     (\<lambda>fs. \<lparr>lblName = stringField 1 fs, lblValue = stringField 2 fs\<rparr>) (getFields bs)"

definition decodeSample :: "bytes \<Rightarrow> (f64 \<times> int) option" where
  "decodeSample bs = map_option
     (\<lambda>fs. (f64_of_bits (fixed64Field 1 fs 0), sint (varintField 2 fs 0))) (getFields bs)"

definition decodeSeries :: "bytes \<Rightarrow> (label list \<times> (f64 \<times> int) list) option" where
  "decodeSeries bs = do {
     fs \<leftarrow> getFields bs;
     ls \<leftarrow> those (map decodeLabel (lenDelims 1 fs));
     ss \<leftarrow> those (map decodeSample (lenDelims 2 fs));
     Some (ls, ss)
   }"

definition decodeRequest :: "bytes \<Rightarrow> (label list \<times> (f64 \<times> int) list) list option" where
  "decodeRequest bs = do { fs \<leftarrow> getFields bs; those (map decodeSeries (lenDelims 1 fs)) }"

lemma getFields_puts: "\<forall>f \<in> set fs. field_ok f \<Longrightarrow> getFields (concat (map putField fs)) = Some fs"
  unfolding getFields_def by (rule fld.many_enc)

lemma fold_appendBytesField:
  "f < 16 \<Longrightarrow> fold (\<lambda>x b. appendBytesField b f (g x)) xs b
     = b @ concat (map putField (map (\<lambda>x. (f, LenDelim (g x))) xs))"
  by (induction xs arbitrary: b) (simp_all add: appendBytesField_eq)

lemma lenDelims_map [simp]:
  "lenDelims f (map (\<lambda>x. (g, LenDelim (h x))) xs @ fs) =
     (if g = f then map h xs @ lenDelims f fs else lenDelims f fs)"
  by (induction xs) auto

lemma lenDelims_map' [simp]:
  "lenDelims f (map (\<lambda>x. (g, LenDelim (h x))) xs) = (if g = f then map h xs else [])"
  using lenDelims_map [of f g h xs "[]"] by simp

lemma those_map_Some: "(\<And>x. x \<in> set xs \<Longrightarrow> f x = Some (g x)) \<Longrightarrow> those (map f xs) = Some (map g xs)"
  by (induction xs) auto

lemma length_putField_LenDelim: "length d \<le> length (putField (f, LenDelim d))"
  by (simp add: putField_def)

lemma length_member_puts: "fw \<in> set fs \<Longrightarrow> length (putField fw) \<le> length (concat (map putField fs))"
  by (induction fs) auto

text \<open>No nested length is longer than the message, so a message that fits a 64-bit length has
  only well-formed fields.\<close>

lemma puts_ok:
  assumes "length (concat (map putField fs)) < 2 ^ 64" and "\<forall>fw \<in> set fs. fst fw < 16"
    and "fw \<in> set fs"
  shows "field_ok fw"
proof (cases fw)
  case (Pair f w)
  have f: "f < 16" using assms(2,3) Pair by auto
  show ?thesis
  proof (cases w)
    case (LenDelim d)
    then have "length d \<le> length (putField fw)" using Pair length_putField_LenDelim by simp
    also have "\<dots> \<le> length (concat (map putField fs))" using assms(3) by (rule length_member_puts)
    finally show ?thesis using assms(1) f Pair LenDelim by simp
  qed (use f Pair in simp_all)
qed

lemma LenDelim_fits:
  "(f, LenDelim d) \<in> set fs \<Longrightarrow> length (concat (map putField fs)) < 2 ^ 64 \<Longrightarrow> length d < 2 ^ 64"
  using length_member_puts [of "(f, LenDelim d)" fs] length_putField_LenDelim [of d f] by simp

lemma encodeLabel_puts:
  "encodeLabel l = concat (map putField
     [(1, LenDelim (bytes_of_string (lblName l))), (2, LenDelim (bytes_of_string (lblValue l)))])"
  by (simp add: encodeLabel_def appendStringField_eq)

lemma decodeLabel_encodeLabel:
  assumes "length (encodeLabel l) < 2 ^ 64"
  shows "decodeLabel (encodeLabel l) = Some l"
proof -
  have "getFields (encodeLabel l) = Some
     [(1, LenDelim (bytes_of_string (lblName l))), (2, LenDelim (bytes_of_string (lblValue l)))]"
    unfolding encodeLabel_puts
    by (intro getFields_puts ballI puts_ok [OF assms [unfolded encodeLabel_puts]]) auto
  then show ?thesis by (simp add: decodeLabel_def stringField_def)
qed

lemma encodeSample_puts:
  "encodeSample v t = concat (map putField [(1, Fixed64 (Float64bits v)), (2, Varint (word_of_int t))])"
  by (simp add: encodeSample_def appendDoubleField_eq appendVarintField_eq)

definition int64 :: "int \<Rightarrow> bool" where
  "int64 t \<longleftrightarrow> - (2 ^ 63) \<le> t \<and> t < 2 ^ 63"

lemma sint_word_of_int64: "int64 t \<Longrightarrow> sint (word_of_int t :: 64 word) = t"
  by (simp add: int64_def signed_of_int signed_take_bit_int_eq_self)

lemma decodeSample_encodeSample:
  assumes "valid_f64 v" and "int64 t"
  shows "decodeSample (encodeSample v t) = Some (v, t)"
proof -
  have "getFields (encodeSample v t) = Some [(1, Fixed64 (Float64bits v)), (2, Varint (word_of_int t))]"
    unfolding encodeSample_puts by (rule getFields_puts) simp
  then show ?thesis
    using assms by (simp add: decodeSample_def f64_of_bits_Float64bits sint_word_of_int64)
qed

definition seriesFields :: "label list \<Rightarrow> int \<Rightarrow> sample \<Rightarrow> (nat \<times> wire) list" where
  "seriesFields extra t s =
     map (\<lambda>l. (1, LenDelim (encodeLabel l))) (sampleLabels extra s)
     @ [(2, LenDelim (encodeSample (SValue s) t))]"

lemma encodeSeries_puts: "encodeSeries extra t s = concat (map putField (seriesFields extra t s))"
proof -
  have "(1 :: nat) < 16" "(2 :: nat) < 16" by simp_all
  note fields = fold_appendBytesField [OF this(1)] appendBytesField_eq [OF this(2)]
  show ?thesis unfolding encodeSeries_def Let_def fields by (simp add: seriesFields_def)
qed

lemma decodeSeries_encodeSeries:
  assumes "length (encodeSeries extra t s) < 2 ^ 64" and "valid_f64 (SValue s)" and "int64 t"
  shows "decodeSeries (encodeSeries extra t s) = Some (sampleLabels extra s, [(SValue s, t)])"
proof -
  let ?fs = "seriesFields extra t s"
  note fits = assms(1) [unfolded encodeSeries_puts]
  have "getFields (encodeSeries extra t s) = Some ?fs"
    unfolding encodeSeries_puts
    by (intro getFields_puts ballI puts_ok [OF fits]) (auto simp: seriesFields_def)
  moreover have "lenDelims 1 ?fs = map encodeLabel (sampleLabels extra s)"
    and "lenDelims 2 ?fs = [encodeSample (SValue s) t]"
    by (simp_all add: seriesFields_def)
  moreover have "decodeLabel (encodeLabel l) = Some l" if "l \<in> set (sampleLabels extra s)" for l
    using that by (intro decodeLabel_encodeLabel LenDelim_fits [where f = 1, OF _ fits]) (simp add: seriesFields_def)
  then have "those (map decodeLabel (map encodeLabel (sampleLabels extra s))) = Some (sampleLabels extra s)"
    using those_map_Some [of "sampleLabels extra s" "decodeLabel \<circ> encodeLabel" id] by simp
  ultimately show ?thesis
    using assms(2,3) by (simp add: decodeSeries_def decodeSample_encodeSample)
qed

lemma writeRequest_puts:
  "writeRequest samples extra t
     = concat (map putField (map (\<lambda>s. (1, LenDelim (encodeSeries extra t s))) samples))"
  by (simp add: writeRequest_def fold_appendBytesField)

lemma decodeRequest_writeRequest:
  assumes "length (writeRequest samples extra t) < 2 ^ 64"
    and "\<forall>s \<in> set samples. valid_f64 (SValue s)" and "int64 t"
  shows "decodeRequest (writeRequest samples extra t)
    = Some (map (\<lambda>s. (sampleLabels extra s, [(SValue s, t)])) samples)"
proof -
  let ?fs = "map (\<lambda>s. (1 :: nat, LenDelim (encodeSeries extra t s))) samples"
  note fits = assms(1) [unfolded writeRequest_puts]
  have "getFields (writeRequest samples extra t) = Some ?fs"
    unfolding writeRequest_puts by (intro getFields_puts ballI puts_ok [OF fits]) auto
  moreover have "decodeSeries (encodeSeries extra t s) = Some (sampleLabels extra s, [(SValue s, t)])"
    if "s \<in> set samples" for s
    using that assms(2,3) by (intro decodeSeries_encodeSeries LenDelim_fits [where f = 1, OF _ fits]) auto
  then have "those (map (decodeSeries \<circ> encodeSeries extra t) samples)
      = Some (map (\<lambda>s. (sampleLabels extra s, [(SValue s, t)])) samples)"
    by (intro those_map_Some) simp
  ultimately show ?thesis by (simp add: decodeRequest_def)
qed

text \<open>How long the messages are.\<close>

lemma length_putField_le:
  "length (putField (f, LenDelim d)) \<le> 20 + length d"
  "length (putField (f, Fixed64 w)) \<le> 18"
  "length (putField (f, Varint w)) \<le> 20"
  using length_uvarint_10 [of "word_of_nat (8 * f + 2)"] length_uvarint_10 [of "word_of_nat (length d)"]
    length_uvarint_10 [of "word_of_nat (8 * f + 1)"] length_uvarint_10 [of "word_of_nat (8 * f)"]
    length_uvarint_10 [of w]
  by (simp_all add: putField_def)

lemma length_encodeLabel_le: "length (encodeLabel l) \<le> 40 + length (lblName l) + length (lblValue l)"
  using length_putField_le(1) [of 1 "bytes_of_string (lblName l)"]
    length_putField_le(1) [of 2 "bytes_of_string (lblValue l)"]
  by (simp add: encodeLabel_puts)

lemma length_encodeSample_le: "length (encodeSample v t) \<le> 38"
  using length_putField_le(2) [of 1 "Float64bits v"] length_putField_le(3) [of 2 "word_of_int t"]
  by (simp add: encodeSample_puts)

definition labelSize :: "label \<Rightarrow> nat" where
  "labelSize l = 60 + length (lblName l) + length (lblValue l)"

lemma length_encodeSeries_le:
  "length (encodeSeries extra t s) \<le> 58 + sum_list (map labelSize (sampleLabels extra s))"
proof -
  have "length (concat (map putField (map (\<lambda>l. (1, LenDelim (encodeLabel l))) ls))) \<le> sum_list (map labelSize ls)" for ls
  proof (induction ls)
    case (Cons l ls)
    have "length (putField (1, LenDelim (encodeLabel l))) \<le> labelSize l"
      using length_putField_le(1) [of 1 "encodeLabel l"] length_encodeLabel_le [of l]
      by (simp add: labelSize_def)
    with Cons show ?case by simp
  qed simp
  from this [of "sampleLabels extra s"] show ?thesis
    using length_putField_le(1) [of 2 "encodeSample (SValue s) t"] length_encodeSample_le [of "SValue s" t]
    by (simp add: encodeSeries_puts seriesFields_def)
qed

lemma length_writeRequest_le:
  "length (writeRequest samples extra t)
     \<le> sum_list (map (\<lambda>s. 100 + sum_list (map labelSize (sampleLabels extra s))) samples)"
proof (induction samples)
  case (Cons s samples)
  have "length (putField (1, LenDelim (encodeSeries extra t s))) \<le> 100 + sum_list (map labelSize (sampleLabels extra s))"
    using length_putField_le(1) [of 1 "encodeSeries extra t s"] length_encodeSeries_le [of extra t s] by simp
  then show ?case using Cons by (simp add: writeRequest_puts)
qed (simp add: writeRequest_puts)

text \<open>\<open>sort.Slice\<close> on the label names.\<close>

interpretation lbl: slice_sort "sort_key lblName" lblName
  by unfold_locales simp_all

section \<open>Properties\<close>

text \<open>A varint decodes to the value it was written from, whatever follows it, what was in the
  slice stays, and a uint64 takes at most ten bytes.\<close>

theorem appendUvarint_roundtrip:
  "take (length b) (appendUvarint b v) = b
   \<and> getUvarint (drop (length b) (appendUvarint b v) @ rest) = Some (unat v, rest)
   \<and> length (appendUvarint b v) \<le> length b + 10"
  unfolding appendUvarint_append [of b]
  by (simp add: getUvarint_uvarint length_uvarint_10 flip: uvarint_def)

text \<open>C7: the request body is a remote_write message: decompressed and decoded as protobuf it
  gives one series per sample, in order, with the label set of the sample and its value at the
  push time. The bound is that the body has a 64-bit length, which every slice has.\<close>

theorem BuildWriteRequest_decodes:
  assumes "\<forall>b. unsnappy (snappy b) = Some b"
    and "length (writeRequest samples extra t) < 2 ^ 64"
    and "\<forall>s \<in> set samples. valid_f64 (SValue s)" and "int64 t"
  shows "Option.bind (unsnappy (BuildWriteRequest snappy samples extra t)) decodeRequest
    = Some (map (\<lambda>s. (sampleLabels extra s, [(SValue s, t)])) samples)"
  using assms by (simp add: BuildWriteRequest_def decodeRequest_writeRequest)

definition demo_extra :: "label list" where
  "demo_extra = [\<lparr>lblName = ''pod'', lblValue = ''tmm-0''\<rparr>, \<lparr>lblName = ''cluster'', lblValue = ''lab''\<rparr>]"
definition demo_sample :: sample where
  "demo_sample = \<lparr>Metric = ''f5tmm_token_total'', Labels = [\<lparr>lblName = ''name'', lblValue = ''vs1''\<rparr>], SValue = FInt 5, Global = True\<rparr>"

lemma demo_labels:
  "sampleLabels demo_extra demo_sample = [\<lparr>lblName = ''__name__'', lblValue = ''f5tmm_token_total''\<rparr>,
     \<lparr>lblName = ''cluster'', lblValue = ''lab''\<rparr>, \<lparr>lblName = ''name'', lblValue = ''vs1''\<rparr>]"
  by (simp add: sampleLabels_def dropPerInstance_def demo_extra_def demo_sample_def)

lemma demo_fits: "length (writeRequest [demo_sample] demo_extra t) < 2 ^ 64"
proof -
  have "length (encodeSeries demo_extra t demo_sample) \<le> 58 + sum_list (map labelSize (sampleLabels demo_extra demo_sample))"
    by (rule length_encodeSeries_le)
  also have "\<dots> < 1000" unfolding demo_labels by (simp add: labelSize_def)
  finally show ?thesis
    using length_putField_le(1) [of 1 "encodeSeries demo_extra t demo_sample"]
    by (simp add: writeRequest_puts)
qed

theorem BuildWriteRequest_decodes_witness:
  "Option.bind ((\<lambda>b. case b of [] \<Rightarrow> None | _ # r \<Rightarrow> Some r)
      (BuildWriteRequest (\<lambda>b. 0xFF # b) [demo_sample] demo_extra 1000)) decodeRequest
   = Some [([\<lparr>lblName = ''__name__'', lblValue = ''f5tmm_token_total''\<rparr>,
     \<lparr>lblName = ''cluster'', lblValue = ''lab''\<rparr>, \<lparr>lblName = ''name'', lblValue = ''vs1''\<rparr>],
     [(FInt 5, 1000)])]"
proof -
  let ?un = "\<lambda>b :: bytes. case b of [] \<Rightarrow> None | _ # r \<Rightarrow> Some r"
  have "\<forall>b. ?un (0xFF # b) = Some b" by simp
  moreover have "\<forall>s \<in> set [demo_sample]. valid_f64 (SValue s)"
    by (simp add: demo_sample_def round53_def)
  moreover have "int64 1000" by (simp add: int64_def)
  ultimately have "Option.bind (?un (BuildWriteRequest (\<lambda>b. 0xFF # b) [demo_sample] demo_extra 1000)) decodeRequest
      = Some (map (\<lambda>s. (sampleLabels demo_extra s, [(SValue s, 1000)])) [demo_sample])"
    by (intro BuildWriteRequest_decodes demo_fits)
  then show ?thesis by (simp only: list.map demo_labels) (simp add: demo_sample_def)
qed

text \<open>The label set of a series is sorted by name, holds the metric name, the sample's labels
  and the external ones, less pod and node when the sample is global.\<close>

theorem sampleLabels_contract:
  "sorted (map lblName (sampleLabels extra s))
   \<and> mset (sampleLabels extra s)
       = mset (Labels s) + {#\<lparr>lblName = ''__name__'', lblValue = Metric s\<rparr>#}
         + filter_mset (\<lambda>l. \<not> (Global s \<and> lblName l \<in> {''pod'', ''node''})) (mset extra)"
proof
  show "sorted (map lblName (sampleLabels extra s))"
    unfolding sampleLabels_def Let_def by (rule lbl.sorts)
qed (simp add: sampleLabels_def dropPerInstance_def Let_def)

text \<open>When no two of the labels share a name and none is called \<open>__name__\<close>, the names of the
  series are strictly increasing, which is what remote_write asks for.\<close>

theorem sampleLabels_unique:
  assumes "distinct (''__name__'' # map lblName (extra @ Labels s))"
  shows "sorted_wrt (<) (map lblName (sampleLabels extra s))"
proof -
  let ?ex = "if Global s then dropPerInstance extra else extra"
  have "distinct (map lblName ?ex)"
    using assms by (simp add: dropPerInstance_def distinct_map_filter)
  moreover have "lblName ` set ?ex \<subseteq> lblName ` set extra" by (auto simp: dropPerInstance_def)
  ultimately have "distinct (map lblName (\<lparr>lblName = ''__name__'', lblValue = Metric s\<rparr> # ?ex @ Labels s))"
    using assms unfolding map_append distinct_append list.map distinct.simps set_append set_map
    by (simp only: label.select_convs) blast
  then have "distinct (map lblName (sampleLabels extra s))"
    unfolding sampleLabels_def Let_def lbl.distinct_keys .
  moreover have "sorted (map lblName (sampleLabels extra s))"
    unfolding sampleLabels_def Let_def by (rule lbl.sorts)
  ultimately show ?thesis by (simp only: strict_sorted_iff)
qed

theorem sampleLabels_unique_witness:
  "sorted_wrt (<) (map lblName (sampleLabels demo_extra demo_sample))"
  by (rule sampleLabels_unique) (simp add: demo_extra_def demo_sample_def)

text \<open>Producers that differ in their pod and node labels only send identical requests for
  global samples.\<close>

theorem global_requests_agree:
  assumes "\<forall>s \<in> set samples. Global s"
    and "filter (\<lambda>l. lblName l \<notin> {''pod'', ''node''}) e1 = filter (\<lambda>l. lblName l \<notin> {''pod'', ''node''}) e2"
  shows "BuildWriteRequest snappy samples e1 t = BuildWriteRequest snappy samples e2 t"
proof -
  have "sampleLabels e1 s = sampleLabels e2 s" if "s \<in> set samples" for s
    using that assms by (simp add: sampleLabels_def dropPerInstance_def)
  then have "map (\<lambda>s. (1, LenDelim (encodeSeries e1 t s))) samples
      = map (\<lambda>s. (1, LenDelim (encodeSeries e2 t s))) samples"
    by (simp add: encodeSeries_def)
  then show ?thesis unfolding BuildWriteRequest_def writeRequest_puts by (rule arg_cong)
qed

theorem global_requests_agree_witness:
  "BuildWriteRequest (\<lambda>b. b) [demo_sample] demo_extra 1000
   = BuildWriteRequest (\<lambda>b. b) [demo_sample] (\<lparr>lblName = ''node'', lblValue = ''n2''\<rparr> # demo_extra) 1000"
  by (rule global_requests_agree) (simp_all add: demo_extra_def demo_sample_def)
end
