(* ===== verification/Remotewrite.thy ===== *)
theory Remotewrite
  imports Promwrite
begin

text \<open>
  The exporter's own remote_write encoder, cmd/tmm-stat-exporter/remotewrite.go: a second copy of
  internal/promwrite over the exporter's sample and label types. It is translated on its own, and
  \<open>buildWriteRequest_eq\<close> shows that the two copies send the same bytes.
\<close>

section \<open>The exporter's types\<close>

record elabel =
  lname :: string
  lvalue :: string

record esample =
  smetric :: string
  slabels :: "elabel list"
  svalue :: f64
  sglobal :: bool

section \<open>Wire helpers\<close>

function appendUvarint_rw :: "bytes \<Rightarrow> 64 word \<Rightarrow> bytes" where
  "appendUvarint_rw b v =
     (if 0x80 \<le> v then appendUvarint_rw (b @ [ucast v OR 0x80]) (drop_bit 7 v) else b @ [ucast v])"
  by pat_completeness auto
termination
  by (relation "measure (\<lambda>(b, v). unat v)") (simp_all add: unat_drop7)

declare appendUvarint_rw.simps [simp del]

definition appendTag_rw :: "bytes \<Rightarrow> nat \<Rightarrow> nat \<Rightarrow> bytes" where
  "appendTag_rw b field wire = appendUvarint_rw b (push_bit 3 (word_of_nat field) OR word_of_nat wire)"

definition appendBytesField_rw :: "bytes \<Rightarrow> nat \<Rightarrow> bytes \<Rightarrow> bytes" where
  "appendBytesField_rw b field data =
     appendUvarint_rw (appendTag_rw b field 2) (word_of_nat (length data)) @ data"

definition appendStringField_rw :: "bytes \<Rightarrow> nat \<Rightarrow> string \<Rightarrow> bytes" where
  "appendStringField_rw b field s =
     appendUvarint_rw (appendTag_rw b field 2) (word_of_nat (length s)) @ bytes_of_string s"

definition appendVarintField_rw :: "bytes \<Rightarrow> nat \<Rightarrow> int \<Rightarrow> bytes" where
  "appendVarintField_rw b field v = appendUvarint_rw (appendTag_rw b field 0) (word_of_int v)"

definition appendDoubleField_rw :: "bytes \<Rightarrow> nat \<Rightarrow> f64 \<Rightarrow> bytes" where
  "appendDoubleField_rw b field f = appendTag_rw b field 1 @ PutUint64 (Float64bits f)"

section \<open>The request\<close>

definition dropPerInstance_rw :: "elabel list \<Rightarrow> elabel list" where
  "dropPerInstance_rw extra = filter (\<lambda>l. \<not> (lname l = ''pod'' \<or> lname l = ''node'')) extra"

definition encodeLabel_rw :: "elabel \<Rightarrow> bytes" where
  "encodeLabel_rw l = appendStringField_rw (appendStringField_rw [] 1 (lname l)) 2 (lvalue l)"

definition encodeSample_rw :: "f64 \<Rightarrow> int \<Rightarrow> bytes" where
  "encodeSample_rw value tsMillis = appendVarintField_rw (appendDoubleField_rw [] 1 value) 2 tsMillis"

definition sampleLabels_rw :: "elabel list \<Rightarrow> esample \<Rightarrow> elabel list" where
  "sampleLabels_rw extra s =
     (let ex = (if sglobal s then dropPerInstance_rw extra else extra)
      in sort_key lname (\<lparr>lname = ''__name__'', lvalue = smetric s\<rparr> # ex @ slabels s))"

definition encodeSeries_rw :: "elabel list \<Rightarrow> int \<Rightarrow> esample \<Rightarrow> bytes" where
  "encodeSeries_rw extra tsMillis s =
     (let ts = fold (\<lambda>l ts. appendBytesField_rw ts 1 (encodeLabel_rw l)) (sampleLabels_rw extra s) []
      in appendBytesField_rw ts 2 (encodeSample_rw (svalue s) tsMillis))"

definition buildWriteRequest ::
  "(bytes \<Rightarrow> bytes) \<Rightarrow> esample list \<Rightarrow> elabel list \<Rightarrow> int \<Rightarrow> bytes" where
  "buildWriteRequest snappy samples extra tsMillis =
     snappy (fold (\<lambda>s req. appendBytesField_rw req 1 (encodeSeries_rw extra tsMillis s)) samples [])"

section \<open>The two copies agree\<close>

definition toLabel :: "elabel \<Rightarrow> label" where
  "toLabel l = \<lparr>lblName = lname l, lblValue = lvalue l\<rparr>"

definition toSample :: "esample \<Rightarrow> sample" where
  "toSample s = \<lparr>Metric = smetric s, Labels = map toLabel (slabels s), SValue = svalue s, Global = sglobal s\<rparr>"

lemma appendUvarint_rw_eq: "appendUvarint_rw b v = appendUvarint b v"
  by (induction b v rule: appendUvarint_rw.induct)
     (simp add: appendUvarint_rw.simps appendUvarint.simps)

lemma append_rw_eq:
  "appendTag_rw = appendTag" "appendBytesField_rw = appendBytesField"
  "appendStringField_rw = appendStringField" "appendVarintField_rw = appendVarintField"
  "appendDoubleField_rw = appendDoubleField"
  by (intro ext, simp add: appendTag_rw_def appendTag_def appendUvarint_rw_eq
      appendBytesField_rw_def appendBytesField_def appendStringField_rw_def appendStringField_def
      appendVarintField_rw_def appendVarintField_def appendDoubleField_rw_def appendDoubleField_def)+

lemma map_insort_key: "g = f \<circ> h \<Longrightarrow> map h (insort_key g x xs) = insort_key f (h x) (map h xs)"
  by (induction xs) auto

lemma map_sort_key: "g = f \<circ> h \<Longrightarrow> map h (sort_key g xs) = sort_key f (map h xs)"
  by (induction xs) (simp_all add: map_insort_key)

lemma sampleLabels_rw_eq:
  "map toLabel (sampleLabels_rw extra s) = sampleLabels (map toLabel extra) (toSample s)"
proof -
  have "lname = lblName \<circ> toLabel" by (simp add: fun_eq_iff toLabel_def)
  note sort = map_sort_key [OF this]
  have "map toLabel (dropPerInstance_rw extra) = dropPerInstance (map toLabel extra)"
    by (simp add: dropPerInstance_rw_def dropPerInstance_def filter_map comp_def toLabel_def)
  then show ?thesis
    by (simp add: sampleLabels_rw_def sampleLabels_def sort toSample_def toLabel_def Let_def
        del: sort_key_simps)
qed

lemma encodeSeries_rw_eq:
  "encodeSeries_rw extra t s = encodeSeries (map toLabel extra) t (toSample s)"
proof -
  have "encodeLabel_rw l = encodeLabel (toLabel l)" for l
    by (simp add: encodeLabel_rw_def encodeLabel_def append_rw_eq toLabel_def)
  then have "fold (\<lambda>l b. appendBytesField_rw b 1 (encodeLabel_rw l)) ls []
      = fold (\<lambda>l b. appendBytesField b 1 (encodeLabel l)) (map toLabel ls) []" for ls
    by (simp add: fold_map comp_def append_rw_eq)
  moreover have "encodeSample_rw = encodeSample"
    by (intro ext) (simp add: encodeSample_rw_def encodeSample_def append_rw_eq)
  ultimately show ?thesis
    by (simp add: encodeSeries_rw_def encodeSeries_def sampleLabels_rw_eq append_rw_eq toSample_def)
qed

lemma buildWriteRequest_writeRequest:
  "buildWriteRequest snappy samples extra t
     = snappy (writeRequest (map toSample samples) (map toLabel extra) t)"
  by (simp add: buildWriteRequest_def writeRequest_def fold_map comp_def append_rw_eq encodeSeries_rw_eq)

section \<open>Properties\<close>

text \<open>C34: the exporter's encoder and the shared one send the same request for the same samples:
  the two copies have not drifted apart.\<close>

theorem buildWriteRequest_eq:
  "buildWriteRequest snappy samples extra t
     = BuildWriteRequest snappy (map toSample samples) (map toLabel extra) t"
  by (simp add: buildWriteRequest_writeRequest BuildWriteRequest_def)

end
