(* ===== verification/ExpText.thy ===== *)
theory ExpText
  imports GoFloat Remotewrite
begin

text \<open>
  The text side of cmd/tmm-stat-exporter/main.go: metric and label names, label escaping and the
  exposition line, the parsers of the flags, and the member keys of the iRule token table.
\<close>

section \<open>Names\<close>

definition is_lower :: "char \<Rightarrow> bool" where
  "is_lower c \<longleftrightarrow> 97 \<le> (of_char c :: nat) \<and> (of_char c :: nat) \<le> 122"

definition is_upper :: "char \<Rightarrow> bool" where
  "is_upper c \<longleftrightarrow> 65 \<le> (of_char c :: nat) \<and> (of_char c :: nat) \<le> 90"

text \<open>The loop of \<open>sanitize\<close> at byte \<open>i\<close>.\<close>

fun sanitize_loop :: "nat \<Rightarrow> string \<Rightarrow> string" where
  "sanitize_loop i [] = []"
| "sanitize_loop i (c # cs) =
     (if is_lower c \<or> is_upper c \<or> c = CHR ''_'' \<or> c = CHR '':'' then [c]
      else if is_digit c then (if i = 0 then [CHR ''_''] else []) @ [c]
      else [CHR ''_'']) @ sanitize_loop (Suc i) cs"

definition sanitize :: "string \<Rightarrow> string" where
  "sanitize s = sanitize_loop 0 s"

section \<open>Exposition text\<close>

definition ContainsAny :: "string \<Rightarrow> string \<Rightarrow> bool" where
  "ContainsAny s cs = list_ex (\<lambda>c. c \<in> set cs) s"

text \<open>The replacer of the three escapes works on single bytes.\<close>

fun Replace :: "string \<Rightarrow> string" where
  "Replace [] = []"
| "Replace (c # cs) =
     (if c = CHR 0x5C then [CHR 0x5C, CHR 0x5C]
      else if c = CHR 0x22 then [CHR 0x5C, CHR 0x22]
      else if c = CHR 0x0A then [CHR 0x5C, CHR ''n'']
      else [c]) @ Replace cs"

definition escapeLabel :: "string \<Rightarrow> string" where
  "escapeLabel s = (if \<not> ContainsAny s [CHR 0x5C, CHR 0x22, CHR 0x0A] then s else Replace s)"

fun textLabels_loop :: "nat \<Rightarrow> elabel list \<Rightarrow> string" where
  "textLabels_loop i [] = []"
| "textLabels_loop i (l # ls) =
     (if i > 0 then '','' else []) @ lname l @ ''='' @ [CHR 0x22] @ escapeLabel (lvalue l) @ [CHR 0x22]
     @ textLabels_loop (Suc i) ls"

definition writeTextLabels :: "string \<Rightarrow> elabel list \<Rightarrow> string" where
  "writeTextLabels b labels =
     (if labels = [] then b else b @ ''{'' @ textLabels_loop 0 labels @ ''}'')"

section \<open>Flags\<close>

definition parseLabels :: "string \<Rightarrow> elabel list" where
  "parseLabels s = concat (map (\<lambda>kv.
     let kv = TrimSpace kv in
     if kv = [] then []
     else (let (k, v, ok) = Cut CHR ''='' kv in
           if \<not> ok then [] else [\<lparr>lname = sanitize (TrimSpace k), lvalue = TrimSpace v\<rparr>]))
     (Split CHR '','' s))"

definition splitKeepOrder :: "string \<Rightarrow> string list" where
  "splitKeepOrder csv = filter (\<lambda>p. p \<noteq> []) (map TrimSpace (Split CHR '','' csv))"

text \<open>\<open>sort.Strings\<close> sorts bytewise.\<close>

definition splitNonEmpty :: "string \<Rightarrow> string list" where
  "splitNonEmpty csv = sort (filter (\<lambda>p. p \<noteq> []) (map TrimSpace (Split CHR '','' csv)))"

text \<open>The environment is a map from names to values; an unset variable reads as the empty string.
  \<open>parse\<close> is \<open>time.ParseDuration\<close>, whose result is an opaque value here.\<close>

definition Getenv :: "(string \<rightharpoonup> string) \<Rightarrow> string \<Rightarrow> string" where
  "Getenv env key = (case env key of None \<Rightarrow> [] | Some v \<Rightarrow> v)"

definition envOr :: "(string \<rightharpoonup> string) \<Rightarrow> string \<Rightarrow> string \<Rightarrow> string" where
  "envOr env key def = (let v = Getenv env key in if v \<noteq> [] then v else def)"

definition envParsed :: "(string \<Rightarrow> 'a option) \<Rightarrow> (string \<rightharpoonup> string) \<Rightarrow> string \<Rightarrow> 'a \<Rightarrow> 'a" where
  "envParsed parse env key def =
     (let v = Getenv env key in
      if v \<noteq> [] then (case parse v of Some d \<Rightarrow> d | None \<Rightarrow> def) else def)"

section \<open>Token members\<close>

text \<open>\<open>tokenValueRe\<close>, the pattern \<open>S([0-9]+)$\<close>: the leftmost S that is followed by digits only,
  and at least one, up to the end; the group is those digits.\<close>

fun tokenValue :: "string \<Rightarrow> string option" where
  "tokenValue [] = None"
| "tokenValue (c # cs) =
     (if c = CHR ''S'' \<and> cs \<noteq> [] \<and> list_all is_digit cs then Some cs else tokenValue cs)"

definition memberLabels :: "string list \<Rightarrow> elabel list" where
  "memberLabels ps = concat (map (\<lambda>p.
     let (k, v, ok) = Cut CHR ''='' p in
     if \<not> ok \<or> k = [] then [] else [\<lparr>lname = sanitize k, lvalue = v\<rparr>]) ps)"

definition parseTokenMember :: "string \<Rightarrow> string \<times> elabel list" where
  "parseTokenMember member =
     (let parts = Split CHR ''|'' member in (hd parts, memberLabels (tl parts)))"

definition labelKey :: "elabel list \<Rightarrow> string" where
  "labelKey lbls = concat (map (\<lambda>l. lname l @ ''='' @ lvalue l @ '','') lbls)"

section \<open>Valid names\<close>

text \<open>The grammar \<open>[a-zA-Z_:][a-zA-Z0-9_:]*\<close>.\<close>

definition name_start :: "char \<Rightarrow> bool" where
  "name_start c \<longleftrightarrow> is_lower c \<or> is_upper c \<or> c = CHR ''_'' \<or> c = CHR '':''"

fun valid_name :: "string \<Rightarrow> bool" where
  "valid_name [] = False"
| "valid_name (c # cs) = (name_start c \<and> list_all (\<lambda>d. name_start d \<or> is_digit d) cs)"

lemma digit_not_start: "is_digit c \<Longrightarrow> \<not> name_start c"
  by (auto simp: is_digit_def name_start_def is_lower_def is_upper_def)

lemma underscore: "name_start CHR ''_''"
  by (simp add: name_start_def)

lemma sanitize_tail: "list_all (\<lambda>d. name_start d \<or> is_digit d) (sanitize_loop (Suc i) cs)"
  by (induction "Suc i" cs arbitrary: i rule: sanitize_loop.induct)
     (auto simp: name_start_def)

lemma sanitize_tail_id:
  "sanitize_loop (Suc i) cs = cs \<longleftrightarrow> list_all (\<lambda>d. name_start d \<or> is_digit d) cs"
  by (induction "Suc i" cs arbitrary: i rule: sanitize_loop.induct)
     (auto simp: name_start_def)

lemma valid_sanitize: "valid_name (sanitize s) \<longleftrightarrow> s \<noteq> []"
  using sanitize_tail [of 0] underscore
  by (cases s) (auto simp: sanitize_def name_start_def)

lemma sanitize_id: "sanitize s = s \<longleftrightarrow> s = [] \<or> valid_name s"
proof (cases s)
  case (Cons c cs)
  have "length (sanitize_loop (Suc i) t) = length t" for i t
    by (induction t arbitrary: i) auto
  then have "CHR ''_'' # c # sanitize_loop (Suc 0) cs \<noteq> c # cs" by (metis length_Cons n_not_Suc_n)
  then show ?thesis
    using Cons digit_not_start [of c] sanitize_tail_id [of 0 cs]
    by (auto simp: sanitize_def name_start_def)
qed (simp add: sanitize_def)

section \<open>The exposition\<close>

text \<open>The loop of \<open>handleMetrics\<close> over the samples, from the metric name of the line before.\<close>

fun metricLines :: "string \<Rightarrow> esample list \<Rightarrow> string" where
  "metricLines prev [] = []"
| "metricLines prev (s # ss) =
     (if smetric s \<noteq> prev then ''# TYPE '' @ smetric s @ '' gauge'' @ [CHR 0x0A] else [])
     @ writeTextLabels (smetric s) (slabels s) @ '' '' @ FormatG (svalue s) @ [CHR 0x0A]
     @ metricLines (smetric s) ss"

section \<open>A reader of the exposition format\<close>

text \<open>A quoted value, after its opening quote: the value and what follows the closing quote.\<close>

fun unquote :: "string \<Rightarrow> (string \<times> string) option" where
  "unquote [] = None"
| "unquote (c # cs) =
     (if c = CHR 0x22 then Some ([], cs)
      else if c = CHR 0x5C then
        (case cs of [] \<Rightarrow> None
         | d # ds \<Rightarrow> map_option (\<lambda>(v, r). ((if d = CHR ''n'' then CHR 0x0A else d) # v, r)) (unquote ds))
      else map_option (\<lambda>(v, r). (c # v, r)) (unquote cs))"

text \<open>The pairs after an opening brace, up to the closing one.\<close>

fun readPairs :: "nat \<Rightarrow> string \<Rightarrow> (elabel list \<times> string) option" where
  "readPairs 0 s = None"
| "readPairs (Suc k) s =
     (let (name, r, _) = Cut CHR ''='' s in
      case (if r = [] then None else if hd r = CHR 0x22 then unquote (tl r) else None) of
        Some (v, d # u) \<Rightarrow>
          (if d = CHR ''}'' then Some ([\<lparr>lname = name, lvalue = v\<rparr>], u)
           else if d = CHR '','' then
             map_option (\<lambda>(ls, w). (\<lparr>lname = name, lvalue = v\<rparr> # ls, w)) (readPairs k u)
           else None)
      | _ \<Rightarrow> None)"

definition parseLine :: "string \<Rightarrow> (string \<times> elabel list \<times> f64) option" where
  "parseLine s =
     (let name = takeWhile (\<lambda>c. c \<noteq> CHR ''{'' \<and> c \<noteq> CHR '' '') s; r = drop (length name) s
      in if r = [] then None
         else if hd r = CHR '' '' then Some (name, [], ParseG (tl r))
         else (case readPairs (length r) (tl r) of
                 Some (ls, d # v) \<Rightarrow> if d = CHR '' '' then Some (name, ls, ParseG v) else None
               | _ \<Rightarrow> None))"

definition parseExposition :: "string \<Rightarrow> (string \<times> elabel list \<times> f64) list option" where
  "parseExposition s =
     those (map parseLine (filter (\<lambda>l. l \<noteq> [] \<and> hd l \<noteq> CHR ''#'') (Split CHR 0x0A s)))"

lemma Replace_plain: "\<not> ContainsAny s [CHR 0x5C, CHR 0x22, CHR 0x0A] \<Longrightarrow> Replace s = s"
  by (induction s) (auto simp: ContainsAny_def)

lemma escapeLabel_Replace: "escapeLabel s = Replace s"
  by (simp add: escapeLabel_def Replace_plain)

lemma unquote_Replace: "unquote (Replace s @ CHR 0x22 # rest) = Some (s, rest)"
  by (induction s) auto

lemma Replace_no_newline: "CHR 0x0A \<notin> set (Replace s)"
  by (induction s) auto

text \<open>The escaped value with its closing quote is a codec.\<close>

interpretation quoted: codec "\<lambda>v. escapeLabel v @ [CHR 0x22]" unquote "\<lambda>_. True"
  by unfold_locales (simp_all add: escapeLabel_Replace unquote_Replace)

lemma textLabels_Suc: "textLabels_loop (Suc i) ls = textLabels_loop (Suc j) ls"
  by (induction ls arbitrary: i j) (simp, simp del: textLabels_loop.simps add: textLabels_loop.simps(2))

lemma textLabels_later: "textLabels_loop (Suc i) (l # ls) = CHR '','' # textLabels_loop 0 (l # ls)"
  using textLabels_Suc [of "Suc i" ls 0] by simp

lemma readPairs_textLabels:
  assumes "list_all (\<lambda>l. CHR ''='' \<notin> set (lname l)) (l # ls)" and "length ls < k"
  shows "readPairs k (textLabels_loop 0 (l # ls) @ CHR ''}'' # rest) = Some (l # ls, rest)"
  using assms
proof (induction ls arbitrary: l k)
  case Nil
  then obtain m where k: "k = Suc m" by (cases k) auto
  have "Cut CHR ''='' (lname l @ CHR ''='' # CHR 0x22 # escapeLabel (lvalue l) @ CHR 0x22 # CHR ''}'' # rest)
      = (lname l, CHR 0x22 # escapeLabel (lvalue l) @ CHR 0x22 # CHR ''}'' # rest, True)"
    using Nil by (intro Cut_found) simp
  then show ?case unfolding k
    using quoted.roundtrip [of "lvalue l" "CHR ''}'' # rest"] by simp
next
  case (Cons l' ls)
  then obtain m where k: "k = Suc m" by (cases k) auto
  let ?t = "textLabels_loop 0 (l' # ls) @ CHR ''}'' # rest"
  have ih: "readPairs m ?t = Some (l' # ls, rest)" using Cons.prems k by (intro Cons.IH) auto
  have shape: "textLabels_loop 0 (l # l' # ls) @ CHR ''}'' # rest
      = lname l @ CHR ''='' # CHR 0x22 # escapeLabel (lvalue l) @ CHR 0x22 # CHR '','' # ?t"
    by (subst textLabels_loop.simps) (simp add: textLabels_later del: textLabels_loop.simps)
  have cut: "Cut CHR ''='' (lname l @ CHR ''='' # CHR 0x22 # escapeLabel (lvalue l) @ CHR 0x22 # CHR '','' # ?t)
      = (lname l, CHR 0x22 # escapeLabel (lvalue l) @ CHR 0x22 # CHR '','' # ?t, True)"
    using Cons.prems by (intro Cut_found) simp
  show ?case unfolding k shape readPairs.simps cut
    using quoted.roundtrip [of "lvalue l" "CHR '','' # ?t"] ih
    by (simp del: textLabels_loop.simps)
qed

lemma valid_name_chars:
  assumes "valid_name m"
  shows "c \<in> set m \<Longrightarrow> c \<noteq> CHR ''{'' \<and> c \<noteq> CHR '' '' \<and> c \<noteq> CHR ''='' \<and> c \<noteq> CHR 0x0A \<and> c \<noteq> CHR ''#''"
    and "m \<noteq> []"
proof -
  have "\<forall>c \<in> set m. name_start c \<or> is_digit c" and "m \<noteq> []"
    using assms by (cases m; auto simp: list_all_iff)+
  then show "c \<in> set m \<Longrightarrow> c \<noteq> CHR ''{'' \<and> c \<noteq> CHR '' '' \<and> c \<noteq> CHR ''='' \<and> c \<noteq> CHR 0x0A \<and> c \<noteq> CHR ''#''"
    and "m \<noteq> []"
    by (auto simp: name_start_def is_lower_def is_upper_def is_digit_def)
qed

definition line_ok :: "esample \<Rightarrow> bool" where
  "line_ok s \<longleftrightarrow> valid_name (smetric s) \<and> list_all (\<lambda>l. valid_name (lname l)) (slabels s) \<and> valid_f64 (svalue s)"

definition sampleLine :: "esample \<Rightarrow> string" where
  "sampleLine s = writeTextLabels (smetric s) (slabels s) @ '' '' @ FormatG (svalue s)"

lemma parseLine_sampleLine:
  assumes "line_ok s"
  shows "parseLine (sampleLine s) = Some (smetric s, slabels s, svalue s)"
proof -
  let ?m = "smetric s" and ?P = "\<lambda>c. c \<noteq> CHR ''{'' \<and> c \<noteq> CHR '' ''"
  have m: "valid_name ?m" using assms by (simp add: line_ok_def)
  have name: "takeWhile ?P (?m @ c # r) = ?m" if "\<not> ?P c" for c r
    using valid_name_chars(1) [OF m] that by (subst takeWhile_append2) auto
  have g: "ParseG (FormatG (svalue s)) = svalue s"
    using assms by (intro ParseG_FormatG) (simp add: line_ok_def)
  show ?thesis
  proof (cases "slabels s")
    case Nil
    then have "sampleLine s = ?m @ CHR '' '' # FormatG (svalue s)"
      by (simp add: sampleLine_def writeTextLabels_def)
    with name Nil g show ?thesis by (simp add: parseLine_def Let_def)
  next
    case (Cons l ls)
    let ?t = "textLabels_loop 0 (l # ls) @ CHR ''}'' # CHR '' '' # FormatG (svalue s)"
    have shape: "sampleLine s = ?m @ CHR ''{'' # ?t"
      using Cons by (simp add: sampleLine_def writeTextLabels_def del: textLabels_loop.simps)
    have "CHR ''='' \<notin> set n" if "valid_name n" for n
      using valid_name_chars(1) [OF that] by blast
    then have "list_all (\<lambda>l. CHR ''='' \<notin> set (lname l)) (l # ls)"
      using assms Cons unfolding line_ok_def list_all_iff by simp
    moreover have len: "length ms \<le> length (textLabels_loop i ms)" for i ms
    proof (induction ms arbitrary: i)
      case (Cons l ms)
      show ?case using Cons.IH [of "Suc i"] by (cases i) auto
    qed simp
    have "length ls < length (CHR ''{'' # ?t)"
      using len [of "l # ls" 0] by (simp del: textLabels_loop.simps)
    ultimately have "readPairs (length (CHR ''{'' # ?t)) ?t = Some (l # ls, CHR '' '' # FormatG (svalue s))"
      by (rule readPairs_textLabels)
    with name [of "CHR ''{''" ?t] shape g Cons show ?thesis
      by (simp add: parseLine_def Let_def del: readPairs.simps textLabels_loop.simps)
  qed
qed

lemma sampleLine_no_newline:
  assumes "line_ok s"
  shows "CHR 0x0A \<notin> set (sampleLine s)"
proof -
  have v: "CHR 0x0A \<notin> set n" if "valid_name n" for n
    using valid_name_chars(1) [OF that] by blast
  have "CHR 0x0A \<notin> set (textLabels_loop i ls)" if "list_all (\<lambda>l. valid_name (lname l)) ls" for i ls
    using that by (induction ls arbitrary: i) (auto simp: escapeLabel_Replace Replace_no_newline dest: v)
  then show ?thesis
    using assms v FormatG_line(1) by (auto simp: line_ok_def sampleLine_def writeTextLabels_def)
qed

definition typeLine :: "string \<Rightarrow> string" where
  "typeLine m = ''# TYPE '' @ m @ '' gauge''"

text \<open>The lines of an exposition, read with the metric of the last TYPE line: every sample line
  must be of that metric.\<close>

fun typedLines :: "string \<Rightarrow> string list \<Rightarrow> bool" where
  "typedLines cur [] = True"
| "typedLines cur (l # ls) =
     (if HasPrefix l ''# TYPE '' then typedLines (takeWhile (\<lambda>c. c \<noteq> CHR '' '') (drop 7 l)) ls
      else if l = [] \<or> hd l = CHR ''#'' then typedLines cur ls
      else takeWhile (\<lambda>c. c \<noteq> CHR ''{'' \<and> c \<noteq> CHR '' '') l = cur \<and> typedLines cur ls)"

lemma typedLines_type:
  assumes "valid_name m"
  shows "typedLines cur (typeLine m # ls) \<longleftrightarrow> typedLines m ls"
proof -
  have "takeWhile (\<lambda>c. c \<noteq> CHR '' '') (m @ '' gauge'') = m"
    using valid_name_chars(1) [OF assms] by (subst takeWhile_append2) auto
  then show ?thesis by (simp add: typeLine_def)
qed

lemma typedLines_sample:
  assumes "valid_name m" and "c = CHR ''{'' \<or> c = CHR '' ''"
  shows "typedLines cur ((m @ c # r) # ls) \<longleftrightarrow> m = cur \<and> typedLines cur ls"
proof -
  have "takeWhile (\<lambda>c. c \<noteq> CHR ''{'' \<and> c \<noteq> CHR '' '') (m @ c # r) = m"
    using valid_name_chars(1) [OF assms(1)] assms(2) by (subst takeWhile_append2) auto
  moreover have "m \<noteq> []" "hd m \<noteq> CHR ''#''"
    using valid_name_chars [OF assms(1)] by (cases m; auto)+
  ultimately show ?thesis by (cases m) auto
qed

lemma metricLines_Split:
  assumes "line_ok s"
  shows "Split CHR 0x0A (metricLines prev (s # ss)) =
    (if smetric s \<noteq> prev then [typeLine (smetric s)] else [])
    @ sampleLine s # Split CHR 0x0A (metricLines (smetric s) ss)"
proof -
  have "CHR 0x0A \<notin> set (typeLine (smetric s))"
    using assms valid_name_chars(1) [of "smetric s" "CHR 0x0A"] by (auto simp: typeLine_def line_ok_def)
  note t = Split_append_sep [OF this] and l = Split_append_sep [OF sampleLine_no_newline [OF assms]]
  have shape: "metricLines prev (s # ss) = (if smetric s \<noteq> prev then typeLine (smetric s) @ [CHR 0x0A] else [])
      @ sampleLine s @ CHR 0x0A # metricLines (smetric s) ss"
    by (simp add: typeLine_def sampleLine_def)
  show ?thesis unfolding shape by (simp add: t l del: metricLines.simps)
qed

lemma sampleLine_hd: "line_ok s \<Longrightarrow> sampleLine s \<noteq> [] \<and> hd (sampleLine s) \<noteq> CHR ''#''"
  using valid_name_chars [of "smetric s"]
  by (cases "smetric s") (auto simp: line_ok_def sampleLine_def writeTextLabels_def)

lemma metricLines_samples:
  "list_all line_ok ss \<Longrightarrow>
   filter (\<lambda>l. l \<noteq> [] \<and> hd l \<noteq> CHR ''#'') (Split CHR 0x0A (metricLines prev ss)) = map sampleLine ss"
proof (induction ss arbitrary: prev)
  case (Cons s ss)
  then show ?case
    using sampleLine_hd [of s] by (simp add: metricLines_Split typeLine_def del: metricLines.simps)
qed simp

lemma metricLines_types:
  "list_all line_ok ss \<Longrightarrow>
   filter (\<lambda>l. HasPrefix l ''#'') (Split CHR 0x0A (metricLines prev ss))
     = map typeLine (tl (remdups_adj (prev # map smetric ss)))"
proof (induction ss arbitrary: prev)
  case (Cons s ss)
  have no: "\<not> HasPrefix (sampleLine s) ''#''"
    using sampleLine_hd [of s] Cons.prems by (cases "sampleLine s") auto
  have yes: "HasPrefix (typeLine m) ''#''" for m by (simp add: typeLine_def)
  let ?rs = "remdups_adj (smetric s # map smetric ss)"
  have rs: "?rs = smetric s # tl ?rs" by (rule remdups_adj_Cons_alt [symmetric])
  have "tl (remdups_adj (prev # smetric s # map smetric ss)) = (if smetric s = prev then tl ?rs else ?rs)"
    by simp
  moreover have "map typeLine ?rs = typeLine (smetric s) # map typeLine (tl ?rs)"
    by (metis list.map(2) rs)
  ultimately have "map typeLine (tl (remdups_adj (prev # smetric s # map smetric ss))) =
      (if smetric s \<noteq> prev then [typeLine (smetric s)] else []) @ map typeLine (tl ?rs)"
    by (simp del: remdups_adj.simps)
  moreover have "filter (\<lambda>l. HasPrefix l ''#'') (Split CHR 0x0A (metricLines prev (s # ss))) =
      (if smetric s \<noteq> prev then [typeLine (smetric s)] else []) @ map typeLine (tl ?rs)"
    using Cons no yes by (simp add: metricLines_Split del: metricLines.simps remdups_adj.simps)
  ultimately show ?case by (simp only: list.map)
qed simp

lemma typedLines_sampleLine:
  assumes "line_ok s"
  shows "typedLines cur (sampleLine s # ls) \<longleftrightarrow> smetric s = cur \<and> typedLines cur ls"
proof -
  obtain c r where "sampleLine s = smetric s @ c # r" "c = CHR ''{'' \<or> c = CHR '' ''"
    by (cases "slabels s") (auto simp: sampleLine_def writeTextLabels_def simp del: textLabels_loop.simps)
  with typedLines_sample show ?thesis using assms by (simp add: line_ok_def del: typedLines.simps)
qed

lemma typedLines_metricLines:
  assumes "list_all line_ok ss" and "cur = prev \<or> prev = []"
  shows "typedLines cur (Split CHR 0x0A (metricLines prev ss))"
  using assms
proof (induction ss arbitrary: cur prev)
  case (Cons s ss)
  then have ok: "line_ok s" "valid_name (smetric s)" "smetric s \<noteq> []"
    using valid_name_chars(2) by (auto simp: line_ok_def)
  show ?case
    using Cons ok by (auto simp: metricLines_Split typedLines_type typedLines_sampleLine
        simp del: metricLines.simps typedLines.simps)
qed simp

lemma parseExposition_metricLines:
  assumes "list_all line_ok samples"
  shows "parseExposition (metricLines [] samples) = Some (map (\<lambda>s. (smetric s, slabels s, svalue s)) samples)"
proof -
  have "those (map (parseLine \<circ> sampleLine) samples) = Some (map (\<lambda>s. (smetric s, slabels s, svalue s)) samples)"
    using assms by (intro those_map_Some) (simp add: list_all_iff parseLine_sampleLine)
  then show ?thesis by (simp add: parseExposition_def metricLines_samples [OF assms])
qed

section \<open>Properties\<close>

text \<open>\<open>sanitize\<close> returns a valid Prometheus name for every non-empty name, and changes
  exactly the names that are not valid (so it is idempotent).\<close>

theorem sanitize_names:
  "(valid_name (sanitize s) \<longleftrightarrow> s \<noteq> []) \<and> (sanitize s = s \<longleftrightarrow> s = [] \<or> valid_name s)
   \<and> sanitize (sanitize s) = sanitize s"
  using valid_sanitize [of s] sanitize_id [of s] sanitize_id [of "sanitize s"]
  by (cases s) (auto simp: sanitize_def)

text \<open>The samples on /metrics read back: parsing the exposition text gives the metric, the
  labels with their values (quotes, backslashes and newlines included) and the value of every
  sample, in order.\<close>

theorem metrics_roundtrip:
  assumes "list_all line_ok samples"
  shows "parseExposition (metricLines [] samples) = Some (map (\<lambda>s. (smetric s, slabels s, svalue s)) samples)"
  using assms by (rule parseExposition_metricLines)

text \<open>The comment lines of the exposition are one TYPE line per run of samples of the same
  metric, so a family has one TYPE line exactly when its samples are contiguous.\<close>

theorem metrics_type_lines:
  assumes "list_all line_ok samples"
  shows "filter (\<lambda>l. HasPrefix l ''#'') (Split CHR 0x0A (metricLines [] samples))
     = map (\<lambda>m. ''# TYPE '' @ m @ '' gauge'') (remdups_adj (map smetric samples))"
proof -
  have "tl (remdups_adj ([] # map smetric samples)) = remdups_adj (map smetric samples)"
    using assms valid_name_chars(2) by (cases samples) (auto simp: line_ok_def)
  then show ?thesis using metricLines_types [OF assms, of "[]"] by (simp add: typeLine_def)
qed

text \<open>The counter pattern matches exactly the values that end in S and one or more digits, and
  captures those digits.\<close>

theorem tokenValue_matches:
  "tokenValue s = Some ds \<longleftrightarrow> ds \<noteq> [] \<and> list_all is_digit ds \<and> (\<exists>p. s = p @ CHR ''S'' # ds)"
proof (induction s)
  case (Cons c cs)
  show ?case
  proof (cases "c = CHR ''S'' \<and> cs \<noteq> [] \<and> list_all is_digit cs")
    case True
    have noS: "\<nexists>p q. cs = p @ CHR ''S'' # q"
      using True by (auto simp: list_all_iff is_digit_def)
    have "(\<exists>p. c # cs = p @ CHR ''S'' # ds) \<longleftrightarrow> cs = ds"
    proof
      assume "\<exists>p. c # cs = p @ CHR ''S'' # ds"
      then obtain p where "c # cs = p @ CHR ''S'' # ds" by blast
      with noS show "cs = ds" by (cases p) auto
    qed (use True in auto)
    then show ?thesis using True by auto
  next
    case False
    have "(\<exists>p. c # cs = p @ CHR ''S'' # ds) \<and> ds \<noteq> [] \<and> list_all is_digit ds \<longleftrightarrow>
        (\<exists>p. cs = p @ CHR ''S'' # ds) \<and> ds \<noteq> [] \<and> list_all is_digit ds" (is "?l \<longleftrightarrow> ?r")
    proof
      assume ?l
      then obtain p where p: "c # cs = p @ CHR ''S'' # ds" "ds \<noteq> []" "list_all is_digit ds" by blast
      with False have "p \<noteq> []" by auto
      with p show ?r by (cases p) auto
    next
      assume ?r
      then obtain p where "cs = p @ CHR ''S'' # ds" "ds \<noteq> []" "list_all is_digit ds" by blast
      then show ?l by (auto intro: exI [of _ "c # p"])
    qed
    then show ?thesis using False Cons by auto
  qed
qed simp

text \<open>A member key \<open>suffix|k=v|k=v\<close> is taken apart into its suffix and its pairs, the names
  sanitized and the values as they are (a value may hold an equals sign).\<close>

theorem parseTokenMember_roundtrip:
  assumes "CHR ''|'' \<notin> set suffix"
    and "\<forall>(k, v) \<in> set kvs. k \<noteq> [] \<and> CHR ''='' \<notin> set k \<and> CHR ''|'' \<notin> set k \<and> CHR ''|'' \<notin> set v"
  shows "parseTokenMember (Join CHR ''|'' (suffix # map (\<lambda>(k, v). k @ CHR ''='' # v) kvs))
    = (suffix, map (\<lambda>(k, v). \<lparr>lname = sanitize k, lvalue = v\<rparr>) kvs)"
proof -
  let ?ps = "map (\<lambda>(k, v). k @ CHR ''='' # v) kvs"
  have "Split CHR ''|'' (Join CHR ''|'' (suffix # ?ps)) = suffix # ?ps"
    using assms by (intro Split_Join) auto
  moreover have "memberLabels ?ps = map (\<lambda>(k, v). \<lparr>lname = sanitize k, lvalue = v\<rparr>) kvs"
    using assms(2) by (induction kvs) (auto simp: memberLabels_def Cut_found)
  ultimately show ?thesis by (simp add: parseTokenMember_def)
qed

theorem parseTokenMember_witness:
  "parseTokenMember ''total|vs=a=b|pool name=p1''
     = (''total'', [\<lparr>lname = ''vs'', lvalue = ''a=b''\<rparr>, \<lparr>lname = ''pool_name'', lvalue = ''p1''\<rparr>])"
  using parseTokenMember_roundtrip [of "''total''" "[(''vs'', ''a=b''), (''pool name'', ''p1'')]"]
  by (simp add: sanitize_def is_lower_def is_upper_def is_digit_def)

definition demo_samples :: "esample list" where
  "demo_samples =
     [\<lparr>smetric = ''f5tmm_a'', slabels = [\<lparr>lname = ''name'', lvalue = [CHR 0x22, CHR 0x5C, CHR 0x0A]\<rparr>],
       svalue = FInt 12, sglobal = False\<rparr>,
      \<lparr>smetric = ''f5tmm_a'', slabels = [], svalue = FPInf, sglobal = False\<rparr>,
      \<lparr>smetric = ''f5tmm_up'', slabels = [], svalue = FInt 1, sglobal = False\<rparr>]"

lemma demo_samples_ok: "list_all line_ok demo_samples"
  by (simp add: demo_samples_def line_ok_def name_start_def is_lower_def is_digit_def round53_def)

theorem metrics_roundtrip_witness:
  "parseExposition (metricLines [] demo_samples)
     = Some (map (\<lambda>s. (smetric s, slabels s, svalue s)) demo_samples)"
  by (rule metrics_roundtrip [OF demo_samples_ok])

theorem metrics_type_lines_witness:
  "filter (\<lambda>l. HasPrefix l ''#'') (Split CHR 0x0A (metricLines [] demo_samples))
     = [''# TYPE f5tmm_a gauge'', ''# TYPE f5tmm_up gauge'']"
  using metrics_type_lines [OF demo_samples_ok] by (simp add: demo_samples_def)

end
