(* ===== verification/Tokens.thy ===== *)
theory Tokens
  imports Redis ExpText "HOL-Library.Product_Lexorder"
begin

text \<open>
  The iRule token counters of cmd/tmm-stat-exporter/main.go: the exporter's state, the DSSM error
  log, and \<open>collectTokens\<close>. The outside world is a record of functions: the content of a file
  (or the text of the error), whether the client certificate is there, the outcome of the n-th TLS
  dial of the process, and the texts of the errors. \<open>None\<close> is a panic.
\<close>

section \<open>State and world\<close>

record dssmConfig =
  daddr :: string
  dcertDir :: string
  dserverName :: string
  dsubtable :: string
  ddb :: int

record exporter =
  esegments :: "string list"
  etables :: "string list"
  eextra :: "elabel list"
  erwURL :: string
  edssm :: dssmConfig
  dssmLastErr :: string
  elog :: "string list"
  edials :: nat

record world =
  wReadFile :: "string \<Rightarrow> string + bytes"
  wCertPresent :: "string \<Rightarrow> bool"
  wDial :: "nat \<Rightarrow> string + redisClient"
  wRedisErr :: "redis_error \<Rightarrow> string"

definition enabled :: "world \<Rightarrow> dssmConfig \<Rightarrow> bool" where
  "enabled w d =
     (if daddr d = [] \<or> dcertDir d = [] \<or> dsubtable d = [] then False else wCertPresent w (dcertDir d))"

section \<open>The error log\<close>

definition dssmError :: "string \<Rightarrow> exporter \<Rightarrow> exporter" where
  "dssmError msg e =
     (if msg \<noteq> dssmLastErr e
      then e\<lparr>elog := elog e @ [''dssm token export disabled: '' @ msg], dssmLastErr := msg\<rparr> else e)"

definition clearDSSMError :: "exporter \<Rightarrow> exporter" where
  "clearDSSMError e =
     (if dssmLastErr e \<noteq> []
      then e\<lparr>elog := elog e @ [''dssm token export: recovered, exporting token counters''],
             dssmLastErr := []\<rparr>
      else e)"

section \<open>The collector\<close>

definition dialRedis :: "world \<Rightarrow> exporter \<Rightarrow> ((string + redisClient) \<times> exporter) option" where
  "dialRedis w e =
     (let e' = e\<lparr>edials := Suc (edials e)\<rparr> in
      case wDial w (edials e) of
        Inl err \<Rightarrow> Some (Inl err, e')
      | Inr c \<Rightarrow>
          (case dialSelect c (ddb (edssm e)) of
             None \<Rightarrow> None
           | Some (Inl err) \<Rightarrow>
               Some (Inl (''select '' @ FormatInt (ddb (edssm e)) @ '': '' @ wRedisErr w err), e')
           | Some (Inr c') \<Rightarrow> Some (Inr c', e')))"

text \<open>One key whose member and value are known.\<close>

definition tokenSample :: "string \<Rightarrow> string \<Rightarrow> esample option" where
  "tokenSample member raw =
     (case tokenValue raw of
        None \<Rightarrow> None
      | Some ds \<Rightarrow>
          (let val = ParseFloat_digits ds in
           if val = FPInf then None
           else (let (suffix, lbls) = parseTokenMember member in
                 if suffix = [] then None
                 else Some \<lparr>smetric = ''f5tmm_token_'' @ sanitize suffix, slabels = lbls,
                            svalue = val, sglobal = True\<rparr>)))"

fun tokenLoop :: "string \<Rightarrow> string list \<Rightarrow> redisClient \<Rightarrow> esample list \<Rightarrow> esample list option" where
  "tokenLoop subtable [] c out = Some out"
| "tokenLoop subtable (key # keys) c out =
     (case Index key subtable of
        None \<Rightarrow> tokenLoop subtable keys c out
      | Some idx \<Rightarrow>
          (let member = drop (idx + length subtable) key in
           if member = [] then tokenLoop subtable keys c out
           else (case redis_get c key of
                   None \<Rightarrow> None
                 | Some (None, c') \<Rightarrow> tokenLoop subtable keys c' out
                 | Some (Some raw, c') \<Rightarrow>
                     (case tokenSample member raw of
                        None \<Rightarrow> tokenLoop subtable keys c' out
                      | Some s \<Rightarrow> tokenLoop subtable keys c' (out @ [s])))))"

definition sortTokens :: "esample list \<Rightarrow> esample list" where
  "sortTokens = sort_key (\<lambda>s. (smetric s, labelKey (slabels s)))"

definition collectTokens :: "world \<Rightarrow> exporter \<Rightarrow> (esample list \<times> exporter) option" where
  "collectTokens w e =
     (if \<not> enabled w (edssm e) then Some ([], e)
      else (case dialRedis w e of
        None \<Rightarrow> None
      | Some (Inl err, e1) \<Rightarrow> Some ([], dssmError (''dial: '' @ err) e1)
      | Some (Inr c, e1) \<Rightarrow>
          (case scanMatch c (''*'' @ dsubtable (edssm e) @ ''*'') 200 of
             Done (Some err, _, _) \<Rightarrow> Some ([], dssmError (''scan: '' @ wRedisErr w err) e1)
           | Done (None, keys, c') \<Rightarrow>
               (case tokenLoop (dsubtable (edssm e)) keys c' [] of
                  None \<Rightarrow> None
                | Some out \<Rightarrow>
                    (let out = sortTokens out
                     in Some (out, if out \<noteq> [] then clearDSSMError e1 else e1)))
           | _ \<Rightarrow> None)))"

section \<open>Lemmas\<close>

text \<open>\<open>sort.Slice\<close> on the metric and the label key.\<close>

interpretation tok: slice_sort sortTokens "\<lambda>s. (smetric s, labelKey (slabels s))"
  by unfold_locales (simp_all add: sortTokens_def)

lemma ParseFloat_digits_valid: "valid_f64 (ParseFloat_digits ds)"
  by (simp add: ParseFloat_digits_def to_f64_valid)

lemma valid_name_append: "valid_name m \<Longrightarrow> list_all (\<lambda>d. name_start d \<or> is_digit d) n \<Longrightarrow> valid_name (m @ n)"
  by (cases m) auto

lemma sanitize_chars: "list_all (\<lambda>d. name_start d \<or> is_digit d) (sanitize s)"
  using valid_sanitize [of s] by (cases "sanitize s"; cases s) (auto simp: sanitize_def)

lemma memberLabels_names: "list_all (\<lambda>l. valid_name (lname l)) (memberLabels ps)"
  by (induction ps) (auto simp: memberLabels_def valid_sanitize split: prod.splits if_splits)

lemma tokenSample_ok:
  assumes "tokenSample member raw = Some s"
  shows "line_ok s" and "sglobal s"
proof -
  have p: "valid_name (''f5tmm_token_'' @ sanitize x)" for x
  proof (rule valid_name_append)
    show "valid_name ''f5tmm_token_''" by (simp add: name_start_def is_lower_def is_digit_def)
  qed (rule sanitize_chars)
  show "line_ok s" "sglobal s"
    using assms p memberLabels_names ParseFloat_digits_valid
    by (auto simp: tokenSample_def line_ok_def parseTokenMember_def Let_def
        split: option.splits if_splits)
qed

lemma tokenLoop_ok:
  "tokenLoop sub keys c out = Some out' \<Longrightarrow> list_all (\<lambda>s. line_ok s \<and> sglobal s) out \<Longrightarrow>
   list_all (\<lambda>s. line_ok s \<and> sglobal s) out'"
proof (induction sub keys c out rule: tokenLoop.induct)
  case (2 sub key keys c out)
  show ?case
  proof (cases "Index key sub")
    case (Some idx)
    let ?m = "drop (idx + length sub) key"
    show ?thesis
    proof (cases "?m = []")
      case False
      obtain v c' where get: "redis_get c key = Some (v, c')"
        using 2 Some False by (cases "redis_get c key") (auto simp: Let_def)
      show ?thesis
      proof (cases v)
        case None
        then show ?thesis using 2 Some False get by (simp add: Let_def)
      next
        case (Some raw)
        show ?thesis
          by (cases "tokenSample ?m raw")
             (use 2 \<open>Index key sub = Some idx\<close> False get Some in \<open>simp_all add: Let_def tokenSample_ok\<close>)
      qed
    qed (use 2 Some in \<open>simp add: Let_def\<close>)
  qed (use 2 in simp)
qed simp

lemma dssmError_frame [simp]:
  "esegments (dssmError m e) = esegments e" "etables (dssmError m e) = etables e"
  "eextra (dssmError m e) = eextra e" "erwURL (dssmError m e) = erwURL e" "edssm (dssmError m e) = edssm e"
  "dssmLastErr (dssmError m e) = m"
  by (simp_all add: dssmError_def)

lemma clearDSSMError_frame [simp]:
  "esegments (clearDSSMError e) = esegments e" "etables (clearDSSMError e) = etables e"
  "eextra (clearDSSMError e) = eextra e" "erwURL (clearDSSMError e) = erwURL e"
  "edssm (clearDSSMError e) = edssm e" "dssmLastErr (clearDSSMError e) = []"
  by (simp_all add: clearDSSMError_def)

text \<open>What a call changes: the error state, the log and the number of dials.\<close>

definition same_config :: "exporter \<Rightarrow> exporter \<Rightarrow> bool" where
  "same_config e e' \<longleftrightarrow> esegments e' = esegments e \<and> etables e' = etables e \<and> eextra e' = eextra e
     \<and> erwURL e' = erwURL e \<and> edssm e' = edssm e"

lemma dialRedis_config: "dialRedis w e = Some (r, e') \<Longrightarrow> same_config e e'"
  by (auto simp: dialRedis_def same_config_def Let_def split: sum.splits option.splits)

lemma collectTokens_config: "collectTokens w e = Some (out, e') \<Longrightarrow> same_config e e'"
  by (auto simp: collectTokens_def Let_def same_config_def
      dest!: dialRedis_config
      split: if_splits option.splits sum.splits run.splits prod.splits)

lemma collectTokens_ok:
  assumes "collectTokens w e = Some (out, e')"
  shows "list_all (\<lambda>s. line_ok s \<and> sglobal s) out"
    and "sorted (map (\<lambda>s. (smetric s, labelKey (slabels s))) out)"
proof -
  have "list_all P (sortTokens xs) \<longleftrightarrow> list_all P xs" for P xs
    by (simp add: list_all_iff)
  then show "list_all (\<lambda>s. line_ok s \<and> sglobal s) out"
    using assms tokenLoop_ok [where out = "[]"]
    by (auto simp: collectTokens_def Let_def split: if_splits option.splits sum.splits run.splits prod.splits)
  show "sorted (map (\<lambda>s. (smetric s, labelKey (slabels s))) out)"
    using assms tok.sorts
    by (auto simp: collectTokens_def Let_def split: if_splits option.splits sum.splits run.splits prod.splits)
qed

section \<open>The collector against a server\<close>

text \<open>The member of a key: what follows the subtable marker; a key without marker or member is
  not fetched.\<close>

definition memberOf :: "string \<Rightarrow> string \<Rightarrow> string option" where
  "memberOf sub key =
     (case Index key sub of None \<Rightarrow> None
      | Some i \<Rightarrow> (let m = drop (i + length sub) key in if m = [] then None else Some m))"

definition fetched :: "string \<Rightarrow> string list \<Rightarrow> string list" where
  "fetched sub keys = filter (\<lambda>k. memberOf sub k \<noteq> None) keys"

text \<open>The counters of the fetched keys, given the reply to each.\<close>

fun counters :: "string \<Rightarrow> (string \<times> reply) list \<Rightarrow> esample list" where
  "counters sub [] = []"
| "counters sub ((key, r) # krs) =
     (case (memberOf sub key, r) of
        (Some m, RStr raw) \<Rightarrow> (case tokenSample m raw of Some s \<Rightarrow> [s] | None \<Rightarrow> []) @ counters sub krs
      | _ \<Rightarrow> counters sub krs)"

lemma redis_get_reply:
  assumes "rflushes c = Suc n" and "rin c = encodeReply r @ s" and "reply_ok r"
  shows "redis_get c key = Some (case r of RStr v \<Rightarrow> Some v | _ \<Rightarrow> None,
     c\<lparr>rin := s, rout := rout c @ request [''GET'', key], rflushes := n\<rparr>)"
  using redis_do_reply [OF assms] by (cases r) (simp_all add: redis_get_def)

lemma tokenLoop_skip: "memberOf sub key = None \<Longrightarrow> tokenLoop sub (key # keys) c out = tokenLoop sub keys c out"
  by (auto simp: memberOf_def Let_def split: option.splits if_splits)

lemma tokenLoop_fetch:
  assumes "memberOf sub key = Some m"
  shows "tokenLoop sub (key # keys) c out =
    (case redis_get c key of None \<Rightarrow> None
     | Some (v, c') \<Rightarrow> tokenLoop sub keys c'
         (out @ (case v of Some raw \<Rightarrow> (case tokenSample m raw of Some s \<Rightarrow> [s] | None \<Rightarrow> []) | None \<Rightarrow> [])))"
proof -
  obtain i where i: "Index key sub = Some i" "m = drop (i + length sub) key" "m \<noteq> []"
    using assms by (auto simp: memberOf_def Let_def split: option.splits if_splits)
  then show ?thesis by (simp add: Let_def split: option.split)
qed

lemma tokenLoop_replies:
  assumes "length rs = length (fetched sub keys)" and "list_all reply_ok rs"
    and "rin c = concat (map encodeReply rs) @ s" and "length rs \<le> rflushes c"
  shows "tokenLoop sub keys c out = Some (out @ counters sub (zip (fetched sub keys) rs))"
  using assms
proof (induction keys arbitrary: rs c out)
  case (Cons key keys)
  show ?case
  proof (cases "memberOf sub key")
    case None
    then show ?thesis using Cons by (simp add: tokenLoop_skip fetched_def del: tokenLoop.simps)
  next
    case (Some m)
    then obtain r rs' where rs: "rs = r # rs'" using Cons.prems(1) by (cases rs) (auto simp: fetched_def)
    then obtain n where n: "rflushes c = Suc n" using Cons.prems(4) by (cases "rflushes c") auto
    let ?c = "c\<lparr>rin := concat (map encodeReply rs') @ s, rout := rout c @ request [''GET'', key], rflushes := n\<rparr>"
    have get: "redis_get c key = Some (case r of RStr v \<Rightarrow> Some v | _ \<Rightarrow> None, ?c)"
      using Cons.prems rs n by (intro redis_get_reply) simp_all
    have ih: "tokenLoop sub keys ?c out' = Some (out' @ counters sub (zip (fetched sub keys) rs'))" for out'
      using Cons.prems rs n Some by (intro Cons.IH) (simp_all add: fetched_def)
    show ?thesis
      unfolding tokenLoop_fetch [OF Some] get rs using Some ih
      by (cases r) (simp_all add: fetched_def)
  qed
qed (simp add: fetched_def)

text \<open>Repeated collections.\<close>

fun collectTimes :: "nat \<Rightarrow> world \<Rightarrow> exporter \<Rightarrow> exporter option" where
  "collectTimes 0 w e = Some e"
| "collectTimes (Suc n) w e =
     (case collectTokens w e of None \<Rightarrow> None | Some (_, e') \<Rightarrow> collectTimes n w e')"

lemma collectTokens_outage:
  "enabled w (edssm e) \<Longrightarrow> wDial w (edials e) = Inl err \<Longrightarrow>
   collectTokens w e = Some ([], dssmError (''dial: '' @ err) (e\<lparr>edials := Suc (edials e)\<rparr>))"
  by (simp add: collectTokens_def dialRedis_def)

lemma collectTimes_outage:
  assumes "\<forall>i. wDial w i = Inl err"
  shows "enabled w (edssm e) \<Longrightarrow> dssmLastErr e = ''dial: '' @ err \<Longrightarrow>
    map_option elog (collectTimes n w e) = Some (elog e)"
proof (induction n arbitrary: e)
  case (Suc n)
  have "collectTokens w e = Some ([], e\<lparr>edials := Suc (edials e)\<rparr>)"
    using collectTokens_outage [OF Suc.prems(1)] assms Suc.prems(2) by (simp add: dssmError_def)
  moreover have "map_option elog (collectTimes n w (e\<lparr>edials := Suc (edials e)\<rparr>)) = Some (elog e)"
    using Suc.IH [of "e\<lparr>edials := Suc (edials e)\<rparr>"] Suc.prems by simp
  ultimately show ?case by simp
qed simp

text \<open>The selection of a database takes one flush and the reply.\<close>

lemma dialSelect_OK:
  assumes "rin c = (if db = 0 then [] else ''+OK'' @ crlf) @ rest"
    and "(if db = 0 then 0 else 1) \<le> rflushes c"
  shows "\<exists>c0. dialSelect c db = Some (Inr c0) \<and> rin c0 = rest
    \<and> rflushes c0 = rflushes c - (if db = 0 then 0 else 1)"
proof (cases "db = 0")
  case True
  then show ?thesis using assms by (simp add: dialSelect_def)
next
  case False
  have "readReply (Suc k) (''+OK'' @ crlf @ rest) = Ok (RStr ''OK'') rest" for k
    using readLine_typed [of "''OK''" "CHR ''+''" rest] by (simp add: crlf_def)
  then show ?thesis using assms False by (simp add: dialSelect_def redis_do_def)
qed

section \<open>Properties\<close>

text \<open>C37: what the token collector returns is fit to publish, whatever the server sends: valid
  metric and label names, every series marked as shared by the cluster, ordered by metric and
  label set. A call changes the error state and the log only.\<close>

theorem collectTokens_samples:
  "case collectTokens w e of
     None \<Rightarrow> True
   | Some (out, e') \<Rightarrow>
       list_all (\<lambda>s. valid_name (smetric s) \<and> list_all (\<lambda>l. valid_name (lname l)) (slabels s) \<and> sglobal s) out
       \<and> sorted (map (\<lambda>s. (smetric s, labelKey (slabels s))) out)
       \<and> same_config e e'"
proof (cases "collectTokens w e")
  case (Some r)
  obtain out e' where r: "r = (out, e')" by fastforce
  show ?thesis
    using collectTokens_ok [OF Some [unfolded r]] collectTokens_config [OF Some [unfolded r]] Some r
    by (auto simp: line_ok_def list_all_iff)
qed simp

text \<open>C9: against a DSSM that answers the selection of a database other than 0 with OK, the scan in
  rounds and then each GET, the collector returns the counter of every key that holds one: the
  metric and labels from the member, the value from the digits, sorted. The error state is cleared
  when at least one counter is returned, and kept when there is none.\<close>

theorem collectTokens_end_to_end:
  assumes "enabled w (edssm e)" and "wDial w (edials e) = Inr c"
    and "\<forall>r \<in> set rounds. fst r \<noteq> ''0'' \<and> reply_ok (scanReply r)" and "reply_ok (scanReply (''0'', ks))"
    and "keys = concat (map snd rounds) @ ks" and "gets = fetched (dsubtable (edssm e)) keys"
    and "length rs = length gets" and "list_all reply_ok rs"
    and "rin c = (if ddb (edssm e) = 0 then [] else ''+OK'' @ crlf)
           @ scanStream (rounds @ [(''0'', ks)]) @ concat (map encodeReply rs) @ s"
    and "(if ddb (edssm e) = 0 then 0 else 1) + length rounds + 1 + length rs \<le> rflushes c"
  shows "collectTokens w e =
    (let out = sortTokens (counters (dsubtable (edssm e)) (zip gets rs)); e1 = e\<lparr>edials := Suc (edials e)\<rparr>
     in Some (out, if out \<noteq> [] then clearDSSMError e1 else e1))"
proof -
  let ?sub = "dsubtable (edssm e)"
  obtain c0 where c0: "dialSelect c (ddb (edssm e)) = Some (Inr c0)"
    "rin c0 = scanStream (rounds @ [(''0'', ks)]) @ concat (map encodeReply rs) @ s"
    "length rounds + 1 + length rs \<le> rflushes c0"
    using dialSelect_OK [of c "ddb (edssm e)"] assms(9,10) by fastforce
  have dial: "dialRedis w e = Some (Inr c0, e\<lparr>edials := Suc (edials e)\<rparr>)"
    using assms(2) c0(1) by (simp add: dialRedis_def)
  have fl: "length rounds < rflushes c0" using c0(3) by simp
  obtain c' where scan: "scanMatch c0 (''*'' @ ?sub @ ''*'') 200 = Done (None, keys, c')"
    and c': "rin c' = concat (map encodeReply rs) @ s" "rflushes c' = rflushes c0 - Suc (length rounds)"
    using scanMatch_rounds [OF assms(3,4) c0(2) fl, of "''*'' @ ?sub @ ''*''" 200] assms(5) by auto
  have "tokenLoop ?sub keys c' [] = Some ([] @ counters ?sub (zip (fetched ?sub keys) rs))"
    using assms c' c0(3) by (intro tokenLoop_replies) simp_all
  then show ?thesis using assms(1,6) dial scan by (simp add: collectTokens_def Let_def)
qed

text \<open>An outage is logged once: while every dial fails with the same text, any number of
  further collections logs nothing more.\<close>

theorem outage_logged_once:
  assumes "enabled w (edssm e)" and "\<forall>i. wDial w i = Inl err"
  shows "map_option elog (collectTimes (Suc n) w e) =
    Some (if dssmLastErr e = ''dial: '' @ err then elog e
          else elog e @ [''dssm token export disabled: dial: '' @ err])"
proof -
  let ?e = "dssmError (''dial: '' @ err) (e\<lparr>edials := Suc (edials e)\<rparr>)"
  have "collectTokens w e = Some ([], ?e)"
    using assms by (intro collectTokens_outage) simp_all
  then have "map_option elog (collectTimes (Suc n) w e) = map_option elog (collectTimes n w ?e)" by simp
  also have "\<dots> = Some (elog ?e)" using assms by (intro collectTimes_outage) simp_all
  also have "elog ?e = (if dssmLastErr e = ''dial: '' @ err then elog e
      else elog e @ [''dssm token export disabled: dial: '' @ err])"
    by (simp add: dssmError_def)
  finally show ?thesis .
qed

definition demo_exporter :: exporter where
  "demo_exporter = \<lparr>esegments = [''/var/tmstat/blade/tmm0''], etables = [], eextra = [], erwURL = [],
     edssm = \<lparr>daddr = ''dssm:6379'', dcertDir = ''/tls'', dserverName = ''dssm-svc'', dsubtable = ''TMMTOK'', ddb = 0\<rparr>,
     dssmLastErr = ''dial: timeout'', elog = [], edials = 0\<rparr>"

definition demo_dssm :: redisClient where
  "demo_dssm = \<lparr>rin = scanStream [(''0'', [''h1TMMTOK'', ''h2TMMTOKtotal|vs=web''])]
       @ encodeReply (RStr ''V1S0065''), rout = [], rflushes = 2\<rparr>"

definition demo_world :: "(nat \<Rightarrow> string + redisClient) \<Rightarrow> world" where
  "demo_world dial = \<lparr>wReadFile = (\<lambda>_. Inl ''no such file''), wCertPresent = (\<lambda>_. True), wDial = dial,
     wRedisErr = (\<lambda>_. ''error'')\<rparr>"

theorem collectTokens_end_to_end_witness:
  "map_option fst (collectTokens (demo_world (\<lambda>_. Inr demo_dssm)) demo_exporter) =
    Some [\<lparr>smetric = ''f5tmm_token_total'', slabels = [\<lparr>lname = ''vs'', lvalue = ''web''\<rparr>],
           svalue = FInt 65, sglobal = True\<rparr>]"
proof -
  let ?w = "demo_world (\<lambda>_. Inr demo_dssm)" and ?ks = "[''h1TMMTOK'', ''h2TMMTOKtotal|vs=web'']"
  have f: "fetched ''TMMTOK'' ?ks = [''h2TMMTOKtotal|vs=web'']"
    by (simp add: fetched_def memberOf_def)
  have c: "counters ''TMMTOK'' (zip [''h2TMMTOKtotal|vs=web''] [RStr ''V1S0065'']) =
      [\<lparr>smetric = ''f5tmm_token_total'', slabels = [\<lparr>lname = ''vs'', lvalue = ''web''\<rparr>],
        svalue = FInt 65, sglobal = True\<rparr>]"
    by (simp add: memberOf_def tokenSample_def parseTokenMember_def memberLabels_def sanitize_def
        is_lower_def is_digit_def ParseFloat_digits_def digits_val_def digit_val_def to_f64_small)
  have "collectTokens ?w demo_exporter =
    (let out = sortTokens (counters ''TMMTOK'' (zip [''h2TMMTOKtotal|vs=web''] [RStr ''V1S0065'']));
         e1 = demo_exporter\<lparr>edials := 1\<rparr>
     in Some (out, if out \<noteq> [] then clearDSSMError e1 else e1))"
    using collectTokens_end_to_end [of ?w demo_exporter demo_dssm "[]" ?ks ?ks
        "[''h2TMMTOKtotal|vs=web'']" "[RStr ''V1S0065'']" "[]"] f
    by (simp add: demo_exporter_def demo_dssm_def demo_world_def enabled_def scanReply_def)
  then show ?thesis unfolding c by (simp add: sortTokens_def Let_def)
qed

theorem outage_logged_once_witness:
  "map_option elog (collectTimes (Suc 4) (demo_world (\<lambda>_. Inl ''refused'')) demo_exporter) =
    Some [''dssm token export disabled: dial: refused'']"
  using outage_logged_once [of "demo_world (\<lambda>_. Inl ''refused'')" demo_exporter "''refused''" 4]
  by (simp add: demo_exporter_def demo_world_def enabled_def del: collectTimes.simps)

end
