(* ===== verification/TmSchema.thy ===== *)
theory TmSchema
  imports TmBytes
begin

text \<open>
  The schema reader of \<open>internal/tmstat/tmstat.go\<close>: columns, tables, segments, the row
  accessors, \<open>Parse\<close>, \<open>loadSchema\<close> and \<open>walkSlabRows\<close>. The shared \<open>*Table\<close> values live in
  \<open>tables\<close>, a store whose \<open>i\<close>-th cell is the \<open>i\<close>-th table allocated (the Go slice \<open>order\<close>);
  the maps \<open>byName\<close> and \<open>byID\<close> hold indices into it, as the Go maps hold pointers. A
  panic (an index or slice out of range, a nil pointer) is \<open>None\<close>; the lemmas show that parsing
  never reaches one. Lengths and offsets are \<open>nat\<close>: the code's \<open>int\<close> values are sums of
  slice lengths and 16-bit fields, far from the 64-bit limit.
\<close>

section \<open>Columns, tables, segments, rows\<close>

definition slabHdrSize :: nat where "slabHdrSize = 64"
definition lineSize :: nat where "lineSize = 64"
definition tidTable :: nat where "tidTable = 0"
definition tidColumn :: nat where "tidColumn = 1"
definition typeSignedInt :: nat where "typeSignedInt = 1"
definition typeUnsignedInt :: nat where "typeUnsignedInt = 2"
definition typeString :: nat where "typeString = 3"
definition typeAddress :: nat where "typeAddress = 6"
definition ruleKey :: nat where "ruleKey = 0"
definition ruleCounter :: nat where "ruleCounter = 2"

lemmas tm_consts = slabHdrSize_def lineSize_def tidTable_def tidColumn_def typeSignedInt_def
  typeUnsignedInt_def typeString_def typeAddress_def ruleKey_def ruleCounter_def

record column =
  colName :: string
  colOffset :: nat
  colSize :: nat
  colType :: nat
  colRule :: nat
  colDropped :: bool

definition IsKey :: "column \<Rightarrow> bool" where
  "IsKey c \<longleftrightarrow> colRule c = ruleKey \<and> \<not> colDropped c"

definition IsCounter :: "column \<Rightarrow> bool" where
  "IsCounter c \<longleftrightarrow> colRule c = ruleCounter"

definition IsNumeric :: "column \<Rightarrow> bool" where
  "IsNumeric c \<longleftrightarrow> colType c = typeSignedInt \<or> colType c = typeUnsignedInt"

definition IsAddress :: "column \<Rightarrow> bool" where
  "IsAddress c \<longleftrightarrow> colType c = typeAddress"

record table =
  tabName :: string
  tabID :: nat
  tabRows :: nat
  tabRowSize :: nat
  tabCols :: nat
  tabColumns :: "column list"

record segment =
  segData :: bytes
  slabSize :: nat
  slabCount :: nat
  tables :: "table list"
  byName :: "string \<rightharpoonup> nat"
  byID :: "nat \<rightharpoonup> nat"

record row =
  rowTbl :: table
  rowRaw :: bytes

datatype tm_error = NotTMSS | BadSlabSize nat | NoTables | NoSuchTable string

definition col :: "row \<Rightarrow> string \<Rightarrow> column option" where
  "col r name = find (\<lambda>c. colName c = name) (tabColumns (rowTbl r))"

definition Uint :: "row \<Rightarrow> string \<Rightarrow> 64 word" where
  "Uint r name = (case col r name of None \<Rightarrow> 0 | Some c \<Rightarrow> leUint (rowRaw r) (colOffset c) (colSize c))"

definition Str :: "row \<Rightarrow> string \<Rightarrow> string option" where
  "Str r name = (case col r name of None \<Rightarrow> Some [] | Some c \<Rightarrow> cstr (rowRaw r) (colOffset c) (colSize c))"

section \<open>The bootstrap tables\<close>

definition meta_col :: "string \<Rightarrow> nat \<Rightarrow> nat \<Rightarrow> nat \<Rightarrow> column" where
  "meta_col name off sz ty =
     \<lparr>colName = name, colOffset = off, colSize = sz, colType = ty, colRule = 0, colDropped = False\<rparr>"

definition meta_table :: "string \<Rightarrow> nat \<Rightarrow> column list \<Rightarrow> table" where
  "meta_table name tid cs =
     \<lparr>tabName = name, tabID = tid, tabRows = 0, tabRowSize = 0, tabCols = 0, tabColumns = cs\<rparr>"

definition bootstrapTable :: "nat \<Rightarrow> table option" where
  "bootstrapTable tid =
     (if tid = tidTable then
        Some (meta_table ''.table'' tidTable
          [meta_col ''name'' 0 49 typeString,
           meta_col ''rows'' 53 4 typeUnsignedInt,
           meta_col ''rowsz'' 57 2 typeUnsignedInt,
           meta_col ''cols'' 59 2 typeUnsignedInt])
      else if tid = tidColumn then
        Some (meta_table ''.column'' tidColumn
          [meta_col ''name'' 0 49 typeString,
           meta_col ''tableid'' 49 2 typeUnsignedInt,
           meta_col ''offset'' 51 2 typeUnsignedInt,
           meta_col ''size'' 53 2 typeUnsignedInt,
           meta_col ''type'' 55 1 typeUnsignedInt,
           meta_col ''rule'' 56 2 typeUnsignedInt,
           meta_col ''dropped'' 58 1 typeUnsignedInt])
      else None)"

section \<open>Walking the slabs\<close>

definition magic :: string where
  "magic = ''TMSS''"

definition is_magic :: "bytes \<Rightarrow> bool" where
  "is_magic b \<longleftrightarrow> string_of_bytes b = magic"

text \<open>\<open>binary.LittleEndian.Uint16\<close> panics on fewer than two bytes.\<close>

fun Uint16le :: "bytes \<Rightarrow> nat option" where
  "Uint16le (x # y # _) = Some (unat x + 256 * unat y)"
| "Uint16le _ = None"

text \<open>
  The callback \<open>fn\<close> never influences the walk, so \<open>walkSlabRows\<close> returns the rows it is
  called with, in order; \<open>got\<close> is the length of that list. The inner loop says whether it
  returned from the whole walk.
\<close>

fun walkRows :: "bytes \<Rightarrow> nat \<Rightarrow> nat \<Rightarrow> int \<Rightarrow> nat list \<Rightarrow> bytes list \<Rightarrow> (bool \<times> bytes list) option" where
  "walkRows data base stride maxRows [] acc = Some (False, acc)"
| "walkRows data base stride maxRows (r # rs) acc =
     (if 0 \<le> maxRows \<and> maxRows \<le> int (length acc) then Some (True, acc)
      else (let off = base + slabHdrSize + r * stride in
        if length data < off + stride then Some (True, acc)
        else do {
          raw \<leftarrow> slice_expr data off (off + stride);
          walkRows data base stride maxRows rs (acc @ [raw])
        }))"

fun walkSlabs :: "segment \<Rightarrow> nat \<Rightarrow> int \<Rightarrow> nat list \<Rightarrow> bytes list \<Rightarrow> bytes list option" where
  "walkSlabs s tableid maxRows [] acc = Some acc"
| "walkSlabs s tableid maxRows (sl # sls) acc =
     (let base = sl * slabSize s; data = segData s in
      if length data < base + slabHdrSize then walkSlabs s tableid maxRows sls acc
      else do {
        m \<leftarrow> slice_expr data base (base + 4);
        if \<not> is_magic m then walkSlabs s tableid maxRows sls acc
        else do {
          tid \<leftarrow> slice_expr data (base + 4) (length data) \<bind> Uint16le;
          if tid \<noteq> tableid then walkSlabs s tableid maxRows sls acc
          else do {
            lines \<leftarrow> slice_expr data (base + 6) (length data) \<bind> Uint16le;
            let stride = lines * lineSize;
            if stride \<le> 0 then walkSlabs s tableid maxRows sls acc
            else do {
              let perSlab = (slabSize s - slabHdrSize) div stride;
              (stop, acc') \<leftarrow> walkRows data base stride maxRows [0..<perSlab] acc;
              if stop then Some acc' else walkSlabs s tableid maxRows sls acc'
            }
          }
        }
      })"

definition walkSlabRows :: "segment \<Rightarrow> nat \<Rightarrow> int \<Rightarrow> bytes list option" where
  "walkSlabRows s tableid maxRows = walkSlabs s tableid maxRows [0..<slabCount s] []"

section \<open>loadSchema and Parse\<close>

text \<open>The callback of the walk over \<open>.table\<close>: an unoccupied slot takes no id.\<close>

definition addTable :: "table \<Rightarrow> bytes \<Rightarrow> table list \<Rightarrow> table list option" where
  "addTable tmeta raw ts =
     (let r = \<lparr>rowTbl = tmeta, rowRaw = raw\<rparr> in
      do {
        name \<leftarrow> Str r ''name'';
        if name = [] then Some ts
        else Some (ts @ [\<lparr>tabName = name, tabID = length ts, tabRows = unat (Uint r ''rows''),
                          tabRowSize = unat (Uint r ''rowsz''), tabCols = unat (Uint r ''cols''),
                          tabColumns = []\<rparr>])
      })"

text \<open>The loop that enters table \<open>i\<close> into the maps.\<close>

definition registerTable :: "nat \<Rightarrow> segment \<Rightarrow> segment" where
  "registerTable i s =
     (let t = tables s ! i;
          s1 = s\<lparr>byID := (byID s)(tabID t \<mapsto> i)\<rparr>
      in if tabName t \<noteq> [] then s1\<lparr>byName := (byName s1)(tabName t \<mapsto> i)\<rparr> else s1)"

text \<open>The callback of the walk over \<open>.column\<close>: the column goes to the table with its tableid,
  and nowhere when there is none.\<close>

definition addColumn :: "table \<Rightarrow> bytes \<Rightarrow> segment \<Rightarrow> segment option" where
  "addColumn cmeta raw s =
     (let r = \<lparr>rowTbl = cmeta, rowRaw = raw\<rparr> in
      do {
        name \<leftarrow> Str r ''name'';
        if name = [] then Some s
        else (let tid = unat (Uint r ''tableid'') in
          case byID s tid of
            None \<Rightarrow> Some s
          | Some p \<Rightarrow>
              (let t = tables s ! p;
                   c = \<lparr>colName = name, colOffset = unat (Uint r ''offset''),
                        colSize = unat (Uint r ''size''), colType = unat (Uint r ''type''),
                        colRule = unat (Uint r ''rule''), colDropped = Uint r ''dropped'' \<noteq> 0\<rparr>
               in Some (s\<lparr>tables := (tables s)[p := t\<lparr>tabColumns := tabColumns t @ [c]\<rparr>]\<rparr>)))
      })"

definition loadSchema :: "segment \<Rightarrow> (tm_error + segment) option" where
  "loadSchema s =
     do {
       tmeta \<leftarrow> bootstrapTable tidTable;
       raws \<leftarrow> walkSlabRows s tidTable (- 1);
       ts \<leftarrow> foldM (addTable tmeta) raws [];
       if ts = [] then Some (Inl NoTables)
       else do {
         let s1 = fold registerTable [0..<length ts] (s\<lparr>tables := ts\<rparr>);
         cmeta \<leftarrow> bootstrapTable tidColumn;
         craws \<leftarrow> walkSlabRows s1 tidColumn (- 1);
         s2 \<leftarrow> foldM (addColumn cmeta) craws s1;
         Some (Inr s2)
       }
     }"

text \<open>The slab size is the distance to the second magic, at a multiple of 1024, or 4096.\<close>

function slabScan :: "bytes \<Rightarrow> nat \<Rightarrow> nat option" where
  "slabScan data off =
     (if off + 4 \<le> length data then
        (case slice_expr data off (off + 4) of
           None \<Rightarrow> None
         | Some w \<Rightarrow> if is_magic w then Some off else slabScan data (off + 1024))
      else Some 4096)"
  by pat_completeness auto
termination
  by (relation "measure (\<lambda>(data, off). length data + 4 - off)") auto

declare slabScan.simps [simp del]

definition Parse :: "bytes \<Rightarrow> (tm_error + segment) option" where
  "Parse data =
     (if length data < slabHdrSize then Some (Inl NotTMSS)
      else do {
        m \<leftarrow> slice_expr data 0 4;
        if \<not> is_magic m then Some (Inl NotTMSS)
        else do {
          sz \<leftarrow> slabScan data 1024;
          if sz < slabHdrSize then Some (Inl (BadSlabSize sz))
          else loadSchema \<lparr>segData = data, slabSize = sz, slabCount = length data div sz,
                           tables = [], byName = Map.empty, byID = Map.empty\<rparr>
        }
      })"

section \<open>What the walk visits\<close>

definition u16 :: "bytes \<Rightarrow> nat \<Rightarrow> nat" where
  "u16 d i = unat (d ! i) + 256 * unat (d ! (i + 1))"

definition slabRows :: "segment \<Rightarrow> nat \<Rightarrow> nat \<Rightarrow> bytes list" where
  "slabRows s tableid sl =
     (let base = sl * slabSize s; d = segData s; stride = u16 d (base + 6) * lineSize in
      if is_magic (take 4 (drop base d)) \<and> u16 d (base + 4) = tableid
      then map (\<lambda>r. take stride (drop (base + slabHdrSize + r * stride) d))
             [0..<(slabSize s - slabHdrSize) div stride]
      else [])"

definition allRows :: "segment \<Rightarrow> nat \<Rightarrow> bytes list" where
  "allRows s tableid = concat (map (slabRows s tableid) [0..<slabCount s])"

definition wf_segment :: "segment \<Rightarrow> bool" where
  "wf_segment s \<longleftrightarrow> slabHdrSize \<le> slabSize s \<and> slabCount s * slabSize s \<le> length (segData s)"

lemma Uint16le_drop: "i + 2 \<le> length d \<Longrightarrow> Uint16le (drop i d) = Some (u16 d i)"
proof -
  assume h: "i + 2 \<le> length d"
  then have "drop i d = d ! i # d ! (i + 1) # drop (i + 2) d"
    by (simp add: Cons_nth_drop_Suc)
  then show ?thesis by (simp add: u16_def)
qed

lemma slice_Uint16le:
  "i + 2 \<le> length d \<Longrightarrow> slice_expr d i (length d) \<bind> Uint16le = Some (u16 d i)"
  by (simp add: Uint16le_drop)

lemma walkRows_all:
  assumes "base + slabHdrSize + n * stride \<le> length data" and "mx < 0"
  shows "walkRows data base stride mx [k..<n] acc =
    Some (False, acc @ map (\<lambda>r. take stride (drop (base + slabHdrSize + r * stride) data)) [k..<n])"
proof (induction "n - k" arbitrary: k acc)
  case 0
  then show ?case by simp
next
  case (Suc m)
  then have k: "k < n" by simp
  then have "Suc k * stride \<le> n * stride" by (intro mult_le_mono1) simp
  with assms(1) have "base + slabHdrSize + k * stride + stride \<le> length data" by simp
  with Suc k assms(2) show ?case by (simp add: upt_conv_Cons Let_def)
qed

lemma walkRows_limited:
  assumes "base + slabHdrSize + n * stride \<le> length data" and "length acc \<le> m"
  shows "walkRows data base stride (int m) [k..<n] acc =
    Some (m < length acc + (n - k),
      take m (acc @ map (\<lambda>r. take stride (drop (base + slabHdrSize + r * stride) data)) [k..<n]))"
  using assms(2)
proof (induction "n - k" arbitrary: k acc)
  case 0
  then show ?case by simp
next
  case (Suc j)
  then have k: "k < n" by simp
  then have "Suc k * stride \<le> n * stride" by (intro mult_le_mono1) simp
  with assms(1) have "base + slabHdrSize + k * stride + stride \<le> length data" by simp
  with Suc k show ?case
    by (cases "length acc = m") (auto simp: upt_conv_Cons Let_def take_Cons')
qed

text \<open>The bounds that keep every index of one slab in range.\<close>

lemma slab_bounds:
  assumes "wf_segment s" and "sl < slabCount s"
  shows "sl * slabSize s + slabHdrSize \<le> length (segData s)"
    and "sl * slabSize s + slabHdrSize + (slabSize s - slabHdrSize) div stride * stride
           \<le> length (segData s)"
proof -
  have "Suc sl * slabSize s \<le> slabCount s * slabSize s" using assms(2) by (intro mult_le_mono1) simp
  with assms(1) have "sl * slabSize s + slabSize s \<le> length (segData s)" "slabHdrSize \<le> slabSize s"
    by (auto simp: wf_segment_def)
  moreover have "(slabSize s - slabHdrSize) div stride * stride \<le> slabSize s - slabHdrSize" by simp
  ultimately show "sl * slabSize s + slabHdrSize \<le> length (segData s)"
    and "sl * slabSize s + slabHdrSize + (slabSize s - slabHdrSize) div stride * stride
           \<le> length (segData s)"
    by linarith+
qed

lemma walkSlabs_step:
  assumes "wf_segment s" and "sl < slabCount s"
  shows "walkSlabs s tableid mx (sl # sls) acc =
    (let base = sl * slabSize s; d = segData s; stride = u16 d (base + 6) * lineSize in
     if is_magic (take 4 (drop base d)) \<and> u16 d (base + 4) = tableid \<and> stride > 0
     then do {
       (stop, acc') \<leftarrow> walkRows d base stride mx [0..<(slabSize s - slabHdrSize) div stride] acc;
       if stop then Some acc' else walkSlabs s tableid mx sls acc'
     }
     else walkSlabs s tableid mx sls acc)"
proof -
  let ?b = "sl * slabSize s" and ?d = "segData s"
  have b: "?b + slabHdrSize \<le> length ?d" by (rule slab_bounds(1) [OF assms])
  then have m: "slice_expr ?d ?b (?b + 4) = Some (take 4 (drop ?b ?d))"
    by (simp add: slabHdrSize_def)
  have "slice_expr ?d (?b + 4) (length ?d) \<bind> Uint16le = Some (u16 ?d (?b + 4))"
    and "slice_expr ?d (?b + 6) (length ?d) \<bind> Uint16le = Some (u16 ?d (?b + 6))"
    using b by (intro slice_Uint16le; simp add: slabHdrSize_def)+
  with b m show ?thesis
    by (simp add: Let_def del: slice_expr_in_range)
qed

lemma walkSlabs_all:
  assumes "wf_segment s" and "mx < 0"
  shows "\<forall>sl \<in> set sls. sl < slabCount s \<Longrightarrow>
    walkSlabs s tableid mx sls acc = Some (acc @ concat (map (slabRows s tableid) sls))"
proof (induction sls arbitrary: acc)
  case (Cons sl sls)
  then have sl: "sl < slabCount s" by simp
  show ?case
    using Cons walkRows_all [OF slab_bounds(2) [OF assms(1) sl] assms(2)]
    by (simp add: walkSlabs_step [OF assms(1) sl] slabRows_def Let_def del: walkSlabs.simps)
qed simp

lemma walkSlabs_limited:
  assumes "wf_segment s"
  shows "\<forall>sl \<in> set sls. sl < slabCount s \<Longrightarrow> length acc \<le> m \<Longrightarrow>
    walkSlabs s tableid (int m) sls acc = Some (take m (acc @ concat (map (slabRows s tableid) sls)))"
proof (induction sls arbitrary: acc)
  case (Cons sl sls)
  then have sl: "sl < slabCount s" by simp
  show ?case
    using Cons walkRows_limited [OF slab_bounds(2) [OF assms sl] Cons.prems(2)]
    by (auto simp add: walkSlabs_step [OF assms sl] slabRows_def Let_def simp del: walkSlabs.simps)
qed simp

lemma walkSlabRows_eq:
  assumes "wf_segment s"
  shows "walkSlabRows s tableid mx =
    Some (if mx < 0 then allRows s tableid else take (nat mx) (allRows s tableid))"
proof (cases "mx < 0")
  case False
  then show ?thesis
    using walkSlabs_limited [OF assms, of "[0..<slabCount s]" "[]" "nat mx"]
    by (simp add: walkSlabRows_def allRows_def)
next
  case True
  then show ?thesis
    using walkSlabs_all [OF assms True, of "[0..<slabCount s]" tableid "[]"]
    by (simp add: walkSlabRows_def allRows_def)
qed

section \<open>What loadSchema builds\<close>

lemma indexByte_takeWhile:
  "(case indexByte s c of Some i \<Rightarrow> take i s | None \<Rightarrow> s) = takeWhile (\<lambda>x. x \<noteq> c) s"
  by (induction s) (auto split: option.splits)

lemma cstr_in_range:
  "off \<le> length b \<Longrightarrow>
   cstr b off sz = Some (string_of_bytes (takeWhile (\<lambda>x. x \<noteq> 0) (take sz (drop off b))))"
  by (simp add: cstr_def indexByte_takeWhile)

text \<open>A meta row, read at the offsets of the bootstrap tables.\<close>

definition metaName :: "bytes \<Rightarrow> string" where
  "metaName raw = string_of_bytes (takeWhile (\<lambda>x. x \<noteq> 0) (take 49 raw))"

definition occupied :: "bytes \<Rightarrow> bool" where
  "occupied raw \<longleftrightarrow> metaName raw \<noteq> []"

definition tableOf :: "bytes \<Rightarrow> nat \<Rightarrow> table" where
  "tableOf raw i =
     \<lparr>tabName = metaName raw, tabID = i, tabRows = unat (leUint raw 53 4),
      tabRowSize = unat (leUint raw 57 2), tabCols = unat (leUint raw 59 2), tabColumns = []\<rparr>"

definition columnOf :: "bytes \<Rightarrow> column" where
  "columnOf raw =
     \<lparr>colName = metaName raw, colOffset = unat (leUint raw 51 2), colSize = unat (leUint raw 53 2),
      colType = unat (leUint raw 55 1), colRule = unat (leUint raw 56 2),
      colDropped = (leUint raw 58 1 \<noteq> 0)\<rparr>"

definition columnTable :: "bytes \<Rightarrow> nat" where
  "columnTable raw = unat (leUint raw 49 2)"

lemmas meta_row_defs = bootstrapTable_def meta_table_def meta_col_def col_def Uint_def Str_def tm_consts

lemma addTable_eq:
  "bootstrapTable tidTable = Some tmeta \<Longrightarrow>
   addTable tmeta raw ts = Some (if occupied raw then ts @ [tableOf raw (length ts)] else ts)"
  by (auto simp: addTable_def meta_row_defs cstr_in_range occupied_def metaName_def tableOf_def)

lemma addColumn_eq:
  "bootstrapTable tidColumn = Some cmeta \<Longrightarrow>
   addColumn cmeta raw s = Some
     (if occupied raw then
        (case byID s (columnTable raw) of None \<Rightarrow> s
         | Some p \<Rightarrow> s\<lparr>tables := (tables s)[p := (tables s ! p)
             \<lparr>tabColumns := tabColumns (tables s ! p) @ [columnOf raw]\<rparr>]\<rparr>)
      else s)"
  by (auto simp: addColumn_def meta_row_defs cstr_in_range occupied_def metaName_def columnOf_def
      columnTable_def Let_def split: option.split)

definition schemaTables :: "bytes list \<Rightarrow> table list" where
  "schemaTables raws = map (\<lambda>(i, raw). tableOf raw i) (enumerate 0 (filter occupied raws))"

lemma length_schemaTables [simp]: "length (schemaTables raws) = length (filter occupied raws)"
  by (simp add: schemaTables_def)

lemma schemaTables_nth:
  "i < length (filter occupied raws) \<Longrightarrow> schemaTables raws ! i = tableOf (filter occupied raws ! i) i"
  by (simp add: schemaTables_def nth_enumerate_eq)

lemma schemaTables_snoc:
  "schemaTables (raws @ [raw]) = (if occupied raw then schemaTables raws @ [tableOf raw (length (schemaTables raws))]
                                  else schemaTables raws)"
  by (simp add: schemaTables_def enumerate_append_eq)

lemma foldM_append: "foldM f (xs @ ys) s = foldM f xs s \<bind> foldM f ys"
  by (induction xs arbitrary: s) (auto split: Option.bind_split)

lemma foldM_addTable:
  assumes "bootstrapTable tidTable = Some tmeta"
  shows "foldM (addTable tmeta) raws [] = Some (schemaTables raws)"
proof (induction raws rule: rev_induct)
  case Nil
  then show ?case by (simp add: schemaTables_def)
next
  case (snoc raw raws)
  then show ?case by (simp add: foldM_append addTable_eq [OF assms] schemaTables_snoc)
qed

text \<open>Registering the tables numbered by their ids: \<open>byID\<close> is the identity, \<open>byName\<close> the last
  index with a name.\<close>

lemma registerTable_sel [simp]:
  "tables (registerTable i s) = tables s"
  "segData (registerTable i s) = segData s"
  "slabSize (registerTable i s) = slabSize s"
  "slabCount (registerTable i s) = slabCount s"
  "byID (registerTable i s) = (byID s)(tabID (tables s ! i) \<mapsto> i)"
  "byName (registerTable i s) =
     (if tabName (tables s ! i) \<noteq> [] then (byName s)(tabName (tables s ! i) \<mapsto> i) else byName s)"
  by (simp_all add: registerTable_def Let_def)

lemma register_frame:
  "tables (fold registerTable is s) = tables s \<and> segData (fold registerTable is s) = segData s
   \<and> slabSize (fold registerTable is s) = slabSize s \<and> slabCount (fold registerTable is s) = slabCount s"
  by (induction "is" arbitrary: s) simp_all

lemma register_byID:
  assumes "\<forall>i < n. tabID (tables s ! i) = i" and "byID s = Map.empty"
  shows "byID (fold registerTable [0..<n] s) = (\<lambda>k. if k < n then Some k else None)"
  using assms(1)
proof (induction n)
  case 0
  then show ?case using assms(2) by simp
next
  case (Suc n)
  then show ?case by (auto simp: register_frame fun_eq_iff)
qed

lemma register_byName:
  assumes "\<forall>i < n. tabName (tables s ! i) \<noteq> []" and "byName s = Map.empty"
  shows "byName (fold registerTable [0..<n] s) name = Some i \<longleftrightarrow>
    i < n \<and> tabName (tables s ! i) = name \<and> (\<forall>j < n. i < j \<longrightarrow> tabName (tables s ! j) \<noteq> name)"
  using assms(1)
proof (induction n arbitrary: i)
  case 0
  then show ?case using assms(2) by simp
next
  case (Suc n)
  then show ?case
    by (auto simp: register_frame less_Suc_eq)
qed

text \<open>The columns of table \<open>i\<close>: the occupied \<open>.column\<close> rows with its id, in file order.\<close>

definition tableColumns :: "bytes list \<Rightarrow> nat \<Rightarrow> column list" where
  "tableColumns craws i = map columnOf (filter (\<lambda>raw. occupied raw \<and> columnTable raw = i) craws)"

lemma foldM_addColumn:
  assumes "bootstrapTable tidColumn = Some cmeta"
    and "byID s = (\<lambda>k. if k < length (tables s) then Some k else None)"
    and "\<forall>t \<in> set (tables s). tabColumns t = []"
  shows "foldM (addColumn cmeta) craws s =
    Some (s\<lparr>tables := map (\<lambda>(i, t). t\<lparr>tabColumns := tableColumns craws i\<rparr>) (enumerate 0 (tables s))\<rparr>)"
proof (induction craws rule: rev_induct)
  case Nil
  have "map (\<lambda>(i, t). t\<lparr>tabColumns := tableColumns [] i\<rparr>) (enumerate 0 (tables s)) = tables s"
    using assms(3) by (intro nth_equalityI) (auto simp: nth_enumerate_eq tableColumns_def)
  then show ?case by simp
next
  case (snoc raw craws)
  let ?ts = "\<lambda>raws. map (\<lambda>(i, t). t\<lparr>tabColumns := tableColumns raws i\<rparr>) (enumerate 0 (tables s))"
  show ?case
  proof (cases "occupied raw \<and> columnTable raw < length (tables s)")
    case True
    have "(?ts craws)[columnTable raw := (?ts craws ! columnTable raw)
             \<lparr>tabColumns := tabColumns (?ts craws ! columnTable raw) @ [columnOf raw]\<rparr>]
          = ?ts (craws @ [raw])"
      using True by (intro nth_equalityI) (auto simp: nth_enumerate_eq nth_list_update tableColumns_def)
    with snoc True assms(2) show ?thesis
      by (simp add: foldM_append addColumn_eq [OF assms(1)])
  next
    case False
    have "?ts (craws @ [raw]) = ?ts craws"
      using False by (intro nth_equalityI) (auto simp: nth_enumerate_eq tableColumns_def)
    with snoc False assms(2) show ?thesis
      by (auto simp: foldM_append addColumn_eq [OF assms(1)])
  qed
qed

text \<open>The maps of a loaded segment.\<close>

definition idMap :: "nat \<Rightarrow> nat \<rightharpoonup> nat" where
  "idMap n = (\<lambda>k. if k < n then Some k else None)"

definition loadedTables :: "segment \<Rightarrow> table list" where
  "loadedTables s = map (\<lambda>(i, t). t\<lparr>tabColumns := tableColumns (allRows s tidColumn) i\<rparr>)
     (enumerate 0 (schemaTables (allRows s tidTable)))"

lemma length_loadedTables [simp]:
  "length (loadedTables s) = length (filter occupied (allRows s tidTable))"
  by (simp add: loadedTables_def)

lemma allRows_cong:
  "segData s = segData s' \<Longrightarrow> slabSize s = slabSize s' \<Longrightarrow> slabCount s = slabCount s' \<Longrightarrow>
   allRows s tid = allRows s' tid"
proof -
  assume "segData s = segData s'" "slabSize s = slabSize s'" "slabCount s = slabCount s'"
  moreover from this have "slabRows s tid = slabRows s' tid"
    by (intro ext) (simp add: slabRows_def Let_def)
  ultimately show ?thesis by (simp add: allRows_def)
qed

lemma loadSchema_eq:
  assumes wf: "wf_segment s" and "byID s = Map.empty"
  shows "loadSchema s = Some
    (if filter occupied (allRows s tidTable) = [] then Inl NoTables
     else Inr (s\<lparr>tables := loadedTables s, byID := idMap (length (loadedTables s)),
                byName := byName (fold registerTable [0..<length (loadedTables s)]
                  (s\<lparr>tables := schemaTables (allRows s tidTable)\<rparr>))\<rparr>))"
proof -
  let ?ts = "schemaTables (allRows s tidTable)"
  let ?s0 = "s\<lparr>tables := ?ts\<rparr>"
  let ?s1 = "fold registerTable [0..<length ?ts] ?s0"
  obtain tmeta where tm: "bootstrapTable tidTable = Some tmeta" by (simp add: bootstrapTable_def)
  obtain cmeta where cm: "bootstrapTable tidColumn = Some cmeta"
    by (simp add: bootstrapTable_def tidColumn_def tidTable_def)
  have frame: "tables ?s1 = ?ts" "segData ?s1 = segData s" "slabSize ?s1 = slabSize s"
    "slabCount ?s1 = slabCount s"
    by (simp_all add: register_frame)
  have ids: "\<forall>i < length ?ts. tabID (tables ?s0 ! i) = i"
    by (simp add: schemaTables_nth tableOf_def)
  have byid: "byID ?s1 = (\<lambda>k. if k < length (tables ?s1) then Some k else None)"
    using register_byID [OF ids] assms(2) frame(1) by simp
  have nocols: "\<forall>t \<in> set (tables ?s1). tabColumns t = []"
    unfolding frame(1) by (auto simp: in_set_conv_nth schemaTables_nth tableOf_def)
  have wf1: "wf_segment ?s1" using wf frame by (simp add: wf_segment_def)
  have walk1: "walkSlabRows s tidTable (- 1) = Some (allRows s tidTable)"
    by (simp add: walkSlabRows_eq [OF wf])
  have walk2: "walkSlabRows ?s1 tidColumn (- 1) = Some (allRows s tidColumn)"
    unfolding walkSlabRows_eq [OF wf1] allRows_cong [OF frame(2-4)] by simp
  have final: "foldM (addColumn cmeta) (allRows s tidColumn) ?s1 = Some (?s1\<lparr>tables := loadedTables s\<rparr>)"
    using foldM_addColumn [OF cm byid nocols] frame(1) by (simp add: loadedTables_def)
  have shape: "?s1\<lparr>tables := loadedTables s\<rparr> = s\<lparr>tables := loadedTables s,
      byID := idMap (length (loadedTables s)), byName := byName ?s1\<rparr>"
    using frame byid by (intro segment.equality) (simp_all add: idMap_def)
  have "?ts = [] \<longleftrightarrow> filter occupied (allRows s tidTable) = []"
    by (metis length_0_conv length_schemaTables)
  then show ?thesis
    using walk1 walk2 final foldM_addTable [OF tm] shape
    by (simp add: loadSchema_def tm cm Let_def)
qed

section \<open>What Parse returns\<close>

lemma slabScan_total: "\<exists>sz. slabScan data off = Some sz \<and> (sz = 4096 \<or> off \<le> sz)"
proof (induction data off rule: slabScan.induct)
  case (1 data off)
  show ?case
  proof (cases "off + 4 \<le> length data")
    case True
    with 1 show ?thesis
      by (subst slabScan.simps) (fastforce simp: slice_expr_def split: if_splits)
  next
    case False
    then show ?thesis by (subst slabScan.simps) simp
  qed
qed

text \<open>The slab size as a total function, and the segment \<open>Parse\<close> starts from.\<close>

definition parsedSlabSize :: "bytes \<Rightarrow> nat" where
  "parsedSlabSize data = the (slabScan data 1024)"

lemma slabScan_eq: "slabScan data 1024 = Some (parsedSlabSize data)"
  using slabScan_total [of data 1024] by (auto simp: parsedSlabSize_def)

lemma parsedSlabSize_ge: "1024 \<le> parsedSlabSize data"
  using slabScan_total [of data 1024] by (auto simp: slabScan_eq)

definition rawSegment :: "bytes \<Rightarrow> segment" where
  "rawSegment data =
     \<lparr>segData = data, slabSize = parsedSlabSize data, slabCount = length data div parsedSlabSize data,
      tables = [], byName = Map.empty, byID = Map.empty\<rparr>"

lemma wf_rawSegment: "wf_segment (rawSegment data)"
  using parsedSlabSize_ge [of data]
  by (simp add: wf_segment_def rawSegment_def slabHdrSize_def)

lemma rawSegment_sel [simp]:
  "segData (rawSegment data) = data"
  "slabSize (rawSegment data) = parsedSlabSize data"
  "slabCount (rawSegment data) = length data div parsedSlabSize data"
  "byName (rawSegment data) = Map.empty"
  "byID (rawSegment data) = Map.empty"
  by (simp_all add: rawSegment_def)

lemmas loadSchema_raw = loadSchema_eq [OF wf_rawSegment rawSegment_sel(5)]

definition isTMSS :: "bytes \<Rightarrow> bool" where
  "isTMSS data \<longleftrightarrow> slabHdrSize \<le> length data \<and> is_magic (take 4 data)"

lemma Parse_eq:
  "Parse data = (if isTMSS data then loadSchema (rawSegment data) else Some (Inl NotTMSS))"
  using parsedSlabSize_ge [of data]
  by (simp add: Parse_def isTMSS_def slabScan_eq rawSegment_def slabHdrSize_def)

lemma Parse_cases:
  "Parse data = Some
    (if \<not> isTMSS data then Inl NotTMSS
     else if filter occupied (allRows (rawSegment data) tidTable) = [] then Inl NoTables
     else the (loadSchema (rawSegment data)))"
  by (simp add: Parse_eq loadSchema_raw)

text \<open>
  The well-formedness every parsed segment has: its slabs lie inside the data, table \<open>i\<close> has id
  \<open>i\<close>, a name and a row count of four bytes, and the maps point into the store.
\<close>

definition wf_schema :: "segment \<Rightarrow> bool" where
  "wf_schema s \<longleftrightarrow> wf_segment s
     \<and> (\<forall>i < length (tables s). tabID (tables s ! i) = i \<and> tabName (tables s ! i) \<noteq> []
          \<and> tabRows (tables s ! i) < 2 ^ 32)
     \<and> byID s = idMap (length (tables s))
     \<and> (\<forall>name i. byName s name = Some i \<longleftrightarrow>
          i < length (tables s) \<and> tabName (tables s ! i) = name
          \<and> (\<forall>j < length (tables s). i < j \<longrightarrow> tabName (tables s ! j) \<noteq> name))"

lemma Parse_wf:
  assumes "Parse data = Some (Inr s)"
  shows "wf_schema s" and "tables s = loadedTables (rawSegment data)" and "segData s = data"
    and "slabSize s = parsedSlabSize data" and "slabCount s = length data div parsedSlabSize data"
    and "isTMSS data"
proof -
  let ?r = "rawSegment data"
  let ?rows = "filter occupied (allRows ?r tidTable)"
  have ok: "isTMSS data" "?rows \<noteq> []" using assms by (auto simp: Parse_cases split: if_splits)
  then have s: "s = ?r\<lparr>tables := loadedTables ?r, byID := idMap (length (loadedTables ?r)),
                byName := byName (fold registerTable [0..<length (loadedTables ?r)]
                  (?r\<lparr>tables := schemaTables (allRows ?r tidTable)\<rparr>))\<rparr>"
    using assms by (simp add: Parse_eq loadSchema_raw)
  have nth: "tables s ! i = (tableOf (?rows ! i) i)\<lparr>tabColumns := tableColumns (allRows ?r tidColumn) i\<rparr>"
    if "i < length ?rows" for i
    using that by (simp add: s loadedTables_def nth_enumerate_eq schemaTables_nth)
  have occ: "metaName (?rows ! i) \<noteq> []" if "i < length ?rows" for i
    using nth_mem [OF that] by (simp add: occupied_def)
  let ?s0 = "?r\<lparr>tables := schemaTables (allRows ?r tidTable)\<rparr>"
  have names: "\<forall>i < length ?rows. tabName (tables ?s0 ! i) \<noteq> []"
    using occ by (simp add: schemaTables_nth tableOf_def)
  have same: "tabName (tables ?s0 ! i) = tabName (tables s ! i)" if "i < length ?rows" for i
    using that by (simp add: nth schemaTables_nth tableOf_def)
  have byname: "byName s name = Some i \<longleftrightarrow> i < length (tables s) \<and> tabName (tables s ! i) = name
      \<and> (\<forall>j < length (tables s). i < j \<longrightarrow> tabName (tables s ! j) \<noteq> name)" for name i
  proof -
    have "byName s name = Some i \<longleftrightarrow> i < length ?rows \<and> tabName (tables ?s0 ! i) = name
      \<and> (\<forall>j < length ?rows. i < j \<longrightarrow> tabName (tables ?s0 ! j) \<noteq> name)"
      using register_byName [OF names] by (simp add: s)
    also have "\<dots> \<longleftrightarrow> i < length ?rows \<and> tabName (tables s ! i) = name
      \<and> (\<forall>j < length ?rows. i < j \<longrightarrow> tabName (tables s ! j) \<noteq> name)"
      using same by auto
    finally show ?thesis by (simp add: s)
  qed
  have "wf_segment s" using wf_rawSegment [of data] by (simp add: s wf_segment_def)
  moreover have "tabID (tables s ! i) = i \<and> tabName (tables s ! i) \<noteq> [] \<and> tabRows (tables s ! i) < 2 ^ 32"
    if "i < length (tables s)" for i
    using that nth occ leUint_lt [of 4] by (simp add: s tableOf_def)
  moreover have "byID s = idMap (length (tables s))" by (simp add: s)
  ultimately show "wf_schema s" unfolding wf_schema_def using byname by blast
  show "tables s = loadedTables (rawSegment data)" by (simp add: s)
  show "segData s = data" and "slabSize s = parsedSlabSize data"
    and "slabCount s = length data div parsedSlabSize data"
    by (simp_all add: s)
  show "isTMSS data" by (rule ok(1))
qed

section \<open>Properties\<close>

text \<open>C40: \<open>Parse\<close> fails in two ways only: the data is shorter than a slab header or does not
  start with the magic, or no \<open>.table\<close> row is occupied. The error for a bad slab size never
  occurs.\<close>

theorem Parse_errors:
  "Parse data = Some (Inl e) \<longleftrightarrow>
     (e = NotTMSS \<and> \<not> isTMSS data)
     \<or> (e = NoTables \<and> isTMSS data \<and> filter occupied (allRows (rawSegment data) tidTable) = [])"
  by (auto simp: Parse_eq loadSchema_raw)

text \<open>C3: the schema of a parsed segment: table \<open>i\<close> is the \<open>i\<close>-th occupied row of the \<open>.table\<close>
  slabs (an empty slot takes no id), its columns are the occupied \<open>.column\<close> rows with table id
  \<open>i\<close> in file order, \<open>byID\<close> finds table \<open>i\<close> under \<open>i\<close>, and \<open>byName\<close> finds the last table of
  a name.\<close>

theorem Parse_schema:
  "case Parse data of
     Some (Inr s) \<Rightarrow>
       segData s = data
       \<and> tables s = map (\<lambda>(i, raw). (tableOf raw i)\<lparr>tabColumns := map columnOf
             (filter (\<lambda>raw. occupied raw \<and> columnTable raw = i) (allRows (rawSegment data) tidColumn))\<rparr>)
           (enumerate 0 (filter occupied (allRows (rawSegment data) tidTable)))
       \<and> byID s = (\<lambda>k. if k < length (tables s) then Some k else None)
       \<and> (\<forall>name i. byName s name = Some i \<longleftrightarrow> i \<in> {i. i < length (tables s) \<and> tabName (tables s ! i) = name}
             \<and> i = Max {i. i < length (tables s) \<and> tabName (tables s ! i) = name})
   | Some (Inl _) \<Rightarrow> True
   | None \<Rightarrow> False"
proof (cases "Parse data")
  case None
  then show ?thesis by (simp add: Parse_eq loadSchema_raw split: if_splits)
next
  case (Some res)
  show ?thesis
  proof (cases res)
    case (Inr s)
    then have ok: "Parse data = Some (Inr s)" using Some by simp
    note wf = Parse_wf [OF ok]
    have max: "(i < length (tables s) \<and> tabName (tables s ! i) = name \<and>
          (\<forall>j < length (tables s). i < j \<longrightarrow> tabName (tables s ! j) \<noteq> name)) \<longleftrightarrow>
        (i \<in> {i. i < length (tables s) \<and> tabName (tables s ! i) = name} \<and>
          i = Max {i. i < length (tables s) \<and> tabName (tables s ! i) = name})" for i name
    proof -
      let ?A = "{i. i < length (tables s) \<and> tabName (tables s ! i) = name}"
      have "finite ?A" by simp
      then have "i \<in> ?A \<Longrightarrow> i = Max ?A \<longleftrightarrow> (\<forall>a \<in> ?A. a \<le> i)" by (subst eq_Max_iff) auto
      then show ?thesis by (auto simp: not_less [symmetric])
    qed
    have cols: "map (\<lambda>(i, t). t\<lparr>tabColumns := f i\<rparr>) (enumerate 0 (map (\<lambda>(i, raw). tableOf raw i) (enumerate 0 xs)))
        = map (\<lambda>(i, raw). (tableOf raw i)\<lparr>tabColumns := f i\<rparr>) (enumerate 0 xs)" for f xs
      by (intro nth_equalityI) (simp_all add: nth_enumerate_eq)
    have tabs: "tables s = map (\<lambda>(i, raw). (tableOf raw i)\<lparr>tabColumns := map columnOf
             (filter (\<lambda>raw. occupied raw \<and> columnTable raw = i) (allRows (rawSegment data) tidColumn))\<rparr>)
           (enumerate 0 (filter occupied (allRows (rawSegment data) tidTable)))"
      unfolding wf(2) loadedTables_def schemaTables_def tableColumns_def by (rule cols)
    have "byID s = (\<lambda>k. if k < length (tables s) then Some k else None)"
      using wf(1) by (simp add: wf_schema_def idMap_def)
    moreover have "\<forall>name i. byName s name = Some i \<longleftrightarrow>
        i \<in> {i. i < length (tables s) \<and> tabName (tables s ! i) = name}
             \<and> i = Max {i. i < length (tables s) \<and> tabName (tables s ! i) = name}"
      using wf(1) unfolding wf_schema_def max by blast
    ultimately show ?thesis
      unfolding Some Inr option.case sum.case using wf(3) tabs by blast
  qed (use Some in simp)
qed

text \<open>C30: on the segment \<open>Parse\<close> builds, \<open>walkSlabRows\<close> never panics and never runs past the
  data: it visits the rows of the matching slabs in file order, all of them or the first
  \<open>maxRows\<close>.\<close>

theorem walkSlabRows_visits:
  "walkSlabRows (rawSegment data) tableid maxRows =
     Some (let rows = concat (map (slabRows (rawSegment data) tableid)
                        [0..<length data div slabSize (rawSegment data)])
           in if maxRows < 0 then rows else take (nat maxRows) rows)"
  by (simp add: walkSlabRows_eq [OF wf_rawSegment] allRows_def Let_def)

end
