(* ===== verification/TmAddr.thy ===== *)
theory TmAddr
  imports TmBytes
begin

text \<open>
  Addresses: \<open>DecodeAddr\<close> of \<open>internal/tmstat/tmstat.go\<close>, which turns the colon-hex text of a
  20-byte tmstat address into an IP, and \<open>isLinkLocal\<close> of \<open>cmd/tmm-stat-exporter/main.go\<close>,
  which filters on that text. \<open>netIPString\<close> is \<open>net.IP.String\<close> of a 16-byte address.
\<close>

section \<open>net.IP.String\<close>

fun FormatHex :: "nat \<Rightarrow> string" where
  "FormatHex n = (if n < 16 then [''0123456789abcdef'' ! n]
                  else FormatHex (n div 16) @ [''0123456789abcdef'' ! (n mod 16)])"

declare FormatHex.simps [simp del]

definition ipv4String :: "byte \<Rightarrow> byte \<Rightarrow> byte \<Rightarrow> byte \<Rightarrow> string" where
  "ipv4String a b c d = Join CHR ''.'' (map (\<lambda>x. FormatUint (unat x)) [a, b, c, d])"

text \<open>The eight 16-bit groups, and the first longest run of at least two zero groups: its start
  and its length (the start is 255 when there is none).\<close>

definition v6groups :: "bytes \<Rightarrow> nat list" where
  "v6groups b = map (\<lambda>i. 256 * unat (b ! (2 * i)) + unat (b ! (2 * i + 1))) [0..<8]"

fun zero_run :: "nat list \<Rightarrow> nat list \<Rightarrow> nat \<times> nat \<Rightarrow> nat \<times> nat" where
  "zero_run gs [] best = best"
| "zero_run gs (i # is) (s, l) =
     (let n = length (takeWhile (\<lambda>g. g = 0) (drop i gs))
      in zero_run gs is (if 2 \<le> n \<and> l < n then (i, n) else (s, l)))"

function v6emit :: "nat list \<Rightarrow> nat \<Rightarrow> nat \<Rightarrow> nat \<Rightarrow> string" where
  "v6emit gs zs zl i =
     (if 8 \<le> i then []
      else if i = zs then
        ''::'' @ (if 8 \<le> i + zl then [] else FormatHex (gs ! (i + zl)) @ v6emit gs zs zl (i + zl + 1))
      else (if 0 < i then '':'' else '''') @ FormatHex (gs ! i) @ v6emit gs zs zl (i + 1))"
  by pat_completeness auto
termination
  by (relation "measure (\<lambda>(gs, zs, zl, i). 8 - i)") auto

declare v6emit.simps [simp del]

definition ipv6String :: "bytes \<Rightarrow> string" where
  "ipv6String b = (let gs = v6groups b; (zs, zl) = zero_run gs [0..<8] (255, 0) in v6emit gs zs zl 0)"

definition is4in6 :: "bytes \<Rightarrow> bool" where
  "is4in6 b \<longleftrightarrow> take 10 b = replicate 10 0 \<and> b ! 10 = 0xff \<and> b ! 11 = 0xff"

definition netIPString :: "bytes \<Rightarrow> string" where
  "netIPString b =
     (if is4in6 b then ipv4String (b ! 12) (b ! 13) (b ! 14) (b ! 15) else ipv6String b)"

section \<open>DecodeAddr and isLinkLocal\<close>

fun parse_parts :: "string list \<Rightarrow> bytes option" where
  "parse_parts [] = Some []"
| "parse_parts (p # ps) =
     (case ParseUint16_8 p of None \<Rightarrow> None
      | Some v \<Rightarrow> map_option (\<lambda>b. word_of_nat v # b) (parse_parts ps))"

text \<open>\<open>None\<close> is the result \<open>("", false)\<close>.\<close>

definition DecodeAddr :: "string \<Rightarrow> string option" where
  "DecodeAddr colonHex =
     (let parts = Split CHR '':'' colonHex in
      if length parts \<noteq> 20 then None
      else (case parse_parts parts of
              None \<Rightarrow> None
            | Some b \<Rightarrow>
                if b ! 10 = 0xff \<and> b ! 11 = 0xff
                then Some (ipv4String (b ! 12) (b ! 13) (b ! 14) (b ! 15))
                else Some (netIPString (take 16 b))))"

definition isLinkLocal :: "string \<Rightarrow> bool" where
  "isLinkLocal ip \<longleftrightarrow> HasPrefix ip ''169.254.'' \<or> HasPrefix ip ''fe80:''"

section \<open>Colon-hex text\<close>

definition hex2 :: "byte \<Rightarrow> string" where
  "hex2 x = [hexUpper (unat (drop_bit 4 x)), hexUpper (unat (x AND 0xf))]"

lemma nibbles:
  "unat (drop_bit 4 (x :: byte)) = unat x div 16" "unat (x AND 0xf) = unat x mod 16"
proof -
  show "unat (drop_bit 4 x) = unat x div 16"
    by (simp only: unsigned_drop_bit_eq) (simp add: drop_bit_eq_div take_bit_nat_eq_self unat_byte_bound)
  have "x AND 0xf = take_bit 4 x"
    by (simp add: take_bit_eq_mask mask_eq_exp_minus_1)
  then show "unat (x AND 0xf) = unat x mod 16"
    by (simp only: unsigned_take_bit_eq) (simp add: take_bit_eq_mod)
qed

lemma hexUpper_cases:
  assumes "d < 16"
  shows "hex_val (hexUpper d) = Some d" and "hexUpper d \<noteq> CHR '':''" and "hexUpper d \<noteq> CHR 0x00"
proof -
  have "d \<in> {0, 1, 2, 3, 4, 5, 6, 7, 8, 9, 10, 11, 12, 13, 14, 15}"
    using assms unfolding insert_iff empty_iff by arith
  then show "hex_val (hexUpper d) = Some d" and "hexUpper d \<noteq> CHR '':''" and "hexUpper d \<noteq> CHR 0x00"
    by (auto simp: hexUpper_def hex_val_def)
qed

lemma nibble_bounds: "unat (drop_bit 4 (x :: byte)) < 16" "unat (x AND 0xf) < 16"
  using unat_byte_bound [of x] by (auto simp: nibbles)

lemma hex2_no_colon: "CHR '':'' \<notin> set (hex2 x)"
  using hexUpper_cases(2) nibble_bounds by (auto simp: hex2_def) metis+

lemma ParseUint_hex2: "ParseUint16_8 (hex2 x) = Some (unat x)"
proof -
  have "16 * (unat x div 16) + unat x mod 16 = unat x" by simp
  moreover have "unat x div 16 \<le> 255" "unat x \<le> 255" using unat_byte_bound [of x] by simp_all
  ultimately show ?thesis
    using hexUpper_cases(1) [OF nibble_bounds(1)] hexUpper_cases(1) [OF nibble_bounds(2)]
    by (simp add: ParseUint16_8_def hex2_def nibbles)
qed

lemma addrHex_loop_Cons: "addrHex_loop (x # xs) = CHR '':'' # Join CHR '':'' (map hex2 (x # xs))"
  by (induction xs arbitrary: x) (simp_all add: hex2_def)

lemma addrHex_Join: "addrHex b = Join CHR '':'' (map hex2 b)"
  by (cases b) (simp_all add: addrHex_def addrHex_loop_Cons del: addrHex_loop.simps(2))

lemma parse_parts_hex2: "parse_parts (map hex2 b) = Some b"
  by (induction b) (simp_all add: ParseUint_hex2)

lemma Split_addrHex: "b \<noteq> [] \<Longrightarrow> Split CHR '':'' (addrHex b) = map hex2 b"
  unfolding addrHex_Join by (rule Split_Join) (auto simp: hex2_no_colon)

lemma addrHex_no_nul: "CHR 0x00 \<notin> set (addrHex b)"
proof -
  have "CHR 0x00 \<notin> set (addrHex_loop b)"
    by (induction b) (use hexUpper_cases(3) nibble_bounds in \<open>auto, metis+\<close>)
  then show ?thesis by (cases "addrHex_loop b") (auto simp: addrHex_def)
qed

lemma addrHex_inject: "addrHex a = addrHex b \<Longrightarrow> a = b"
proof (cases "a = [] \<or> b = []")
  case True
  moreover have "addrHex c = [] \<longleftrightarrow> c = []" for c
    by (cases c; cases "tl c") (simp_all add: addrHex_Join hex2_def)
  ultimately show "addrHex a = addrHex b \<Longrightarrow> a = b" by metis
next
  case False
  assume "addrHex a = addrHex b"
  with False have "map hex2 a = map hex2 b" by (metis Split_addrHex)
  then show "a = b" by (metis parse_parts_hex2 option.inject)
qed

text \<open>\<open>DecodeAddr\<close> inverts \<open>addrHex\<close> on 20-byte addresses and rejects every other length.\<close>

lemma DecodeAddr_addrHex_eq:
  "DecodeAddr (addrHex b) =
     (if length b \<noteq> 20 then None
      else if b ! 10 = 0xff \<and> b ! 11 = 0xff then Some (ipv4String (b ! 12) (b ! 13) (b ! 14) (b ! 15))
      else Some (ipv6String (take 16 b)))"
proof (cases "b = []")
  case True
  then show ?thesis by (simp add: DecodeAddr_def addrHex_def)
next
  case False
  have "\<not> is4in6 (take 16 b)" if "\<not> (b ! 10 = 0xff \<and> b ! 11 = 0xff)"
    using that by (auto simp: is4in6_def)
  with False show ?thesis
    by (simp add: DecodeAddr_def Split_addrHex parse_parts_hex2 netIPString_def)
qed

section \<open>The link-local filter\<close>

lemma FormatUint_no_dot: "CHR ''.'' \<notin> set (FormatUint n)"
  using FormatUint_digits [of "CHR ''.''" n] by (auto simp: is_digit_def)

lemma Split_ipv4String:
  "Split CHR ''.'' (ipv4String a b c d) = map (\<lambda>x. FormatUint (unat x)) [a, b, c, d]"
  unfolding ipv4String_def by (rule Split_Join) (auto simp: FormatUint_no_dot)

lemma FormatUint_169: "FormatUint 169 = ''169''" and FormatUint_254: "FormatUint 254 = ''254''"
  by (simp_all add: FormatUint.simps digit_def)

lemma isLinkLocal_ipv4: "isLinkLocal (ipv4String a b c d) \<longleftrightarrow> a = 169 \<and> b = 254"
proof -
  have fe80: "\<not> HasPrefix (ipv4String a b c d) ''fe80:''"
  proof -
    have "hd (ipv4String a b c d) \<in> set (FormatUint (unat a))"
      by (cases "FormatUint (unat a)") (simp_all add: ipv4String_def)
    then have "is_digit (hd (ipv4String a b c d))" by (rule FormatUint_digits)
    then show ?thesis by (auto simp: HasPrefix_iff is_digit_def)
  qed
  have "HasPrefix (ipv4String a b c d) ''169.254.'' \<longleftrightarrow> unat a = 169 \<and> unat b = 254"
  proof
    assume "HasPrefix (ipv4String a b c d) ''169.254.''"
    then obtain t where "ipv4String a b c d = ''169'' @ CHR ''.'' # ''254'' @ CHR ''.'' # t"
      by (auto simp: HasPrefix_iff)
    then have "Split CHR ''.'' (ipv4String a b c d) = ''169'' # ''254'' # Split CHR ''.'' t"
      by (simp only: Split_append_sep) simp
    then have "FormatUint (unat a) = FormatUint 169" "FormatUint (unat b) = FormatUint 254"
      by (simp_all add: Split_ipv4String FormatUint_169 FormatUint_254)
    then show "unat a = 169 \<and> unat b = 254" by simp
  next
    assume "unat a = 169 \<and> unat b = 254"
    then show "HasPrefix (ipv4String a b c d) ''169.254.''"
      by (simp add: ipv4String_def FormatUint_169 FormatUint_254)
  qed
  moreover have "unat a = 169 \<longleftrightarrow> a = 169" "unat b = 254 \<longleftrightarrow> b = 254"
    by (simp_all add: word_unat_eq_iff)
  ultimately show ?thesis using fe80 by (simp add: isLinkLocal_def)
qed

lemma FormatHex_nonempty [simp]: "FormatHex n \<noteq> []"
  by (subst FormatHex.simps) simp

lemma hexLower_cases:
  assumes "d < 16"
  shows "hex_val (''0123456789abcdef'' ! d) = Some d"
    and "''0123456789abcdef'' ! d \<noteq> CHR '':''" and "''0123456789abcdef'' ! d \<noteq> CHR ''.''"
proof -
  have "d \<in> {0, 1, 2, 3, 4, 5, 6, 7, 8, 9, 10, 11, 12, 13, 14, 15}"
    using assms unfolding insert_iff empty_iff by arith
  then show "hex_val (''0123456789abcdef'' ! d) = Some d"
    and "''0123456789abcdef'' ! d \<noteq> CHR '':''" and "''0123456789abcdef'' ! d \<noteq> CHR ''.''"
    by (auto simp: hex_val_def)
qed

lemma FormatHex_chars: "c \<in> set (FormatHex n) \<Longrightarrow> c \<noteq> CHR '':'' \<and> c \<noteq> CHR ''.''"
proof (induction n rule: FormatHex.induct)
  case (1 n)
  have "''0123456789abcdef'' ! d \<noteq> CHR '':'' \<and> ''0123456789abcdef'' ! d \<noteq> CHR ''.''" if "d < 16" for d
    using that hexLower_cases(2,3) by blast
  from this [of n] this [of "n mod 16"] 1 show ?case
    by (cases "n < 16") (auto simp: FormatHex.simps [of n])
qed

lemma FormatHex_inject: "FormatHex m = FormatHex n \<Longrightarrow> m = n"
proof -
  define val where "val s = foldl (\<lambda>n c. 16 * n + the (hex_val c)) 0 s" for s
  have "val (FormatHex k) = k" for k
  proof (induction k rule: FormatHex.induct)
    case (1 k)
    have "k mod 16 < 16" by simp
    with 1 show ?case
      by (cases "k < 16") (simp_all add: FormatHex.simps [of k] val_def hexLower_cases(1))
  qed
  then show "FormatHex m = FormatHex n \<Longrightarrow> m = n" by metis
qed

lemma v6emit_chars: "CHR ''.'' \<notin> set (v6emit gs zs zl i)"
proof (induction gs zs zl i rule: v6emit.induct)
  case (1 gs zs zl i)
  then show ?case
    by (subst v6emit.simps) (auto dest: FormatHex_chars)
qed

lemma length_v6groups [simp]: "length (v6groups b) = 8"
  by (simp add: v6groups_def)

lemma zero_run_start:
  "zero_run gs is (s, l) = (s', l') \<Longrightarrow>
   (s' = s \<and> l' = l) \<or> (s' \<in> set is \<and> 2 \<le> l' \<and> l' = length (takeWhile (\<lambda>g. g = 0) (drop s' gs)))"
proof (induction gs "is" "(s, l)" arbitrary: s l rule: zero_run.induct)
  case (2 gs i "is" s l)
  then show ?case by (auto simp: Let_def split: if_splits)
qed simp

text \<open>What the text of an address starts with: its first group and a colon, unless the address
  starts with the run of zeros that is written as two colons.\<close>

lemma ipv6String_front:
  assumes "hd (v6groups b) \<noteq> 0"
  shows "\<exists>t. ipv6String b = FormatHex (hd (v6groups b)) @ CHR '':'' # t"
proof -
  obtain zs zl where z: "zero_run (v6groups b) [0..<8] (255, 0) = (zs, zl)" by fastforce
  have hd: "v6groups b ! 0 = hd (v6groups b)" by (metis hd_conv_nth length_0_conv length_v6groups zero_neq_numeral)
  have "zs \<noteq> 0"
  proof
    assume "zs = 0"
    with zero_run_start [OF z] have "2 \<le> length (takeWhile (\<lambda>g. g = 0) (v6groups b))" by auto
    with assms show False by (cases "v6groups b") auto
  qed
  then have "v6emit (v6groups b) zs zl 0 = FormatHex (hd (v6groups b)) @ v6emit (v6groups b) zs zl 1"
    using hd by (subst v6emit.simps) simp
  moreover have "\<exists>t. v6emit (v6groups b) zs zl 1 = CHR '':'' # t"
    by (subst v6emit.simps) auto
  ultimately show ?thesis using z by (auto simp: ipv6String_def)
qed

lemma ipv6String_front_zero:
  assumes "hd (v6groups b) = 0"
  shows "(\<exists>t. ipv6String b = CHR ''0'' # t) \<or> (\<exists>t. ipv6String b = CHR '':'' # t)"
proof -
  obtain zs zl where z: "zero_run (v6groups b) [0..<8] (255, 0) = (zs, zl)" by fastforce
  have "v6groups b ! 0 = 0" using assms by (metis hd_conv_nth length_0_conv length_v6groups zero_neq_numeral)
  then show ?thesis
    using z by (auto simp: ipv6String_def Let_def v6emit.simps [of _ _ _ 0] FormatHex.simps [of 0])
qed

lemma isLinkLocal_ipv6: "isLinkLocal (ipv6String b) \<longleftrightarrow> hd (v6groups b) = 0xfe80"
proof -
  have no_dot: "CHR ''.'' \<notin> set (ipv6String b)"
    using v6emit_chars by (simp add: ipv6String_def Let_def split: prod.split)
  then have v4: "\<not> HasPrefix (ipv6String b) ''169.254.''" by (auto simp: HasPrefix_iff)
  have fe80: "FormatHex 0xfe80 = ''fe80''" by (simp add: FormatHex.simps)
  have "HasPrefix (ipv6String b) ''fe80:'' \<longleftrightarrow> hd (v6groups b) = 0xfe80"
  proof (cases "hd (v6groups b) = 0")
    case True
    then show ?thesis using ipv6String_front_zero [OF True] by (auto simp: HasPrefix_iff)
  next
    case False
    then obtain t where t: "ipv6String b = FormatHex (hd (v6groups b)) @ CHR '':'' # t"
      using ipv6String_front by blast
    have no_colon: "CHR '':'' \<notin> set (FormatHex (hd (v6groups b)))" using FormatHex_chars by blast
    show ?thesis
    proof
      assume "HasPrefix (ipv6String b) ''fe80:''"
      then obtain u where "ipv6String b = ''fe80'' @ CHR '':'' # u" by (auto simp: HasPrefix_iff)
      with t have "Cut CHR '':'' (FormatHex (hd (v6groups b)) @ CHR '':'' # t) = Cut CHR '':'' (''fe80'' @ CHR '':'' # u)"
        by simp
      with no_colon have "FormatHex (hd (v6groups b)) = FormatHex 0xfe80"
        by (simp add: Cut_found fe80)
      then show "hd (v6groups b) = 0xfe80" by (rule FormatHex_inject)
    next
      assume "hd (v6groups b) = 0xfe80"
      with t fe80 show "HasPrefix (ipv6String b) ''fe80:''" by simp
    qed
  qed
  with v4 show ?thesis by (simp add: isLinkLocal_def)
qed

section \<open>Properties\<close>

text \<open>\<open>DecodeAddr\<close> inverts the colon-hex rendering: on a 20-byte address it returns the
  dotted IPv4 text when bytes 10 and 11 are FF:FF (whatever bytes 0 to 9 are) and the IPv6 text
  of the first 16 bytes otherwise; every other length is refused.\<close>

theorem DecodeAddr_addrHex:
  "DecodeAddr (addrHex b) =
     (if length b \<noteq> 20 then None
      else if b ! 10 = 0xff \<and> b ! 11 = 0xff then Some (ipv4String (b ! 12) (b ! 13) (b ! 14) (b ! 15))
      else Some (netIPString (take 16 b)))"
proof -
  have "\<not> is4in6 (take 16 b)" if "\<not> (b ! 10 = 0xff \<and> b ! 11 = 0xff)"
    using that by (auto simp: is4in6_def)
  then show ?thesis by (simp add: DecodeAddr_addrHex_eq netIPString_def)
qed

text \<open>On a decoded tmstat address the link-local test holds exactly for the IPv4 range
  169.254.0.0/16 and for the IPv6 addresses whose first 16-bit group is FE80, so of the
  link-local block fe80::/10 it recognises the first /16 only.\<close>

theorem isLinkLocal_decoded:
  "map_option isLinkLocal (DecodeAddr (addrHex b)) =
     (if length b \<noteq> 20 then None
      else if b ! 10 = 0xff \<and> b ! 11 = 0xff then Some (b ! 12 = 169 \<and> b ! 13 = 254)
      else Some (256 * unat (b ! 0) + unat (b ! 1) = 0xfe80))"
proof -
  have "hd (v6groups (take 16 b)) = 256 * unat (b ! 0) + unat (b ! 1)" if "length b = 20"
    by (simp add: v6groups_def upt_conv_Cons)
  then show ?thesis
    by (simp add: DecodeAddr_addrHex_eq isLinkLocal_ipv4 isLinkLocal_ipv6)
qed

end
