(* ===== verification/TmRows.thy ===== *)
theory TmRows
  imports TmSchema TmAddr GoFloat
begin

text \<open>
  Reading rows (\<open>internal/tmstat/tmstat.go\<close>): \<open>Value\<close> and \<open>Float\<close> of one column,
  \<open>RawRows\<close>, the key aggregation \<open>aggregate\<close> with its in-place merge of counters, \<open>Rows\<close> and
  \<open>CSV\<close>. Every row owns a copy of its bytes, so updating the row at a position of the output
  list is what the in-place merge does. The lemmas say that the aggregation is a group-by on
  the key columns, in order of first occurrence, that merges each group into its first row.
\<close>

section \<open>Columns of a row\<close>

definition Float :: "row \<Rightarrow> column \<Rightarrow> f64" where
  "Float r c =
     (if colType c = typeSignedInt then to_f64 (leInt (rowRaw r) (colOffset c) (colSize c))
      else if colType c = typeUnsignedInt then to_f64 (uint (leUint (rowRaw r) (colOffset c) (colSize c)))
      else FInt 0)"

definition Value :: "row \<Rightarrow> column \<Rightarrow> string option" where
  "Value r c =
     (if colOffset c + colSize c > length (rowRaw r) then Some []
      else if colType c = typeString then cstr (rowRaw r) (colOffset c) (colSize c)
      else if colType c = typeAddress then
        do { s \<leftarrow> slice_expr (rowRaw r) (colOffset c) (colOffset c + colSize c); Some (addrHex s) }
      else if colType c = typeSignedInt then
        Some (FormatInt (leInt (rowRaw r) (colOffset c) (colSize c)))
      else Some (FormatUint (unat (leUint (rowRaw r) (colOffset c) (colSize c)))))"

section \<open>Key aggregation\<close>

definition keyColumns :: "table \<Rightarrow> column list" where
  "keyColumns t = filter (\<lambda>c. colRule c = ruleKey \<and> \<not> colDropped c) (tabColumns t)"

text \<open>The key: each key column's value and a NUL.\<close>

fun rowKey :: "column list \<Rightarrow> row \<Rightarrow> string option" where
  "rowKey [] r = Some []"
| "rowKey (c # cs) r =
     do { v \<leftarrow> Value r c; k \<leftarrow> rowKey cs r; Some (v @ CHR 0x00 # k) }"

definition summed :: "column \<Rightarrow> bool" where
  "summed c \<longleftrightarrow> colRule c = ruleCounter \<and> colType c \<noteq> typeString \<and> colType c \<noteq> typeAddress"

fun mergeCols :: "column list \<Rightarrow> row \<Rightarrow> bytes \<Rightarrow> bytes" where
  "mergeCols [] r dst = dst"
| "mergeCols (c # cs) r dst =
     mergeCols cs r
       (if summed c
        then setUint dst (colOffset c) (colSize c)
               (leUint dst (colOffset c) (colSize c) + Uint r (colName c))
        else dst)"

fun aggLoop :: "table \<Rightarrow> column list \<Rightarrow> row list \<Rightarrow> (string \<rightharpoonup> nat) \<Rightarrow> row list \<Rightarrow> row list option" where
  "aggLoop t keyCols [] index out = Some out"
| "aggLoop t keyCols (r # rs) index out =
     do {
       key \<leftarrow> rowKey keyCols r;
       (case index key of
          Some pos \<Rightarrow>
            if length out \<le> pos then None
            else aggLoop t keyCols rs index
              (out[pos := (out ! pos)\<lparr>rowRaw := mergeCols (tabColumns t) r (rowRaw (out ! pos))\<rparr>])
        | None \<Rightarrow> aggLoop t keyCols rs (index(key \<mapsto> length out)) (out @ [r]))
     }"

definition aggregate :: "table \<Rightarrow> row list \<Rightarrow> row list option" where
  "aggregate t rows =
     (let keyCols = keyColumns t in
      if keyCols = [] then Some rows else aggLoop t keyCols rows Map.empty [])"

section \<open>RawRows, Rows and CSV\<close>

text \<open>\<open>make([]Row, 0, n)\<close>: a row is a pointer and a slice, 32 bytes.\<close>

definition makeRows :: "nat \<Rightarrow> row list option" where
  "makeRows n = (if 32 * int n > maxAlloc then None else Some [])"

definition rawCallback :: "table \<Rightarrow> bytes \<Rightarrow> row list \<Rightarrow> row list" where
  "rawCallback t raw rows =
     (if 0 < tabRows t \<and> tabRows t \<le> length rows then rows
      else if allZero raw then rows
      else rows @ [\<lparr>rowTbl = t, rowRaw = raw\<rparr>])"

definition RawRows :: "segment \<Rightarrow> string \<Rightarrow> (tm_error + row list) option" where
  "RawRows s name =
     (case byName s name of
        None \<Rightarrow> Some (Inl (NoSuchTable name))
      | Some p \<Rightarrow>
          (let t = tables s ! p in
           do {
             rows \<leftarrow> makeRows (tabRows t);
             raws \<leftarrow> walkSlabRows s (tabID t) (- 1);
             Some (Inr (fold (rawCallback t) raws rows))
           }))"

definition Rows :: "segment \<Rightarrow> string \<Rightarrow> (tm_error + row list) option" where
  "Rows s name =
     do {
       raw \<leftarrow> RawRows s name;
       (case raw of
          Inl e \<Rightarrow> Some (Inl e)
        | Inr rows \<Rightarrow> do {
            p \<leftarrow> byName s name;
            out \<leftarrow> aggregate (tables s ! p) rows;
            Some (Inr out)
          })
     }"

fun valuesOf :: "row \<Rightarrow> column list \<Rightarrow> string list option" where
  "valuesOf r [] = Some []"
| "valuesOf r (c # cs) = do { v \<leftarrow> Value r c; vs \<leftarrow> valuesOf r cs; Some (v # vs) }"

fun csvLines :: "column list \<Rightarrow> row list \<Rightarrow> string option" where
  "csvLines cols [] = Some []"
| "csvLines cols (r # rs) =
     do { vs \<leftarrow> valuesOf r cols; rest \<leftarrow> csvLines cols rs; Some (Join CHR '','' vs @ CHR 0x0A # rest) }"

definition CSV :: "segment \<Rightarrow> string \<Rightarrow> (tm_error + string) option" where
  "CSV s name =
     do {
       res \<leftarrow> Rows s name;
       (case res of
          Inl e \<Rightarrow> Some (Inl e)
        | Inr rows \<Rightarrow> do {
            p \<leftarrow> byName s name;
            let cols = tabColumns (tables s ! p);
            body \<leftarrow> csvLines cols rows;
            Some (Inr (Join CHR '','' (map colName cols) @ CHR 0x0A # body))
          })
     }"

section \<open>Values\<close>

text \<open>The text of a column, as a total function.\<close>

definition render :: "row \<Rightarrow> column \<Rightarrow> string" where
  "render r c = the (Value r c)"

lemma Value_render: "Value r c = Some (render r c)"
  by (auto simp: render_def Value_def cstr_in_range)

lemma render_cases:
  "render r c =
     (let f = take (colSize c) (drop (colOffset c) (rowRaw r)) in
      if colOffset c + colSize c > length (rowRaw r) then []
      else if colType c = typeString then string_of_bytes (takeWhile (\<lambda>x. x \<noteq> 0) f)
      else if colType c = typeAddress then addrHex f
      else if colType c = typeSignedInt then FormatInt (leInt (rowRaw r) (colOffset c) (colSize c))
      else FormatUint (unat (leUint (rowRaw r) (colOffset c) (colSize c))))"
  by (auto simp: render_def Value_def cstr_in_range)

text \<open>A column's text depends on the column's own bytes only.\<close>

lemma render_cong:
  assumes "length (rowRaw r) = length (rowRaw r')"
    and "take (colSize c) (drop (colOffset c) (rowRaw r)) = take (colSize c) (drop (colOffset c) (rowRaw r'))"
  shows "render r c = render r' c"
  using assms leUint_cong [OF assms] by (simp add: render_cases leInt_def Let_def)

lemma is_digit_not_nul: "is_digit c \<Longrightarrow> c \<noteq> CHR 0x00"
  by (auto simp: is_digit_def)

lemma FormatInt_no_nul: "CHR 0x00 \<notin> set (FormatInt i)"
  using FormatUint_digits is_digit_not_nul by (auto simp: FormatInt_def)

text \<open>No column's text holds a NUL, which is what makes the NUL-separated key unambiguous.\<close>

lemma render_no_nul: "CHR 0x00 \<notin> set (render r c)"
proof -
  have "CHR 0x00 \<notin> set (string_of_bytes (takeWhile (\<lambda>x. x \<noteq> 0) f))" for f
    by (auto simp: string_of_bytes_def byte_char_0 [symmetric] dest!: set_takeWhileD)
  moreover have "CHR 0x00 \<notin> set (FormatUint n)" for n
    using FormatUint_digits is_digit_not_nul by blast
  ultimately show ?thesis
    using addrHex_no_nul FormatInt_no_nul by (simp add: render_cases Let_def)
qed

definition keyOf :: "column list \<Rightarrow> row \<Rightarrow> string" where
  "keyOf cs r = concat (map (\<lambda>c. render r c @ [CHR 0x00]) cs)"

lemma rowKey_keyOf: "rowKey cs r = Some (keyOf cs r)"
  by (induction cs) (simp_all add: keyOf_def Value_render)

lemma keyOf_eq_iff: "keyOf cs r = keyOf cs r' \<longleftrightarrow> (\<forall>c \<in> set cs. render r c = render r' c)"
proof (induction cs)
  case Nil
  then show ?case by (simp add: keyOf_def)
next
  case (Cons c cs)
  have "render r c @ CHR 0x00 # keyOf cs r = render r' c @ CHR 0x00 # keyOf cs r' \<longleftrightarrow>
      render r c = render r' c \<and> keyOf cs r = keyOf cs r'" (is "?l \<longleftrightarrow> ?r")
  proof
    assume ?l
    then have "Cut CHR 0x00 (render r c @ CHR 0x00 # keyOf cs r)
      = Cut CHR 0x00 (render r' c @ CHR 0x00 # keyOf cs r')" by simp
    then show ?r by (simp add: Cut_found render_no_nul)
  qed simp
  with Cons show ?case by (simp add: keyOf_def)
qed

section \<open>The aggregation is a group-by\<close>

text \<open>The distinct elements in order of first occurrence.\<close>

definition firsts :: "'a list \<Rightarrow> 'a list" where
  "firsts xs = rev (remdups (rev xs))"

lemma firsts_Nil [simp]: "firsts [] = []"
  by (simp add: firsts_def)

lemma firsts_snoc [simp]: "firsts (xs @ [x]) = (if x \<in> set xs then firsts xs else firsts xs @ [x])"
  by (simp add: firsts_def)

lemma set_firsts [simp]: "set (firsts xs) = set xs"
  by (simp add: firsts_def)

lemma distinct_firsts [simp]: "distinct (firsts xs)"
  by (simp add: firsts_def)

definition mergeInto :: "table \<Rightarrow> row \<Rightarrow> row \<Rightarrow> row" where
  "mergeInto t d r = d\<lparr>rowRaw := mergeCols (tabColumns t) r (rowRaw d)\<rparr>"

text \<open>A group is merged into its first row.\<close>

fun mergeGroup :: "table \<Rightarrow> row list \<Rightarrow> row" where
  "mergeGroup t [] = \<lparr>rowTbl = t, rowRaw = []\<rparr>"
| "mergeGroup t (r # rs) = foldl (mergeInto t) r rs"

definition groupOf :: "table \<Rightarrow> row list \<Rightarrow> string \<Rightarrow> row list" where
  "groupOf t rows k = filter (\<lambda>r. keyOf (keyColumns t) r = k) rows"

definition rowKeys :: "table \<Rightarrow> row list \<Rightarrow> string list" where
  "rowKeys t rows = firsts (map (keyOf (keyColumns t)) rows)"

definition groupMerge :: "table \<Rightarrow> row list \<Rightarrow> row list" where
  "groupMerge t rows = map (\<lambda>k. mergeGroup t (groupOf t rows k)) (rowKeys t rows)"

lemma mergeGroup_snoc: "rs \<noteq> [] \<Longrightarrow> mergeGroup t (rs @ [r]) = mergeInto t (mergeGroup t rs) r"
  by (cases rs) simp_all

lemma groupMerge_snoc:
  "groupMerge t (ps @ [r]) =
    (let k = keyOf (keyColumns t) r in
     if k \<in> set (rowKeys t ps)
     then map (\<lambda>k'. let g = mergeGroup t (groupOf t ps k') in if k' = k then mergeInto t g r else g) (rowKeys t ps)
     else groupMerge t ps @ [r])"
proof -
  let ?k = "keyOf (keyColumns t) r"
  have keys: "rowKeys t (ps @ [r]) = (if ?k \<in> set (rowKeys t ps) then rowKeys t ps else rowKeys t ps @ [?k])"
    by (simp add: rowKeys_def)
  have group: "groupOf t (ps @ [r]) k' = groupOf t ps k' @ (if ?k = k' then [r] else [])" for k'
    by (simp add: groupOf_def)
  have nonempty: "groupOf t ps k' \<noteq> [] \<longleftrightarrow> k' \<in> set (rowKeys t ps)" for k'
    by (auto simp: groupOf_def rowKeys_def filter_empty_conv)
  show ?thesis
  proof (cases "?k \<in> set (rowKeys t ps)")
    case True
    then show ?thesis
      using nonempty by (auto simp: groupMerge_def keys group Let_def mergeGroup_snoc)
  next
    case False
    then have "groupOf t ps ?k = []" using nonempty by blast
    with False show ?thesis
      by (auto simp: groupMerge_def keys group Let_def)
  qed
qed

definition index_of :: "string list \<Rightarrow> (string \<rightharpoonup> nat) \<Rightarrow> bool" where
  "index_of ks ix \<longleftrightarrow> (\<forall>k pos. ix k = Some pos \<longleftrightarrow> pos < length ks \<and> ks ! pos = k)"

lemma index_of_snoc: "index_of ks ix \<Longrightarrow> k \<notin> set ks \<Longrightarrow> index_of (ks @ [k]) (ix(k \<mapsto> length ks))"
  by (auto simp: index_of_def nth_append less_Suc_eq)

lemma index_of_None: "index_of ks ix \<Longrightarrow> ix k = None \<longleftrightarrow> k \<notin> set ks"
  by (metis index_of_def in_set_conv_nth not_None_eq)

lemma aggLoop_eq:
  assumes "index_of (rowKeys t ps) ix"
  shows "aggLoop t (keyColumns t) rs ix (groupMerge t ps) = Some (groupMerge t (ps @ rs))"
  using assms
proof (induction rs arbitrary: ps ix)
  case Nil
  then show ?case by simp
next
  case (Cons r rs)
  let ?k = "keyOf (keyColumns t) r"
  have len: "length (groupMerge t ps) = length (rowKeys t ps)" by (simp add: groupMerge_def)
  show ?case
  proof (cases "ix ?k")
    case None
    with Cons.prems have new: "?k \<notin> set (rowKeys t ps)" by (simp add: index_of_None)
    then have "rowKeys t (ps @ [r]) = rowKeys t ps @ [?k]" by (simp add: rowKeys_def)
    with Cons.prems new have "index_of (rowKeys t (ps @ [r])) (ix(?k \<mapsto> length (groupMerge t ps)))"
      by (simp add: len index_of_snoc)
    from Cons.IH [OF this] None new show ?thesis
      by (simp add: rowKey_keyOf groupMerge_snoc Let_def fun_upd_def)
  next
    case (Some pos)
    with Cons.prems have pos: "pos < length (rowKeys t ps)" "rowKeys t ps ! pos = ?k"
      by (auto simp: index_of_def)
    then have old: "?k \<in> set (rowKeys t ps)" by (metis nth_mem)
    have step: "groupMerge t (ps @ [r]) = map (\<lambda>k'. let g = mergeGroup t (groupOf t ps k')
        in if k' = ?k then mergeInto t g r else g) (rowKeys t ps)"
      using old by (simp add: groupMerge_snoc Let_def)
    have "(groupMerge t ps)[pos := mergeInto t (groupMerge t ps ! pos) r] = groupMerge t (ps @ [r])"
      unfolding step
    proof (rule nth_equalityI)
      fix i assume "i < length ((groupMerge t ps)[pos := mergeInto t (groupMerge t ps ! pos) r])"
      then have i: "i < length (rowKeys t ps)" by (simp add: len)
      have "rowKeys t ps ! i = ?k \<longleftrightarrow> i = pos"
        using i pos by (metis distinct_firsts nth_eq_iff_index_eq rowKeys_def)
      with i pos show "(groupMerge t ps)[pos := mergeInto t (groupMerge t ps ! pos) r] ! i
          = map (\<lambda>k'. let g = mergeGroup t (groupOf t ps k')
              in if k' = ?k then mergeInto t g r else g) (rowKeys t ps) ! i"
        by (auto simp: Let_def nth_list_update groupMerge_def)
    qed (simp add: len)
    moreover have "rowKeys t (ps @ [r]) = rowKeys t ps" using old by (simp add: rowKeys_def)
    ultimately show ?thesis
      using Cons.IH [of "ps @ [r]" ix] Cons.prems Some pos(1)
      by (simp add: rowKey_keyOf mergeInto_def len)
  qed
qed

lemma aggregate_groupMerge:
  "aggregate t rows = Some (if keyColumns t = [] then rows else groupMerge t rows)"
proof -
  have "index_of (rowKeys t []) Map.empty" by (simp add: index_of_def rowKeys_def)
  from aggLoop_eq [OF this, of rows] show ?thesis
    by (simp add: aggregate_def Let_def groupMerge_def rowKeys_def)
qed

section \<open>What the merge does to the bytes\<close>

text \<open>
  The layout tmm's tables have: columns have names of their own, the counter columns share no
  byte, and no key column shares a byte with a counter.
\<close>

definition agg_layout :: "table \<Rightarrow> bool" where
  "agg_layout t \<longleftrightarrow> distinct (map colName (tabColumns t))
     \<and> pairwise (\<lambda>c d. disjoint_fields (colOffset c) (colSize c) (colOffset d) (colSize d))
         {c \<in> set (tabColumns t). summed c}
     \<and> (\<forall>k \<in> set (keyColumns t). \<forall>c \<in> {c \<in> set (tabColumns t). summed c}.
          disjoint_fields (colOffset k) (colSize k) (colOffset c) (colSize c))"

definition counterOf :: "column \<Rightarrow> row \<Rightarrow> 64 word" where
  "counterOf c r = leUint (rowRaw r) (colOffset c) (colSize c)"

lemma find_by_name:
  "distinct (map colName cs) \<Longrightarrow> c \<in> set cs \<Longrightarrow> find (\<lambda>d. colName d = colName c) cs = Some c"
  by (induction cs) auto

lemma Uint_column:
  assumes "distinct (map colName (tabColumns (rowTbl r)))" and "c \<in> set (tabColumns (rowTbl r))"
  shows "Uint r (colName c) = counterOf c r"
  using find_by_name [OF assms] by (simp add: Uint_def col_def counterOf_def)

text \<open>The loop over the columns is the accumulation of the byte-field interface.\<close>

lemma mergeCols_accumulate:
  "mergeCols cs r dst =
     foldl (\<lambda>b c. setUint b (colOffset c) (colSize c) (leUint b (colOffset c) (colSize c) + Uint r (colName c)))
       dst (filter summed cs)"
  by (induction cs arbitrary: dst) auto

lemma length_mergeCols [simp]: "length (mergeCols cs r dst) = length dst"
  by (simp add: mergeCols_accumulate)

lemma mergeCols_counter:
  assumes "agg_layout t" and "c \<in> set (tabColumns t)" and "summed c"
    and "colOffset c + colSize c \<le> length dst" and "rowTbl r = t"
  shows "leUint (mergeCols (tabColumns t) r dst) (colOffset c) (colSize c)
    = take_bit (8 * colSize c) (leUint dst (colOffset c) (colSize c) + counterOf c r)"
proof -
  have names: "distinct (map colName (tabColumns t))"
    and pw: "pairwise (\<lambda>c d. disjoint_fields (colOffset c) (colSize c) (colOffset d) (colSize d))
         (set (filter summed (tabColumns t)))"
    using assms(1) by (simp_all add: agg_layout_def)
  have "distinct (filter summed (tabColumns t))" using names by (simp add: distinct_map)
  with pw assms(2-4) have "leUint (mergeCols (tabColumns t) r dst) (colOffset c) (colSize c)
    = take_bit (8 * colSize c) (leUint dst (colOffset c) (colSize c) + Uint r (colName c))"
    unfolding mergeCols_accumulate by (intro le.accumulate) auto
  then show ?thesis using Uint_column [of r c] names assms(2,5) by simp
qed

lemma mergeCols_frame:
  assumes "\<forall>c \<in> set cs. summed c \<longrightarrow> disjoint_fields o1 s1 (colOffset c) (colSize c)"
  shows "take s1 (drop o1 (mergeCols cs r dst)) = take s1 (drop o1 dst)"
  unfolding mergeCols_accumulate using assms by (intro le.accumulate_frame) auto

text \<open>A group's merge, by induction over the rows merged into the first.\<close>

lemma mergeGroup_sel:
  "rs \<noteq> [] \<Longrightarrow> rowTbl (mergeGroup t rs) = rowTbl (hd rs) \<and>
     length (rowRaw (mergeGroup t rs)) = length (rowRaw (hd rs))"
proof (induction rs rule: rev_induct)
  case (snoc r rs)
  show ?case
  proof (cases "rs = []")
    case False
    with snoc show ?thesis by (simp add: mergeGroup_snoc mergeInto_def)
  qed simp
qed simp

lemma mergeGroup_frame:
  assumes "\<forall>c \<in> set (tabColumns t). summed c \<longrightarrow> disjoint_fields o1 s1 (colOffset c) (colSize c)"
  shows "rs \<noteq> [] \<Longrightarrow> take s1 (drop o1 (rowRaw (mergeGroup t rs))) = take s1 (drop o1 (rowRaw (hd rs)))"
proof (induction rs rule: rev_induct)
  case (snoc r rs)
  show ?case
  proof (cases "rs = []")
    case False
    with snoc show ?thesis by (simp add: mergeGroup_snoc mergeInto_def mergeCols_frame [OF assms])
  qed simp
qed simp

lemma take_bit_add_left: "take_bit n (take_bit n a + b) = take_bit n (a + b :: 'a :: len word)"
proof (rule word_uint_eqI)
  let ?m = "min n LENGTH('a)"
  have int: "take_bit ?m (take_bit n x + y) = take_bit ?m (x + y)" for x y :: int
    by (metis min.cobounded1 take_bit_add take_bit_take_bit min.absorb1)
  have cut: "uint (take_bit n (u + v)) = take_bit ?m (uint u + uint v)" for u v :: "'a word"
    by (simp only: unsigned_take_bit_eq uint_plus_simple_iff uint_word_ariths) (simp add: take_bit_eq_mod [symmetric] min.commute)
  show "uint (take_bit n (take_bit n a + b)) = uint (take_bit n (a + b))"
    by (simp only: cut) (simp only: unsigned_take_bit_eq int)
qed

lemma mergeGroup_counter:
  assumes "agg_layout t" and "c \<in> set (tabColumns t)" and "summed c"
  shows "rs \<noteq> [] \<Longrightarrow> \<forall>r \<in> set rs. rowTbl r = t \<Longrightarrow>
    colOffset c + colSize c \<le> length (rowRaw (hd rs)) \<Longrightarrow>
    counterOf c (mergeGroup t rs) = take_bit (8 * colSize c) (\<Sum>r\<leftarrow>rs. counterOf c r)"
proof (induction rs rule: rev_induct)
  case (snoc r rs)
  show ?case
  proof (cases "rs = []")
    case True
    then show ?thesis by (simp add: counterOf_def leUint_fits)
  next
    case False
    let ?g = "mergeGroup t rs"
    from snoc False have ih: "counterOf c ?g = take_bit (8 * colSize c) (\<Sum>r\<leftarrow>rs. counterOf c r)" by simp
    have "colOffset c + colSize c \<le> length (rowRaw ?g)"
      using mergeGroup_sel [OF False, of t] snoc.prems(3) False by simp
    then have "counterOf c (mergeInto t ?g r) = take_bit (8 * colSize c) (counterOf c ?g + counterOf c r)"
      using mergeCols_counter [OF assms, of "rowRaw ?g" r] snoc.prems(2)
      unfolding mergeInto_def counterOf_def by simp
    then have "counterOf c (mergeInto t ?g r)
        = take_bit (8 * colSize c) ((\<Sum>r\<leftarrow>rs. counterOf c r) + counterOf c r)"
      unfolding ih take_bit_add_left .
    then show ?thesis unfolding mergeGroup_snoc [OF False] by simp
  qed
qed simp

text \<open>The key of a merged group is the key it was grouped by.\<close>

lemma keyOf_mergeGroup:
  assumes "agg_layout t" and "rs \<noteq> []"
  shows "keyOf (keyColumns t) (mergeGroup t rs) = keyOf (keyColumns t) (hd rs)"
proof -
  have "render (mergeGroup t rs) k = render (hd rs) k" if "k \<in> set (keyColumns t)" for k
  proof (rule render_cong)
    show "length (rowRaw (mergeGroup t rs)) = length (rowRaw (hd rs))"
      using mergeGroup_sel [OF assms(2)] by simp
    have "\<forall>c \<in> set (tabColumns t). summed c \<longrightarrow> disjoint_fields (colOffset k) (colSize k) (colOffset c) (colSize c)"
      using assms(1) that by (simp add: agg_layout_def)
    then show "take (colSize k) (drop (colOffset k) (rowRaw (mergeGroup t rs)))
        = take (colSize k) (drop (colOffset k) (rowRaw (hd rs)))"
      using assms(2) by (rule mergeGroup_frame)
  qed
  then show ?thesis by (simp add: keyOf_eq_iff)
qed

lemma groupOf_hd:
  assumes "k \<in> set (rowKeys t rows)"
  shows "groupOf t rows k \<noteq> []" and "hd (groupOf t rows k) \<in> set rows"
    and "keyOf (keyColumns t) (hd (groupOf t rows k)) = k"
proof -
  show ne: "groupOf t rows k \<noteq> []"
    using assms by (auto simp: groupOf_def rowKeys_def filter_empty_conv)
  then have "hd (groupOf t rows k) \<in> set (groupOf t rows k)" by (rule hd_in_set)
  then show "hd (groupOf t rows k) \<in> set rows" and "keyOf (keyColumns t) (hd (groupOf t rows k)) = k"
    by (auto simp: groupOf_def)
qed

lemma keys_groupMerge:
  assumes "agg_layout t"
  shows "map (keyOf (keyColumns t)) (groupMerge t rows) = rowKeys t rows"
  using groupOf_hd keyOf_mergeGroup [OF assms]
  by (intro nth_equalityI) (auto simp: groupMerge_def)

text \<open>Summing over the groups is summing over the rows.\<close>

lemma sum_groups:
  fixes f :: "row \<Rightarrow> 'a :: comm_monoid_add"
  assumes "distinct ks" and "set (map g rows) \<subseteq> set ks"
  shows "(\<Sum>k\<leftarrow>ks. \<Sum>r\<leftarrow>filter (\<lambda>r. g r = k) rows. f r) = (\<Sum>r\<leftarrow>rows. f r)"
  using assms(2)
proof (induction rows)
  case (Cons r rows)
  have split: "(\<Sum>k\<leftarrow>ks. \<Sum>r\<leftarrow>filter (\<lambda>r. g r = k) (r # rows). f r)
    = (\<Sum>k\<leftarrow>ks. (if g r = k then f r else 0) + (\<Sum>r\<leftarrow>filter (\<lambda>r. g r = k) rows. f r))"
    by (rule arg_cong [where f = sum_list], rule map_cong) auto
  have "(\<Sum>k\<leftarrow>ks. if g r = k then f r else 0) = (\<Sum>k \<in> set ks. if g r = k then f r else 0)"
    using assms(1) by (simp add: sum_list_distinct_conv_sum_set)
  also have "\<dots> = f r" using Cons.prems by simp
  finally show ?case using Cons unfolding split by (simp add: sum_list_addf)
qed simp

section \<open>The rows of a parsed segment\<close>

text \<open>The live rows of a table: its slots that are not all zero, at most its row count of them
  when it reports one.\<close>

definition liveRows :: "segment \<Rightarrow> table \<Rightarrow> row list" where
  "liveRows s t =
     (let live = filter (\<lambda>raw. \<not> allZero raw) (allRows s (tabID t))
      in map (\<lambda>raw. \<lparr>rowTbl = t, rowRaw = raw\<rparr>) (if tabRows t = 0 then live else take (tabRows t) live))"

lemma fold_rawCallback:
  "fold (rawCallback t) raws [] =
     map (\<lambda>raw. \<lparr>rowTbl = t, rowRaw = raw\<rparr>)
       (let live = filter (\<lambda>raw. \<not> allZero raw) raws in if tabRows t = 0 then live else take (tabRows t) live)"
proof (induction raws rule: rev_induct)
  case (snoc raw raws)
  then show ?case by (auto simp: rawCallback_def Let_def)
qed simp

lemma wf_schema_segment: "wf_schema s \<Longrightarrow> wf_segment s"
  by (simp add: wf_schema_def)

lemma makeRows_parsed: "wf_schema s \<Longrightarrow> byName s name = Some p \<Longrightarrow> makeRows (tabRows (tables s ! p)) = Some []"
proof -
  assume "wf_schema s" and "byName s name = Some p"
  then have "tabRows (tables s ! p) < 2 ^ 32" unfolding wf_schema_def by blast
  then show ?thesis by (simp add: makeRows_def maxAlloc_def)
qed

lemma RawRows_eq:
  "wf_schema s \<Longrightarrow> RawRows s name = Some
     (case byName s name of None \<Rightarrow> Inl (NoSuchTable name) | Some p \<Rightarrow> Inr (liveRows s (tables s ! p)))"
  by (simp add: RawRows_def walkSlabRows_eq [OF wf_schema_segment] fold_rawCallback liveRows_def Let_def makeRows_parsed
      split: option.split)

lemma Rows_eq:
  "wf_schema s \<Longrightarrow> Rows s name = Some
     (case byName s name of None \<Rightarrow> Inl (NoSuchTable name)
      | Some p \<Rightarrow> (let t = tables s ! p in
          Inr (if keyColumns t = [] then liveRows s t else groupMerge t (liveRows s t))))"
  by (simp add: Rows_def RawRows_eq aggregate_groupMerge Let_def split: option.split)

lemma valuesOf_eq: "valuesOf r cs = Some (map (render r) cs)"
  by (induction cs) (simp_all add: Value_render)

lemma csvLines_eq:
  "csvLines cols rows = Some (concat (map (\<lambda>r. Join CHR '','' (map (render r) cols) @ [CHR 0x0A]) rows))"
  by (induction rows) (simp_all add: valuesOf_eq)

lemma CSV_total: "wf_schema s \<Longrightarrow> CSV s name \<noteq> None"
  by (auto simp: CSV_def Rows_eq csvLines_eq Let_def split: option.split)

section \<open>Properties\<close>

text \<open>C4: the reader never panics: whatever the bytes of the segment, \<open>Parse\<close> returns a
  segment or an error, and on a segment it returned, \<open>RawRows\<close> (with its allocation for the row
  count the file gives), \<open>Rows\<close> and \<open>CSV\<close> return for every table name; the integer reader and
  writer under them index no byte out of range, whatever row, offset and size.\<close>

theorem reader_never_panics:
  "(case Parse data of
      None \<Rightarrow> False
    | Some (Inl e) \<Rightarrow> True
    | Some (Inr s) \<Rightarrow> RawRows s name \<noteq> None \<and> Rows s name \<noteq> None \<and> CSV s name \<noteq> None)
   \<and> leUint_run b off sz \<noteq> None \<and> setUint_run b off sz v \<noteq> None"
proof (cases "Parse data")
  case None
  then show ?thesis by (simp add: Parse_cases)
next
  case (Some res)
  show ?thesis
  proof (cases res)
    case (Inr s)
    then have "wf_schema s" using Some Parse_wf(1) by blast
    then show ?thesis using Some Inr by (simp add: RawRows_eq Rows_eq CSV_total)
  qed (use Some in simp)
qed

text \<open>C31: reading a table of a parsed segment: the raw rows are the slots of its slabs that are
  not all zero, in file order, cut to the table's row count when that is positive (empty slots
  use up none of it); \<open>Rows\<close> merges them by key when the table has key columns; an unknown name
  is an error.\<close>

theorem Rows_of_parsed:
  "case Parse data of
     Some (Inr s) \<Rightarrow>
       (case byName s name of
          None \<Rightarrow> RawRows s name = Some (Inl (NoSuchTable name)) \<and> Rows s name = Some (Inl (NoSuchTable name))
        | Some p \<Rightarrow>
            (let t = tables s ! p;
                 live = filter (\<lambda>raw. \<not> allZero raw) (allRows s (tabID t));
                 rows = map (\<lambda>raw. \<lparr>rowTbl = t, rowRaw = raw\<rparr>)
                          (if tabRows t = 0 then live else take (tabRows t) live)
             in RawRows s name = Some (Inr rows)
                \<and> Rows s name = Some (Inr (if keyColumns t = [] then rows else groupMerge t rows))))
   | _ \<Rightarrow> True"
proof (cases "Parse data")
  case (Some res)
  show ?thesis
  proof (cases res)
    case (Inr s)
    then have "wf_schema s" using Some Parse_wf(1) by blast
    then show ?thesis
      using Some Inr by (simp add: RawRows_eq Rows_eq liveRows_def Let_def split: option.split)
  qed (use Some in simp)
qed simp

text \<open>The aggregation key identifies the key columns: two rows get the same key string
  exactly when every key column renders to the same text, whatever bytes the columns hold.\<close>

theorem rowKey_injective:
  "rowKey cols r = rowKey cols r' \<longleftrightarrow> map (Value r) cols = map (Value r') cols"
  by (auto simp: rowKey_keyOf keyOf_eq_iff Value_render)

text \<open>\<open>aggregate\<close> is a group-by: one row per distinct key, in order of first occurrence, each
  group folded by the counter merge into its first row; with no key column the rows are
  returned as they are.\<close>

theorem aggregate_groups:
  "aggregate t rows =
     Some (if keyColumns t = [] then rows
           else map (\<lambda>k. mergeGroup t (filter (\<lambda>r. rowKey (keyColumns t) r = Some k) rows))
                  (firsts (map (\<lambda>r. the (rowKey (keyColumns t) r)) rows)))"
  by (simp add: aggregate_groupMerge groupMerge_def groupOf_def rowKeys_def rowKey_keyOf)

text \<open>A byte of a row that belongs to no counter.\<close>

definition plain_byte :: "table \<Rightarrow> nat \<Rightarrow> bool" where
  "plain_byte t i \<longleftrightarrow> list_all (\<lambda>c. summed c \<longrightarrow> disjoint_fields i 1 (colOffset c) (colSize c)) (tabColumns t)"

text \<open>An aggregated row against the first row of its group.\<close>

definition keeps_rest :: "table \<Rightarrow> row \<Rightarrow> row \<Rightarrow> bool" where
  "keeps_rest t d r \<longleftrightarrow> rowTbl d = rowTbl r \<and> length (rowRaw d) = length (rowRaw r)
     \<and> list_all (\<lambda>i. plain_byte t i \<longrightarrow> rowRaw d ! i = rowRaw r ! i) [0..<length (rowRaw r)]"

lemma mergeGroup_keeps_rest: "rs \<noteq> [] \<Longrightarrow> keeps_rest t (mergeGroup t rs) (hd rs)"
proof -
  assume ne: "rs \<noteq> []"
  have len: "length (rowRaw (mergeGroup t rs)) = length (rowRaw (hd rs))" using mergeGroup_sel [OF ne] by blast
  have "rowRaw (mergeGroup t rs) ! i = rowRaw (hd rs) ! i" if "plain_byte t i" "i < length (rowRaw (hd rs))" for i
  proof -
    have "take 1 (drop i (rowRaw (mergeGroup t rs))) = take 1 (drop i (rowRaw (hd rs)))"
      using that(1) ne by (intro mergeGroup_frame) (auto simp: plain_byte_def list_all_iff)
    with that(2) len show ?thesis by (simp add: take_Suc hd_drop_conv_nth)
  qed
  then show ?thesis using mergeGroup_sel [OF ne] by (auto simp: keeps_rest_def list_all_iff)
qed

text \<open>C1: under tmm's table layout (columns with distinct names, counters that share no byte with each
  other or with a key, rows that hold the column) each aggregated row holds, in every counter column,
  the sum of that column over the rows with its key modulo the column's width; its key is the
  group's key, and its table, its length and every byte outside the counters are those of the first
  row of the group. No two aggregated rows have the same key.\<close>

theorem aggregate_sums:
  assumes "agg_layout t" and "keyColumns t \<noteq> []" and "\<forall>r \<in> set rows. rowTbl r = t"
    and "c \<in> set (tabColumns t)" and "summed c"
    and "\<forall>r \<in> set rows. colOffset c + colSize c \<le> length (rowRaw r)"
  shows "\<exists>out. aggregate t rows = Some out
     \<and> map (keyOf (keyColumns t)) out = firsts (map (keyOf (keyColumns t)) rows)
     \<and> distinct (map (keyOf (keyColumns t)) out)
     \<and> map (counterOf c) out =
         map (\<lambda>k. take_bit (8 * colSize c)
                 (\<Sum>r\<leftarrow>filter (\<lambda>r. keyOf (keyColumns t) r = k) rows. counterOf c r))
           (firsts (map (keyOf (keyColumns t)) rows))
     \<and> list_all2 (keeps_rest t) out
         (map (\<lambda>k. hd (filter (\<lambda>r. keyOf (keyColumns t) r = k) rows)) (firsts (map (keyOf (keyColumns t)) rows)))"
proof -
  have rest: "list_all2 (keeps_rest t) (groupMerge t rows)
      (map (\<lambda>k. hd (filter (\<lambda>r. keyOf (keyColumns t) r = k) rows)) (rowKeys t rows))"
    using groupOf_hd(1) mergeGroup_keeps_rest
    by (auto simp: groupMerge_def list.rel_map list.rel_refl_strong groupOf_def intro!: list.rel_refl_strong)
  have "counterOf c (mergeGroup t (groupOf t rows k))
      = take_bit (8 * colSize c) (\<Sum>r\<leftarrow>groupOf t rows k. counterOf c r)" if "k \<in> set (rowKeys t rows)" for k
  proof (rule mergeGroup_counter [OF assms(1,4,5)])
    show "groupOf t rows k \<noteq> []" using groupOf_hd(1) [OF that] .
    show "\<forall>r \<in> set (groupOf t rows k). rowTbl r = t" using assms(3) by (auto simp: groupOf_def)
    show "colOffset c + colSize c \<le> length (rowRaw (hd (groupOf t rows k)))"
      using assms(6) groupOf_hd(2) [OF that] by blast
  qed
  then have "map (counterOf c) (groupMerge t rows) = map (\<lambda>k. take_bit (8 * colSize c)
      (\<Sum>r\<leftarrow>filter (\<lambda>r. keyOf (keyColumns t) r = k) rows. counterOf c r)) (rowKeys t rows)"
    by (simp add: groupMerge_def groupOf_def)
  then show ?thesis
    using keys_groupMerge [OF assms(1), of rows] assms(2) rest
    by (simp add: aggregate_groupMerge rowKeys_def)
qed

text \<open>A table with a two-byte name and a two-byte counter, and three rows of it.\<close>

definition demo_table :: table where
  "demo_table =
     \<lparr>tabName = ''widget_stat'', tabID = 2, tabRows = 3, tabRowSize = 4, tabCols = 2,
      tabColumns =
       [\<lparr>colName = ''name'', colOffset = 0, colSize = 2, colType = 3, colRule = 0, colDropped = False\<rparr>,
        \<lparr>colName = ''count'', colOffset = 2, colSize = 2, colType = 2, colRule = 2, colDropped = False\<rparr>]\<rparr>"

definition demo_rows :: "row list" where
  "demo_rows = map (\<lambda>b. \<lparr>rowTbl = demo_table, rowRaw = b\<rparr>)
     [[0x61, 0, 5, 0], [0x62, 0, 1, 0], [0x61, 0, 0xFF, 0xFF]]"

definition demo_counter :: column where
  "demo_counter = \<lparr>colName = ''count'', colOffset = 2, colSize = 2, colType = 2, colRule = 2, colDropped = False\<rparr>"

lemma demo_layout: "agg_layout demo_table" "keyColumns demo_table \<noteq> []"
    "\<forall>r \<in> set demo_rows. rowTbl r = demo_table" "demo_counter \<in> set (tabColumns demo_table)"
    "summed demo_counter"
    "\<forall>r \<in> set demo_rows. colOffset demo_counter + colSize demo_counter \<le> length (rowRaw r)"
  by (auto simp: agg_layout_def demo_table_def demo_rows_def demo_counter_def keyColumns_def summed_def
      pairwise_def disjoint_fields_def tm_consts)

theorem aggregate_sums_witness:
  "\<exists>out. aggregate demo_table demo_rows = Some out
     \<and> distinct (map (keyOf (keyColumns demo_table)) out)"
  using aggregate_sums [OF demo_layout] by blast

text \<open>C2: under the same layout (distinct column names, counters that share no byte with each other or
  with a key, rows that hold the column) aggregation loses no traffic: the total of a counter over
  the aggregated rows is the total over the raw rows, modulo the column's width.\<close>

theorem aggregate_conserves:
  assumes "agg_layout t" and "\<forall>r \<in> set rows. rowTbl r = t"
    and "c \<in> set (tabColumns t)" and "summed c"
    and "\<forall>r \<in> set rows. colOffset c + colSize c \<le> length (rowRaw r)"
  shows "\<exists>out. aggregate t rows = Some out
     \<and> take_bit (8 * colSize c) (\<Sum>r\<leftarrow>out. counterOf c r)
       = take_bit (8 * colSize c) (\<Sum>r\<leftarrow>rows. counterOf c r)"
proof (cases "keyColumns t = []")
  case True
  then show ?thesis by (simp add: aggregate_groupMerge)
next
  case False
  let ?n = "8 * colSize c"
  have one: "counterOf c (mergeGroup t (groupOf t rows k))
      = take_bit ?n (\<Sum>r\<leftarrow>groupOf t rows k. counterOf c r)" if "k \<in> set (rowKeys t rows)" for k
  proof (rule mergeGroup_counter [OF assms(1,3,4)])
    show "groupOf t rows k \<noteq> []" using groupOf_hd(1) [OF that] .
    show "\<forall>r \<in> set (groupOf t rows k). rowTbl r = t" using assms(2) by (auto simp: groupOf_def)
    show "colOffset c + colSize c \<le> length (rowRaw (hd (groupOf t rows k)))"
      using assms(5) groupOf_hd(2) [OF that] by blast
  qed
  have cut: "take_bit ?n (\<Sum>k\<leftarrow>ks. take_bit ?n (f k)) = take_bit ?n (\<Sum>k\<leftarrow>ks. f k)"
    for ks and f :: "string \<Rightarrow> 64 word"
    by (induction ks) (simp_all, metis (no_types) add.commute take_bit_add_left)
  have "(\<Sum>r\<leftarrow>groupMerge t rows. counterOf c r)
      = (\<Sum>k\<leftarrow>rowKeys t rows. take_bit ?n (\<Sum>r\<leftarrow>groupOf t rows k. counterOf c r))"
    unfolding groupMerge_def map_map comp_def
    by (rule arg_cong [where f = sum_list], rule map_cong) (simp_all add: one)
  then have "take_bit ?n (\<Sum>r\<leftarrow>groupMerge t rows. counterOf c r)
      = take_bit ?n (\<Sum>k\<leftarrow>rowKeys t rows. \<Sum>r\<leftarrow>groupOf t rows k. counterOf c r)"
    by (simp add: cut)
  also have "(\<Sum>k\<leftarrow>rowKeys t rows. \<Sum>r\<leftarrow>groupOf t rows k. counterOf c r) = (\<Sum>r\<leftarrow>rows. counterOf c r)"
    unfolding groupOf_def by (rule sum_groups) (simp_all add: rowKeys_def)
  finally show ?thesis using False by (simp add: aggregate_groupMerge)
qed

theorem aggregate_conserves_witness:
  "\<exists>out. aggregate demo_table demo_rows = Some out
     \<and> take_bit 16 (\<Sum>r\<leftarrow>out. counterOf demo_counter r) = 5"
proof -
  have "take_bit (8 * colSize demo_counter) (\<Sum>r\<leftarrow>demo_rows. counterOf demo_counter r) = 5"
    by (simp add: demo_rows_def demo_counter_def counterOf_def leUint_eq upt_conv_Cons)
  moreover have "8 * colSize demo_counter = 16" by (simp add: demo_counter_def)
  ultimately show ?thesis
    using aggregate_conserves [OF demo_layout(1,3,4,5,6)] by simp
qed

end
