(* ===== verification/Exporter.thy ===== *)
theory Exporter
  imports Tokens TmRows
begin

text \<open>
  The collection and the two outputs of cmd/tmm-stat-exporter/main.go: \<open>collectSegment\<close> turns a
  segment file into samples, \<open>collect\<close> joins the segments, \<open>handleMetrics\<close> serves them as text and
  \<open>pushOnce\<close> sends them by remote_write. \<open>None\<close> is a panic; the exporter state is threaded
  through, because every segment triggers a token collection.
\<close>

section \<open>Rows that are not user traffic\<close>

fun isInternal :: "column list \<Rightarrow> row \<Rightarrow> bool option" where
  "isInternal [] r = Some False"
| "isInternal (kc # kcs) r =
     (case Value r kc of
        None \<Rightarrow> None
      | Some v \<Rightarrow>
          if HasPrefix v ''_'' then Some True
          else if IsAddress kc
               then (case DecodeAddr v of
                       Some ip \<Rightarrow> if isLinkLocal ip then Some True else isInternal kcs r
                     | None \<Rightarrow> isInternal kcs r)
          else isInternal kcs r)"

fun dropInternal :: "row list \<Rightarrow> column list \<Rightarrow> row list option" where
  "dropInternal [] keyCols = Some []"
| "dropInternal (r # rs) keyCols =
     do { internal \<leftarrow> isInternal keyCols r; out \<leftarrow> dropInternal rs keyCols;
          Some (if internal then out else r # out) }"

section \<open>One segment\<close>

text \<open>The label of a key column: an address is decoded when it can be.\<close>

definition keyLabel :: "row \<Rightarrow> column \<Rightarrow> elabel option" where
  "keyLabel r kc =
     do { v \<leftarrow> Value r kc;
          Some \<lparr>lname = sanitize (colName kc),
                lvalue = (if IsAddress kc then (case DecodeAddr v of Some ip \<Rightarrow> ip | None \<Rightarrow> v) else v)\<rparr> }"

definition rowSample :: "string \<Rightarrow> column list \<Rightarrow> column \<Rightarrow> row \<Rightarrow> esample option" where
  "rowSample metric keyCols c r =
     do { lbls \<leftarrow> those (map (keyLabel r) keyCols);
          Some \<lparr>smetric = metric, slabels = lbls, svalue = Float r c, sglobal = False\<rparr> }"

text \<open>The samples of one table: by value column, then by row.\<close>

definition tableSamples :: "string \<Rightarrow> table \<Rightarrow> row list \<Rightarrow> esample list option" where
  "tableSamples name t rows =
     (let keyCols = filter IsKey (tabColumns t);
          valCols = filter (\<lambda>c. \<not> IsKey c \<and> IsNumeric c) (tabColumns t)
      in do {
        rows' \<leftarrow> dropInternal rows keyCols;
        let prefix = ''f5tmm_'' @ sanitize (TrimSuffix name ''_stat'') @ ''_'';
        out \<leftarrow> those (map (\<lambda>c. those (map (rowSample (prefix @ sanitize (colName c)) keyCols c) rows')) valCols);
        Some (concat out)
      })"

fun segmentSamples :: "segment \<Rightarrow> string list \<Rightarrow> esample list option" where
  "segmentSamples seg [] = Some []"
| "segmentSamples seg (name # names) =
     (case byName seg name of
        None \<Rightarrow> segmentSamples seg names
      | Some p \<Rightarrow>
          (case Rows seg name of
             None \<Rightarrow> None
           | Some (Inl err) \<Rightarrow> segmentSamples seg names
           | Some (Inr rows) \<Rightarrow>
               do { a \<leftarrow> tableSamples name (tables seg ! p) rows; b \<leftarrow> segmentSamples seg names; Some (a @ b) }))"

datatype segment_error = ReadError string | ParseError tm_error

definition collectSegment ::
  "world \<Rightarrow> string \<Rightarrow> exporter \<Rightarrow> ((segment_error + esample list) \<times> exporter) option" where
  "collectSegment w path e =
     (case wReadFile w path of
        Inl err \<Rightarrow> Some (Inl (ReadError err), e)
      | Inr data \<Rightarrow>
          (case Parse data of
             None \<Rightarrow> None
           | Some (Inl err) \<Rightarrow> Some (Inl (ParseError err), e)
           | Some (Inr seg) \<Rightarrow>
               do { out \<leftarrow> segmentSamples seg (etables e);
                    (toks, e') \<leftarrow> collectTokens w e;
                    Some (Inr (out @ toks), e') }))"

section \<open>All segments\<close>

text \<open>\<open>filepath.Base\<close>.\<close>

definition Base :: "string \<Rightarrow> string" where
  "Base path =
     (if path = [] then ''.''
      else (let p = rev (dropWhile (\<lambda>c. c = CHR ''/'') (rev path));
                b = rev (takeWhile (\<lambda>c. c \<noteq> CHR ''/'') (rev p))
            in if b = [] then ''/'' else b))"

definition healthSample :: "string \<Rightarrow> bool \<Rightarrow> esample" where
  "healthSample path up =
     \<lparr>smetric = ''f5tmm_segment_up'', slabels = [\<lparr>lname = ''segment'', lvalue = Base path\<rparr>],
      svalue = (if up then FInt 1 else FInt 0), sglobal = False\<rparr>"

text \<open>The loop over the segments: position, then the samples, the health samples and the error of
  the primary so far.\<close>

fun collectLoop :: "world \<Rightarrow> nat \<Rightarrow> string list \<Rightarrow> esample list \<Rightarrow> esample list \<Rightarrow> segment_error option
    \<Rightarrow> exporter \<Rightarrow> (esample list \<times> esample list \<times> segment_error option \<times> exporter) option" where
  "collectLoop w i [] out health primaryErr e = Some (out, health, primaryErr, e)"
| "collectLoop w i (path # paths) out health primaryErr e =
     (case collectSegment w path e of
        None \<Rightarrow> None
      | Some (Inl err, e') \<Rightarrow>
          collectLoop w (Suc i) paths out (health @ [healthSample path False])
            (if i = 0 then Some err else primaryErr) e'
      | Some (Inr segSamples, e') \<Rightarrow>
          collectLoop w (Suc i) paths (out @ segSamples) (health @ [healthSample path True]) primaryErr e')"

definition collect :: "world \<Rightarrow> exporter \<Rightarrow> ((esample list \<times> segment_error option) \<times> exporter) option" where
  "collect w e =
     (case collectLoop w 0 (esegments e) [] [] None e of
        None \<Rightarrow> None
      | Some (out, health, primaryErr, e') \<Rightarrow> Some ((out @ health, primaryErr), e'))"

section \<open>Outputs\<close>

text \<open>\<open>dur\<close> is the text of the elapsed seconds, and \<open>etext\<close> the text of an error.\<close>

definition handleMetrics ::
  "world \<Rightarrow> (segment_error \<Rightarrow> string) \<Rightarrow> string \<Rightarrow> exporter \<Rightarrow> (string \<times> exporter) option" where
  "handleMetrics w etext dur e =
     do {
       ((samples, err), e') \<leftarrow> collect w e;
       let up = (if err = None then 1 else 0 :: int);
       let nl = [CHR 0x0A];
       Some (''# TYPE f5tmm_up gauge'' @ nl @ ''f5tmm_up '' @ FormatInt up @ nl
             @ ''# TYPE f5tmm_scrape_duration_seconds gauge'' @ nl
             @ ''f5tmm_scrape_duration_seconds '' @ dur @ nl
             @ (case err of None \<Rightarrow> [] | Some x \<Rightarrow> ''# collect error: '' @ etext x @ nl)
             @ metricLines [] samples, e')
     }"

text \<open>The receiver: refuses to build a request for the URL, fails to answer, or answers with a
  status.\<close>

datatype response = BadRequest string | NoResponse string | Status nat string

datatype push_error = PushFailed string | PushRefused string string | PushCollect segment_error

definition pushOnce :: "world \<Rightarrow> (bytes \<Rightarrow> bytes) \<Rightarrow> (string \<Rightarrow> bytes \<Rightarrow> response) \<Rightarrow> int \<Rightarrow> exporter
    \<Rightarrow> (push_error option \<times> bytes \<times> exporter) option" where
  "pushOnce w snappy post tsMillis e =
     do {
       ((samples, collectErr), e') \<leftarrow> collect w e;
       let (up, samples) = (if collectErr \<noteq> None then (FInt 0, []) else (FInt 1, samples));
       let samples = samples @ [\<lparr>smetric = ''f5tmm_up'', slabels = [], svalue = up, sglobal = False\<rparr>];
       let body = buildWriteRequest snappy samples (eextra e) tsMillis;
       Some (case post (erwURL e) body of
               BadRequest err \<Rightarrow> Some (PushFailed err)
             | NoResponse err \<Rightarrow> Some (PushFailed err)
             | Status code st \<Rightarrow>
                 if code div 100 \<noteq> 2 then Some (PushRefused (erwURL e) st)
                 else map_option PushCollect collectErr,
             body, e')
     }"

text \<open>\<open>pushLoop\<close>: one push per tick of the interval, each in the world of its moment; an error is
  logged (the result list is that log) and the loop goes on.\<close>

fun pushLoop :: "(bytes \<Rightarrow> bytes) \<Rightarrow> (world \<times> (string \<Rightarrow> bytes \<Rightarrow> response) \<times> int) list \<Rightarrow> exporter
    \<Rightarrow> ((push_error option \<times> bytes) list \<times> exporter) option" where
  "pushLoop snappy [] e = Some ([], e)"
| "pushLoop snappy ((w, post, t) # ticks) e =
     (case pushOnce w snappy post t e of
        None \<Rightarrow> None
      | Some (err, body, e') \<Rightarrow>
          map_option (\<lambda>(sent, e''). ((err, body) # sent, e'')) (pushLoop snappy ticks e'))"

section \<open>The collection as total functions\<close>

definition internalRow :: "column list \<Rightarrow> row \<Rightarrow> bool" where
  "internalRow keyCols r \<longleftrightarrow> list_ex (\<lambda>kc. HasPrefix (render r kc) ''_''
     \<or> (IsAddress kc \<and> (case DecodeAddr (render r kc) of Some ip \<Rightarrow> isLinkLocal ip | None \<Rightarrow> False))) keyCols"

lemma isInternal_eq: "isInternal keyCols r = Some (internalRow keyCols r)"
  by (induction keyCols) (auto simp: internalRow_def Value_render split: option.split)

lemma dropInternal_eq: "dropInternal rows keyCols = Some (filter (\<lambda>r. \<not> internalRow keyCols r) rows)"
  by (induction rows) (simp_all add: isInternal_eq)

definition labelOf :: "row \<Rightarrow> column \<Rightarrow> elabel" where
  "labelOf r kc = \<lparr>lname = sanitize (colName kc),
     lvalue = (case (IsAddress kc, DecodeAddr (render r kc)) of (True, Some ip) \<Rightarrow> ip | _ \<Rightarrow> render r kc)\<rparr>"

lemma keyLabel_eq: "keyLabel r kc = Some (labelOf r kc)"
  by (auto simp: keyLabel_def labelOf_def Value_render split: option.split)

definition metricName :: "string \<Rightarrow> column \<Rightarrow> string" where
  "metricName name c = ''f5tmm_'' @ sanitize (TrimSuffix name ''_stat'') @ ''_'' @ sanitize (colName c)"

text \<open>The samples of a table from its merged rows: one per value column and user-traffic row.\<close>

definition familyOf :: "string \<Rightarrow> table \<Rightarrow> row list \<Rightarrow> esample list" where
  "familyOf name t rows =
     (let keyCols = filter IsKey (tabColumns t);
          valCols = filter (\<lambda>c. \<not> IsKey c \<and> IsNumeric c) (tabColumns t);
          users = filter (\<lambda>r. \<not> internalRow keyCols r) rows
      in concat (map (\<lambda>c. map (\<lambda>r. \<lparr>smetric = metricName name c, slabels = map (labelOf r) keyCols,
                                     svalue = Float r c, sglobal = False\<rparr>) users) valCols))"

lemma rowSample_eq:
  "rowSample m keyCols c r = Some \<lparr>smetric = m, slabels = map (labelOf r) keyCols, svalue = Float r c, sglobal = False\<rparr>"
proof -
  have "those (map (keyLabel r) keyCols) = Some (map (labelOf r) keyCols)"
    by (rule those_map_Some) (simp add: keyLabel_eq)
  then show ?thesis by (simp add: rowSample_def)
qed

lemma tableSamples_eq: "tableSamples name t rows = Some (familyOf name t rows)"
proof -
  let ?keys = "filter IsKey (tabColumns t)" and ?vals = "filter (\<lambda>c. \<not> IsKey c \<and> IsNumeric c) (tabColumns t)"
  let ?users = "filter (\<lambda>r. \<not> internalRow ?keys r) rows"
  let ?s = "\<lambda>c r. \<lparr>smetric = metricName name c, slabels = map (labelOf r) ?keys, svalue = Float r c, sglobal = False\<rparr>"
  have "those (map (rowSample (metricName name c) ?keys c) ?users) = Some (map (?s c) ?users)" for c
    by (rule those_map_Some) (rule rowSample_eq)
  then have "those (map (\<lambda>c. those (map (rowSample (metricName name c) ?keys c) ?users)) ?vals)
      = Some (map (\<lambda>c. map (?s c) ?users) ?vals)"
    by (rule those_map_Some)
  then show ?thesis
    by (simp add: tableSamples_def dropInternal_eq familyOf_def metricName_def Let_def)
qed

text \<open>What a table name contributes: nothing when the segment does not define it, and else the
  family of its merged rows.\<close>

definition mergedRows :: "segment \<Rightarrow> table \<Rightarrow> row list" where
  "mergedRows seg t = (if keyColumns t = [] then liveRows seg t else groupMerge t (liveRows seg t))"

definition tableFamily :: "segment \<Rightarrow> string \<Rightarrow> esample list" where
  "tableFamily seg name =
     (case byName seg name of None \<Rightarrow> []
      | Some p \<Rightarrow> familyOf name (tables seg ! p) (mergedRows seg (tables seg ! p)))"

lemma segmentSamples_eq:
  "wf_schema seg \<Longrightarrow> segmentSamples seg names = Some (concat (map (tableFamily seg) names))"
  by (induction names)
     (simp_all add: Rows_eq tableSamples_eq tableFamily_def mergedRows_def Let_def split: option.split)

lemma collectSegment_eq:
  "collectSegment w path e =
    (case wReadFile w path of
       Inl err \<Rightarrow> Some (Inl (ReadError err), e)
     | Inr data \<Rightarrow>
         (case Parse data of
            None \<Rightarrow> None
          | Some (Inl err) \<Rightarrow> Some (Inl (ParseError err), e)
          | Some (Inr seg) \<Rightarrow> map_option (\<lambda>(toks, e'). (Inr (concat (map (tableFamily seg) (etables e)) @ toks), e'))
                              (collectTokens w e)))"
proof -
  have "wf_schema seg" if "Parse data = Some (Inr seg)" for data seg
    using that by (rule Parse_wf(1))
  note s = segmentSamples_eq [OF this]
  show ?thesis
    by (cases "collectTokens w e") (auto simp: collectSegment_def s split: sum.split option.split)
qed

section \<open>Names and values\<close>

lemma occupied_columns:
  assumes "Parse data = Some (Inr seg)" and "byName seg name = Some p"
  shows "\<forall>c \<in> set (tabColumns (tables seg ! p)). colName c \<noteq> []"
proof -
  have p: "p < length (tables seg)"
    using Parse_wf(1) [OF assms(1)] assms(2) by (simp add: wf_schema_def)
  have t: "tables seg = loadedTables (rawSegment data)" using assms(1) by (rule Parse_wf(2))
  have "tabColumns (tables seg ! p) = tableColumns (allRows (rawSegment data) tidColumn) p"
    using p unfolding t by (simp add: loadedTables_def nth_enumerate_eq)
  then show ?thesis by (auto simp: tableColumns_def occupied_def columnOf_def)
qed

lemma Float_valid: "valid_f64 (Float r c)"
proof -
  have "valid_f64 (FInt 0)" using to_f64_valid [of 0] to_f64_small [of 0] by simp
  then show ?thesis using to_f64_valid by (simp add: Float_def)
qed

lemma metricName_valid: "valid_name (metricName name c)"
proof -
  have "valid_name ''f5tmm_''" by (simp add: name_start_def is_lower_def is_digit_def)
  moreover have "list_all (\<lambda>d. name_start d \<or> is_digit d) (x @ ''_'' @ y)"
    if "list_all (\<lambda>d. name_start d \<or> is_digit d) x" "list_all (\<lambda>d. name_start d \<or> is_digit d) y" for x y
    using that underscore by simp
  ultimately show ?thesis
    unfolding metricName_def using sanitize_chars by (intro valid_name_append) blast+
qed

lemma tableFamily_ok:
  assumes "Parse data = Some (Inr seg)"
  shows "list_all (\<lambda>s. line_ok s \<and> \<not> sglobal s) (tableFamily seg name)"
proof (cases "byName seg name")
  case (Some p)
  have "colName c \<noteq> []" if "c \<in> set (tabColumns (tables seg ! p))" for c
    using occupied_columns [OF assms Some] that by blast
  then show ?thesis
    using Some Float_valid metricName_valid
    by (auto simp: tableFamily_def familyOf_def list_all_iff line_ok_def labelOf_def valid_sanitize Let_def)
qed (simp add: tableFamily_def)

lemma collectSegment_ok:
  assumes "collectSegment w path e = Some (res, e')"
  shows "case res of Inl _ \<Rightarrow> True | Inr out \<Rightarrow> list_all line_ok out"
    and "same_config e e'"
proof -
  have fam: "list_all line_ok (tableFamily seg name)" if "Parse data = Some (Inr seg)" for data seg name
    using tableFamily_ok [OF that] by (auto simp: list_all_iff)
  have refl: "same_config e e" by (simp add: same_config_def)
  show "case res of Inl _ \<Rightarrow> True | Inr out \<Rightarrow> list_all line_ok out" "same_config e e'"
    using assms collectTokens_ok(1) [of w e] collectTokens_config [of w e] fam refl
    by (auto simp: collectSegment_eq list_all_iff split: sum.splits option.splits)
qed

section \<open>The outcome of every segment\<close>

fun segmentResults :: "world \<Rightarrow> string list \<Rightarrow> exporter
    \<Rightarrow> ((segment_error + esample list) list \<times> exporter) option" where
  "segmentResults w [] e = Some ([], e)"
| "segmentResults w (path # paths) e =
     (case collectSegment w path e of
        None \<Rightarrow> None
      | Some (res, e') \<Rightarrow> map_option (\<lambda>(rs, e''). (res # rs, e'')) (segmentResults w paths e'))"

definition samplesOf :: "segment_error + esample list \<Rightarrow> esample list" where
  "samplesOf res = (case res of Inl _ \<Rightarrow> [] | Inr out \<Rightarrow> out)"

definition healthOf :: "string \<times> (segment_error + esample list) \<Rightarrow> esample" where
  "healthOf pr = healthSample (fst pr) (case snd pr of Inl _ \<Rightarrow> False | Inr _ \<Rightarrow> True)"

fun primaryError :: "(segment_error + esample list) list \<Rightarrow> segment_error option" where
  "primaryError (Inl err # _) = Some err"
| "primaryError _ = None"

lemma collectLoop_later:
  "collectLoop w (Suc i) paths out health pe e =
     map_option (\<lambda>(rs, e'). (out @ concat (map samplesOf rs), health @ map healthOf (zip paths rs), pe, e'))
       (segmentResults w paths e)"
proof (induction paths arbitrary: i out health e)
  case (Cons path paths)
  show ?case
  proof (cases "collectSegment w path e")
    case (Some r)
    obtain res e' where "r = (res, e')" by fastforce
    then show ?thesis
      using Some Cons by (cases res; cases "segmentResults w paths e'")
        (auto simp: samplesOf_def healthOf_def)
  qed simp
qed simp

lemma collect_eq:
  "collect w e =
     map_option (\<lambda>(rs, e'). ((concat (map samplesOf rs) @ map healthOf (zip (esegments e) rs), primaryError rs), e'))
       (segmentResults w (esegments e) e)"
proof (cases "esegments e")
  case (Cons path paths)
  show ?thesis
  proof (cases "collectSegment w path e")
    case (Some r)
    obtain res e' where "r = (res, e')" by fastforce
    then show ?thesis
      using Some Cons by (cases res; cases "segmentResults w paths e'")
        (auto simp: collect_def collectLoop_later samplesOf_def healthOf_def)
  qed (simp add: collect_def Cons)
qed (simp add: collect_def)

lemma segmentResults_ok:
  "segmentResults w paths e = Some (rs, e') \<Longrightarrow>
   length rs = length paths \<and> (\<forall>r \<in> set rs. list_all line_ok (samplesOf r)) \<and> same_config e e'"
proof (induction paths arbitrary: e rs e')
  case (Cons path paths)
  then obtain res e1 rs' where r: "collectSegment w path e = Some (res, e1)"
    "segmentResults w paths e1 = Some (rs', e')" "rs = res # rs'"
    by (auto split: option.splits)
  then show ?case
    using Cons.IH [OF r(2)] collectSegment_ok [OF r(1)]
    by (auto simp: samplesOf_def same_config_def split: sum.splits)
qed (simp add: same_config_def)

lemma healthSample_ok: "line_ok (healthSample path up)"
  by (simp add: line_ok_def healthSample_def name_start_def is_lower_def is_digit_def round53_def)

lemma collect_ok:
  assumes "collect w e = Some ((samples, err), e')"
  shows "list_all line_ok samples" and "same_config e e'"
proof -
  obtain rs where rs: "segmentResults w (esegments e) e = Some (rs, e')"
    "samples = concat (map samplesOf rs) @ map healthOf (zip (esegments e) rs)"
    using assms by (auto simp: collect_eq)
  show "list_all line_ok samples" "same_config e e'"
    using segmentResults_ok [OF rs(1)] healthSample_ok by (auto simp: rs(2) list_all_iff healthOf_def)
qed

section \<open>The exposition as served\<close>

lemma parseExposition_line:
  assumes "CHR 0x0A \<notin> set l" and "l \<noteq> []" and "hd l \<noteq> CHR ''#''" and "parseLine l = Some x"
  shows "parseExposition (l @ CHR 0x0A # rest) = map_option (Cons x) (parseExposition rest)"
  using assms by (cases "those (map parseLine (filter (\<lambda>l. l \<noteq> [] \<and> hd l \<noteq> CHR ''#'') (Split CHR 0x0A rest)))")
    (simp_all add: parseExposition_def Split_append_sep)

lemma parseExposition_comment:
  "CHR 0x0A \<notin> set l \<Longrightarrow> l \<noteq> [] \<Longrightarrow> hd l = CHR ''#'' \<Longrightarrow>
   parseExposition (l @ CHR 0x0A # rest) = parseExposition rest"
  by (simp add: parseExposition_def Split_append_sep)

lemma parseLine_plain:
  assumes "valid_name m"
  shows "parseLine (m @ CHR '' '' # v) = Some (m, [], ParseG v)"
proof -
  have "takeWhile (\<lambda>c. c \<noteq> CHR ''{'' \<and> c \<noteq> CHR '' '') (m @ CHR '' '' # v) = m"
    using valid_name_chars(1) [OF assms] by (subst takeWhile_append2) auto
  then show ?thesis by (simp add: parseLine_def Let_def)
qed

definition seconds_name :: string where
  "seconds_name = ''f5tmm_scrape_duration_seconds''"

lemma handleMetrics_parses:
  assumes "collect w e = Some ((samples, err), e')" and "CHR 0x0A \<notin> set dur"
    and "\<forall>x. CHR 0x0A \<notin> set (etext x)"
  shows "map_option (parseExposition \<circ> fst) (handleMetrics w etext dur e) = Some (Some
    ((''f5tmm_up'', [], FInt (if err = None then 1 else 0)) # (seconds_name, [], ParseG dur)
     # map (\<lambda>s. (smetric s, slabels s, svalue s)) samples))"
proof -
  let ?nl = "CHR 0x0A" and ?up = "if err = None then 1 else 0 :: int"
  let ?body = "metricLines [] samples"
  let ?err = "case err of None \<Rightarrow> [] | Some x \<Rightarrow> ''# collect error: '' @ etext x @ [?nl]"
  have h: "handleMetrics w etext dur e = Some (''# TYPE f5tmm_up gauge'' @ ?nl # (''f5tmm_up '' @ FormatInt ?up)
      @ ?nl # ''# TYPE f5tmm_scrape_duration_seconds gauge'' @ ?nl # (seconds_name @ CHR '' '' # dur) @ ?nl # ?err @ ?body, e')"
    using assms(1) by (simp add: handleMetrics_def Let_def seconds_name_def)
  have body: "parseExposition (?err @ ?body) = Some (map (\<lambda>s. (smetric s, slabels s, svalue s)) samples)"
  proof (cases err)
    case None
    then show ?thesis using parseExposition_metricLines [OF collect_ok(1) [OF assms(1)]] by simp
  next
    case (Some x)
    have "?err @ ?body = (''# collect error: '' @ etext x) @ ?nl # ?body" using Some by simp
    then show ?thesis
      using parseExposition_metricLines [OF collect_ok(1) [OF assms(1)]] assms(3)
        parseExposition_comment [of "''# collect error: '' @ etext x" ?body] by simp
  qed
  have sec: "valid_name seconds_name"
    by (simp add: seconds_name_def name_start_def is_lower_def is_digit_def)
  then have l2: "parseExposition ((seconds_name @ CHR '' '' # dur) @ ?nl # ?err @ ?body)
      = Some ((seconds_name, [], ParseG dur) # map (\<lambda>s. (smetric s, slabels s, svalue s)) samples)"
    using assms(2) valid_name_chars [OF sec] parseLine_plain [OF sec] body
    by (subst parseExposition_line [where x = "(seconds_name, [], ParseG dur)"])
       (auto simp: seconds_name_def)
  have "FormatInt ?up = (if err = None then ''1'' else ''0'')"
    by (simp add: FormatInt_def FormatUint.simps digit_def)
  moreover have "ParseG ''1'' = FInt 1" "ParseG ''0'' = FInt 0"
    by (simp_all add: ParseG_def ParseG_nat_def digits_val_def digit_val_def to_f64_small)
  moreover have "valid_name ''f5tmm_up''" by (simp add: name_start_def is_lower_def is_digit_def)
  ultimately have l1: "parseLine (''f5tmm_up '' @ FormatInt ?up) = Some (''f5tmm_up'', [], FInt ?up)"
    using parseLine_plain [of "''f5tmm_up''" "FormatInt ?up"] by simp
  have nl: "?nl \<notin> set (''f5tmm_up '' @ FormatInt ?up)"
    by (auto simp: FormatInt_def FormatUint.simps digit_def)
  show ?thesis unfolding h
    using parseExposition_line [OF nl _ _ l1] l2
    by (simp add: parseExposition_comment [of "''# TYPE f5tmm_up gauge''", simplified]
        parseExposition_comment [of "''# TYPE f5tmm_scrape_duration_seconds gauge''", simplified])
qed

lemma handleMetrics_lines:
  assumes "collect w e = Some ((samples, err), e')" and "CHR 0x0A \<notin> set dur"
    and "\<forall>x. CHR 0x0A \<notin> set (etext x)" and "handleMetrics w etext dur e = Some (text, e'')"
  shows "Split CHR 0x0A text =
    [typeLine ''f5tmm_up'', ''f5tmm_up '' @ FormatInt (if err = None then 1 else 0), typeLine seconds_name,
     seconds_name @ '' '' @ dur]
    @ (case err of None \<Rightarrow> [] | Some x \<Rightarrow> [''# collect error: '' @ etext x])
    @ Split CHR 0x0A (metricLines [] samples)"
proof -
  let ?nl = "CHR 0x0A" and ?up = "''f5tmm_up '' @ FormatInt (if err = None then 1 else 0)"
  let ?err = "case err of None \<Rightarrow> [] | Some x \<Rightarrow> [''# collect error: '' @ etext x]"
  have body: "text = typeLine ''f5tmm_up'' @ ?nl # ?up @ ?nl # typeLine seconds_name @ ?nl
      # (seconds_name @ '' '' @ dur) @ ?nl # concat (map (\<lambda>l. l @ [?nl]) ?err) @ metricLines [] samples"
    using assms(1,4) by (auto simp: handleMetrics_def Let_def seconds_name_def typeLine_def split: option.splits)
  have nl: "?nl \<notin> set (typeLine ''f5tmm_up'')" "?nl \<notin> set (typeLine seconds_name)"
    "?nl \<notin> set ?up" "?nl \<notin> set (seconds_name @ '' '' @ dur)"
    using assms(2) by (auto simp: typeLine_def seconds_name_def FormatInt_def FormatUint.simps digit_def)
  have err: "Split ?nl (concat (map (\<lambda>l. l @ [?nl]) ?err) @ rest) = ?err @ Split ?nl rest" for rest
  proof (cases err)
    case (Some x)
    then have "?nl \<notin> set (''# collect error: '' @ etext x)" using assms(3) by simp
    from Split_append_sep [OF this, of rest] show ?thesis using Some by simp
  qed simp
  show ?thesis unfolding body
    using Split_append_sep [OF nl(1)] Split_append_sep [OF nl(2)] Split_append_sep [OF nl(3)]
      Split_append_sep [OF nl(4)] err by simp
qed

lemma handleMetrics_types:
  assumes "collect w e = Some ((samples, err), e')" and "CHR 0x0A \<notin> set dur"
    and "\<forall>x. CHR 0x0A \<notin> set (etext x)" and "handleMetrics w etext dur e = Some (text, e'')"
  shows "filter (\<lambda>l. HasPrefix l ''#'') (Split CHR 0x0A text) =
             [''# TYPE f5tmm_up gauge'', ''# TYPE f5tmm_scrape_duration_seconds gauge'']
             @ (case err of None \<Rightarrow> [] | Some x \<Rightarrow> [''# collect error: '' @ etext x])
             @ map typeLine (remdups_adj (map smetric samples))"
    and "typedLines [] (Split CHR 0x0A text)"
proof -
  let ?err = "case err of None \<Rightarrow> [] | Some x \<Rightarrow> [''# collect error: '' @ etext x]"
  have ok: "list_all line_ok samples" using collect_ok(1) [OF assms(1)] .
  have "tl (remdups_adj ([] # map smetric samples)) = remdups_adj (map smetric samples)"
    using ok valid_name_chars(2) by (cases samples) (auto simp: line_ok_def)
  then have "filter (\<lambda>l. HasPrefix l ''#'') (Split CHR 0x0A (metricLines [] samples))
      = map typeLine (remdups_adj (map smetric samples))"
    using metricLines_types [OF ok, of "[]"] by simp
  moreover have "filter (\<lambda>l. HasPrefix l ''#'') ?err = ?err" by (cases err) simp_all
  ultimately show "filter (\<lambda>l. HasPrefix l ''#'') (Split CHR 0x0A text) =
             [''# TYPE f5tmm_up gauge'', ''# TYPE f5tmm_scrape_duration_seconds gauge'']
             @ (case err of None \<Rightarrow> [] | Some x \<Rightarrow> [''# collect error: '' @ etext x])
             @ map typeLine (remdups_adj (map smetric samples))"
    unfolding handleMetrics_lines [OF assms] by (simp add: typeLine_def seconds_name_def)
  have v: "valid_name ''f5tmm_up''" "valid_name seconds_name"
    by (simp_all add: seconds_name_def name_start_def is_lower_def is_digit_def)
  have err: "typedLines cur (?err @ ls) \<longleftrightarrow> typedLines cur ls" for cur ls by (cases err) simp_all
  have up: "typedLines ''f5tmm_up'' ((''f5tmm_up '' @ x) # ls) \<longleftrightarrow> typedLines ''f5tmm_up'' ls" for x ls
    using typedLines_sample [OF v(1), of "CHR '' ''" _ x ls] by simp
  have sec: "typedLines seconds_name ((seconds_name @ '' '' @ dur) # ls) \<longleftrightarrow> typedLines seconds_name ls" for ls
    using typedLines_sample [OF v(2), of "CHR '' ''" _ dur ls] by simp
  show "typedLines [] (Split CHR 0x0A text)"
    unfolding handleMetrics_lines [OF assms]
    using typedLines_metricLines [OF ok disjI2 [OF refl], of seconds_name]
    by (simp only: append_Cons append_Nil typedLines_type [OF v(1)] typedLines_type [OF v(2)]
        up [unfolded append_Cons append_Nil] sec [unfolded append_Cons append_Nil]
        err [unfolded append_Cons append_Nil])
qed

section \<open>Series are unique\<close>

lemma keyColumns_IsKey: "filter IsKey (tabColumns t) = keyColumns t"
  by (simp add: keyColumns_def IsKey_def [abs_def])

lemma labels_key:
  assumes "\<forall>kc \<in> set ks. \<not> IsAddress kc"
  shows "map (labelOf r) ks = map (labelOf r') ks \<longleftrightarrow> keyOf ks r = keyOf ks r'"
  using assms by (auto simp: keyOf_eq_iff labelOf_def)

lemma metricName_inject: "metricName name c = metricName name d \<longleftrightarrow> sanitize (colName c) = sanitize (colName d)"
  by (simp add: metricName_def)

lemma familyOf_unique:
  assumes "distinct (map (keyOf (keyColumns t)) rows)"
    and "\<forall>kc \<in> set (keyColumns t). \<not> IsAddress kc"
    and "distinct (map (sanitize \<circ> colName) (filter (\<lambda>c. \<not> IsKey c \<and> IsNumeric c) (tabColumns t)))"
  shows "distinct (map (\<lambda>s. (smetric s, slabels s)) (familyOf name t rows))"
proof -
  let ?ks = "keyColumns t" and ?vs = "filter (\<lambda>c. \<not> IsKey c \<and> IsNumeric c) (tabColumns t)"
  let ?us = "filter (\<lambda>r. \<not> internalRow ?ks r) rows"
  let ?f = "\<lambda>(c, r). (metricName name c, map (labelOf r) ?ks)"
  have flat: "map (\<lambda>s. (smetric s, slabels s)) (familyOf name t rows) = map ?f (List.product ?vs ?us)"
    by (simp add: familyOf_def keyColumns_IsKey Let_def product_concat_map map_concat comp_def)
  have us: "distinct (map (keyOf ?ks) ?us)" using assms(1) by (rule distinct_map_filter)
  then have u: "distinct ?us" "inj_on (keyOf ?ks) (set ?us)" by (simp_all add: distinct_map)
  have v: "distinct ?vs" "inj_on (sanitize \<circ> colName) (set ?vs)"
    using assms(3) by (simp_all add: distinct_map)
  have "inj_on ?f (set ?vs \<times> set ?us)"
  proof (rule inj_onI, clarify)
    fix c r c' r'
    assume c: "c \<in> set ?vs" "c' \<in> set ?vs" and r: "r \<in> set ?us" "r' \<in> set ?us"
      and m: "metricName name c = metricName name c'" and l: "map (labelOf r) ?ks = map (labelOf r') ?ks"
    have "c = c'" using inj_onD [OF v(2) _ c] m by (simp add: metricName_inject)
    moreover have "r = r'" using inj_onD [OF u(2) _ r] l labels_key [OF assms(2)] by simp
    ultimately show "c = c' \<and> r = r'" by simp
  qed
  then show ?thesis unfolding flat distinct_map
    using u(1) v(1) by (simp add: distinct_product del: set_filter)
qed

lemma DecodeAddr_16:
  assumes "length a = 20" and "length b = 20" and "take 16 a = take 16 b"
  shows "DecodeAddr (addrHex a) = DecodeAddr (addrHex b)" and "DecodeAddr (addrHex a) \<noteq> None"
proof -
  have "a ! i = b ! i" if "i < 16" for i
    using nth_take [OF that, of a] nth_take [OF that, of b] assms(3) by simp
  then show "DecodeAddr (addrHex a) = DecodeAddr (addrHex b)"
    using assms by (simp add: DecodeAddr_addrHex_eq)
  show "DecodeAddr (addrHex a) \<noteq> None" using assms by (simp add: DecodeAddr_addrHex_eq)
qed

lemma route_domain_label:
  assumes "colType kc = typeAddress" and "colSize kc = 20"
    and "colOffset kc + 20 \<le> length (rowRaw r)" and "colOffset kc + 20 \<le> length (rowRaw r')"
    and "take 16 (drop (colOffset kc) (rowRaw r)) = take 16 (drop (colOffset kc) (rowRaw r'))"
  shows "labelOf r kc = labelOf r' kc"
    and "keyOf [kc] r = keyOf [kc] r' \<longleftrightarrow>
        take 20 (drop (colOffset kc) (rowRaw r)) = take 20 (drop (colOffset kc) (rowRaw r'))"
proof -
  let ?f = "\<lambda>r. take 20 (drop (colOffset kc) (rowRaw r))"
  have r: "render r kc = addrHex (?f r)" "render r' kc = addrHex (?f r')"
    using assms by (simp_all add: render_cases Let_def tm_consts)
  have "IsAddress kc" using assms(1) by (simp add: IsAddress_def)
  moreover have "length (?f r) = 20" "length (?f r') = 20" "take 16 (?f r) = take 16 (?f r')"
    using assms by simp_all
  note d = DecodeAddr_16 [OF this]
  obtain ip where "DecodeAddr (addrHex (?f r')) = Some ip" using d by auto
  ultimately show "labelOf r kc = labelOf r' kc" using d(1) by (simp add: labelOf_def r)
  show "keyOf [kc] r = keyOf [kc] r' \<longleftrightarrow> ?f r = ?f r'"
    using addrHex_inject by (auto simp: keyOf_eq_iff r)
qed

text \<open>The token samples of a collection.\<close>

lemma collectTokens_dials:
  assumes "\<forall>i. wDial w i = Inr c" and "edssm e' = edssm e"
  shows "map_option fst (collectTokens w e') = map_option fst (collectTokens w e)"
proof -
  have "map_option fst (dialRedis w e') = map_option fst (dialRedis w e)"
    using assms by (simp add: dialRedis_def Let_def split: option.split sum.split)
  then show ?thesis using assms(2)
    by (auto simp: collectTokens_def Let_def split: option.splits sum.splits run.splits prod.splits)
qed

definition isReadable :: "segment_error + esample list \<Rightarrow> bool" where
  "isReadable res = (case res of Inl _ \<Rightarrow> False | Inr _ \<Rightarrow> True)"

lemma segmentResults_tokens:
  assumes "\<forall>i. wDial w i = Inr c" and "map_option fst (collectTokens w e0) = Some toks"
  shows "segmentResults w paths e = Some (rs, e') \<Longrightarrow> edssm e = edssm e0 \<Longrightarrow>
    filter sglobal (concat (map samplesOf rs)) = concat (replicate (length (filter isReadable rs)) toks)"
proof (induction paths arbitrary: e rs e')
  case (Cons path paths)
  then obtain res e1 rs' where r: "collectSegment w path e = Some (res, e1)"
    "segmentResults w paths e1 = Some (rs', e')" "rs = res # rs'"
    by (auto split: option.splits)
  have toks: "map_option fst (collectTokens w e) = Some toks"
    using collectTokens_dials [OF assms(1) Cons.prems(2)] assms(2) by simp
  then have g: "filter sglobal toks = toks"
    using collectTokens_ok(1) [of w e] by (auto simp: list_all_iff intro!: filter_True)
  have fam: "filter sglobal (concat (map (tableFamily seg) names)) = []" if "Parse data = Some (Inr seg)" for data seg names
    using tableFamily_ok [OF that] by (auto simp: list_all_iff filter_empty_conv)
  have "filter sglobal (samplesOf res) = (if isReadable res then toks else [])"
    using r(1) toks g fam
    by (auto simp: collectSegment_eq samplesOf_def isReadable_def split: sum.splits option.splits)
  moreover have "edssm e1 = edssm e0"
    using collectSegment_ok(2) [OF r(1)] Cons.prems(2) by (simp add: same_config_def)
  ultimately show ?case using Cons.IH [OF r(2)] r(3) by simp
qed simp

text \<open>States that differ in the error state and the log only.\<close>

definition agrees :: "exporter \<Rightarrow> exporter \<Rightarrow> bool" where
  "agrees e e' \<longleftrightarrow> same_config e e' \<and> edials e' = edials e"

lemma collectTokens_agrees:
  assumes "agrees e e'"
  shows "rel_option (rel_prod (=) agrees) (collectTokens w e) (collectTokens w e')"
  using assms by (auto simp: collectTokens_def dialRedis_def agrees_def same_config_def Let_def dssmError_def
      clearDSSMError_def option.rel_refl split: option.split sum.split run.split)

lemma segmentResults_agrees:
  "agrees e e' \<Longrightarrow> rel_option (rel_prod (=) agrees) (segmentResults w paths e) (segmentResults w paths e')"
proof (induction paths arbitrary: e e')
  case (Cons path paths)
  have "rel_option (rel_prod (=) agrees) (collectSegment w path e) (collectSegment w path e')"
    using collectTokens_agrees [OF Cons.prems, of w] Cons.prems
    by (auto simp: collectSegment_eq agrees_def same_config_def option.rel_map rel_prod_sel
        elim!: option.rel_mono_strong split: sum.split option.split)
  then show ?case
    by (cases rule: option.rel_cases)
       (auto simp: option.rel_map rel_prod_sel intro!: option.rel_mono_strong [OF Cons.IH])
qed simp

lemma pushOnce_agrees:
  assumes "agrees e e'"
  shows "rel_option (rel_prod (=) (rel_prod (=) agrees)) (pushOnce w snappy post t e) (pushOnce w snappy post t e')"
proof -
  have c: "esegments e' = esegments e" "eextra e' = eextra e" "erwURL e' = erwURL e"
    using assms by (simp_all add: agrees_def same_config_def)
  from segmentResults_agrees [OF assms, of w "esegments e"]
  have "rel_option (rel_prod (=) agrees) (collect w e) (collect w e')"
    by (auto simp: collect_eq c option.rel_map rel_prod_sel elim!: option.rel_mono_strong)
  then show ?thesis
    by (cases rule: option.rel_cases) (auto simp: pushOnce_def c Let_def rel_prod_sel split: if_split response.split)
qed

text \<open>One push as a function of the configuration and of the number of connections opened before.\<close>

definition pushResult :: "(bytes \<Rightarrow> bytes) \<Rightarrow> exporter \<Rightarrow> nat
    \<Rightarrow> world \<times> (string \<Rightarrow> bytes \<Rightarrow> response) \<times> int \<Rightarrow> (push_error option \<times> bytes) option" where
  "pushResult snappy e n tick =
     (case tick of (w, post, t) \<Rightarrow>
        map_option (\<lambda>(err, body, _). (err, body)) (pushOnce w snappy post t (e\<lparr>edials := n\<rparr>)))"

lemma pushResult_of:
  assumes "same_config e0 e"
  shows "pushResult snappy e0 (edials e) (w, post, t)
    = map_option (\<lambda>(err, body, _). (err, body)) (pushOnce w snappy post t e)"
proof -
  have "agrees e (e0\<lparr>edials := edials e\<rparr>)" using assms by (simp add: agrees_def same_config_def)
  from pushOnce_agrees [OF this, of w snappy post t] show ?thesis
    by (cases rule: option.rel_cases) (auto simp: pushResult_def)
qed

lemma pushOnce_config:
  assumes "pushOnce w snappy post t e = Some (err, body, e')"
  shows "same_config e e'"
proof -
  obtain samples cerr e1 where c: "collect w e = Some ((samples, cerr), e1)" "e' = e1"
    using assms by (cases "collect w e") (auto simp: pushOnce_def Let_def split: if_splits)
  then show ?thesis using collect_ok(2) by blast
qed

lemma pushLoop_results:
  "same_config e0 e \<Longrightarrow>
   (case pushLoop snappy ticks e of
      None \<Rightarrow> \<exists>n tick. tick \<in> set ticks \<and> pushResult snappy e0 n tick = None
    | Some (sent, e') \<Rightarrow> same_config e0 e'
        \<and> (\<exists>ns. length ns = length ticks \<and> map Some sent = map2 (pushResult snappy e0) ns ticks))"
proof (induction ticks arbitrary: e)
  case (Cons tick ticks)
  obtain w post t where tick: "tick = (w, post, t)" by (metis prod.exhaust)
  note r = pushResult_of [OF Cons.prems, of snappy w post t]
  show ?case
  proof (cases "pushOnce w snappy post t e")
    case None
    then show ?thesis using r tick by auto
  next
    case (Some p)
    obtain err body e1 where p: "pushOnce w snappy post t e = Some (err, body, e1)"
      using Some by (metis prod.exhaust)
    have "same_config e0 e1" using pushOnce_config [OF p] Cons.prems by (simp add: same_config_def)
    note IH = Cons.IH [OF this]
    show ?thesis
    proof (cases "pushLoop snappy ticks e1")
      case None
      then show ?thesis using IH p tick by auto
    next
      case (Some q)
      obtain sent e' where q: "pushLoop snappy ticks e1 = Some (sent, e')" using Some by (metis prod.exhaust)
      then obtain ns where "same_config e0 e'" "length ns = length ticks"
        "map Some sent = map2 (pushResult snappy e0) ns ticks"
        using IH by auto
      moreover from this have "length (edials e # ns) = length (tick # ticks)
          \<and> map Some ((err, body) # sent) = map2 (pushResult snappy e0) (edials e # ns) (tick # ticks)"
        using p r tick by simp
      moreover have "pushLoop snappy (tick # ticks) e = Some ((err, body) # sent, e')"
        using p q tick by simp
      ultimately show ?thesis by (simp only: option.case prod.case) blast
    qed
  qed
qed simp

section \<open>Properties\<close>

text \<open>C13: reading a segment: a file that cannot be read or parsed is an error, and else the samples
  are, for every configured table the segment defines, one per value column and user row of the
  merged table, followed by the token samples. A table that is not defined contributes nothing.\<close>

theorem collectSegment_samples:
  "collectSegment w path e =
    (case wReadFile w path of
       Inl err \<Rightarrow> Some (Inl (ReadError err), e)
     | Inr data \<Rightarrow>
         (case Parse data of
            None \<Rightarrow> None
          | Some (Inl err) \<Rightarrow> Some (Inl (ParseError err), e)
          | Some (Inr seg) \<Rightarrow> map_option (\<lambda>(toks, e'). (Inr (concat (map (tableFamily seg) (etables e)) @ toks), e'))
                              (collectTokens w e)))"
  by (rule collectSegment_eq)

text \<open>C15: one failing segment does not lose the others: \<open>collect\<close> returns the samples of every
  segment that could be read, in order, then one health sample per configured segment, and the
  error of the first segment only.\<close>

theorem collect_segments:
  "collect w e =
     map_option (\<lambda>(rs, e'). ((concat (map samplesOf rs) @ map healthOf (zip (esegments e) rs), primaryError rs), e'))
       (segmentResults w (esegments e) e)"
  by (rule collect_eq)

text \<open>C5: what /metrics serves, when the texts of the duration and of the errors hold no line
  feed: the text parses in the exposition format and gives the up gauge, the scrape duration and
  every collected sample with its labels and value, in order. Its comment lines are the TYPE lines
  of the two gauges, the error of the primary segment if there is one, and one TYPE line per run of
  consecutive samples of a metric, and every sample line stands under the TYPE line of its own
  metric. A family whose samples are not contiguous (a table in two segments) so has one TYPE line
  per run.\<close>

theorem metrics_served:
  assumes "CHR 0x0A \<notin> set dur" and "\<forall>x. CHR 0x0A \<notin> set (etext x)"
  shows "case collect w e of
     None \<Rightarrow> handleMetrics w etext dur e = None
   | Some ((samples, err), e') \<Rightarrow> (case handleMetrics w etext dur e of
       None \<Rightarrow> False
     | Some (text, e'') \<Rightarrow> e'' = e'
         \<and> parseExposition text = Some
             ((''f5tmm_up'', [], FInt (if err = None then 1 else 0)) # (seconds_name, [], ParseG dur)
              # map (\<lambda>s. (smetric s, slabels s, svalue s)) samples)
         \<and> filter (\<lambda>l. HasPrefix l ''#'') (Split CHR 0x0A text) =
             [''# TYPE f5tmm_up gauge'', ''# TYPE f5tmm_scrape_duration_seconds gauge'']
             @ (case err of None \<Rightarrow> [] | Some x \<Rightarrow> [''# collect error: '' @ etext x])
             @ map typeLine (remdups_adj (map smetric samples))
         \<and> typedLines [] (Split CHR 0x0A text))"
proof (cases "collect w e")
  case None
  then show ?thesis by (simp add: handleMetrics_def)
next
  case (Some r)
  obtain samples err e' where r: "r = ((samples, err), e')" by (metis prod.exhaust)
  note c = Some [unfolded r]
  obtain out where t: "handleMetrics w etext dur e = Some (out, e')"
    using c by (simp add: handleMetrics_def Let_def)
  have "parseExposition out = Some
      ((''f5tmm_up'', [], FInt (if err = None then 1 else 0)) # (seconds_name, [], ParseG dur)
       # map (\<lambda>s. (smetric s, slabels s, svalue s)) samples)"
    using handleMetrics_parses [OF c assms] by (simp add: t)
  then show ?thesis using handleMetrics_types [OF c assms t] by (simp add: c t)
qed

text \<open>C18: the series of a merged table are unique: when the table has a key and tmm's layout (columns
  with distinct names, counters that share no byte with each other or with a key), no key column is
  an address and the value columns keep their names apart under \<open>sanitize\<close>, no two samples share
  metric and labels.\<close>

theorem table_series_unique:
  assumes "agg_layout t" and "\<forall>kc \<in> set (keyColumns t). \<not> IsAddress kc"
    and "distinct (map (sanitize \<circ> colName) (filter (\<lambda>c. \<not> IsKey c \<and> IsNumeric c) (tabColumns t)))"
    and "keyColumns t \<noteq> []"
  shows "case aggregate t rows of
     None \<Rightarrow> False
   | Some out \<Rightarrow> (case tableSamples name t out of
       None \<Rightarrow> False
     | Some ss \<Rightarrow> distinct (map (\<lambda>s. (smetric s, slabels s)) ss))"
proof -
  have "distinct (map (keyOf (keyColumns t)) (groupMerge t rows))"
    unfolding keys_groupMerge [OF assms(1)] by (simp add: rowKeys_def)
  from familyOf_unique [OF this assms(2,3)] show ?thesis
    using assms(4) by (simp add: aggregate_groupMerge tableSamples_eq)
qed

theorem table_series_unique_witness:
  "case aggregate demo_table demo_rows of
     None \<Rightarrow> False
   | Some out \<Rightarrow> (case tableSamples ''widget_stat'' demo_table out of
       None \<Rightarrow> False
     | Some ss \<Rightarrow> distinct (map (\<lambda>s. (smetric s, slabels s)) ss))"
proof (rule table_series_unique [OF demo_layout(1) _ _ demo_layout(2)])
  show "\<forall>kc \<in> set (keyColumns demo_table). \<not> IsAddress kc"
    by (simp add: demo_table_def keyColumns_def IsAddress_def tm_consts)
  show "distinct (map (sanitize \<circ> colName) (filter (\<lambda>c. \<not> IsKey c \<and> IsNumeric c) (tabColumns demo_table)))"
    by (simp add: demo_table_def IsKey_def IsNumeric_def tm_consts)
qed

text \<open>An address key loses its route domain: two rows whose addresses agree in the 16 address
  bytes get the same label, while the aggregation keeps them apart when the four bytes of the
  route domain differ. Their series collide.\<close>

theorem route_domain_collision:
  assumes "colType kc = typeAddress" and "colSize kc = 20"
    and "colOffset kc + 20 \<le> length (rowRaw r)" and "colOffset kc + 20 \<le> length (rowRaw r')"
    and "take 16 (drop (colOffset kc) (rowRaw r)) = take 16 (drop (colOffset kc) (rowRaw r'))"
  shows "keyLabel r kc = keyLabel r' kc
    \<and> (rowKey [kc] r = rowKey [kc] r' \<longleftrightarrow>
        take 20 (drop (colOffset kc) (rowRaw r)) = take 20 (drop (colOffset kc) (rowRaw r')))"
  using route_domain_label [OF assms] by (simp add: keyLabel_eq rowKey_keyOf)

text \<open>The DSSM is read once per segment, not once per collection: with a DSSM that gives the
  same counters on every dial, the collected samples hold them as many times as segments could be
  read, so two readable segments publish every token series twice.\<close>

theorem tokens_repeated_per_segment:
  "let w' = w\<lparr>wDial := (\<lambda>_. Inr c)\<rparr> in
   case (collectTokens w' e, segmentResults w' (esegments e) e) of
     (Some (toks, _), Some (rs, _)) \<Rightarrow>
       map_option (filter sglobal \<circ> fst \<circ> fst) (collect w' e) =
         Some (concat (replicate (length (filter (\<lambda>r. case r of Inl _ \<Rightarrow> False | Inr _ \<Rightarrow> True) rs)) toks))
   | _ \<Rightarrow> True"
proof -
  let ?w = "w\<lparr>wDial := (\<lambda>_. Inr c)\<rparr>"
  have dial: "\<forall>i. wDial ?w i = Inr c" by simp
  have health: "filter sglobal (map healthOf prs) = []" for prs
    by (simp add: filter_empty_conv healthOf_def healthSample_def)
  have "map_option (filter sglobal \<circ> fst \<circ> fst) (collect ?w e) =
      Some (concat (replicate (length (filter isReadable rs)) toks))"
    if "collectTokens ?w e = Some (toks, e')" "segmentResults ?w (esegments e) e = Some (rs, e1)" for toks e' rs e1
    using segmentResults_tokens [OF dial _ that(2), of e toks] that health by (simp add: collect_eq)
  then show ?thesis
    by (auto simp: Let_def isReadable_def [abs_def] split: option.split prod.split)
qed

text \<open>C6: what a push delivers: decompressed and decoded, the request holds one series per
  collected sample and the up gauge, all at the push time; when the primary segment failed it
  holds the up gauge alone, at 0. The push succeeds exactly when the receiver answers 2xx and the
  primary segment was read.\<close>

theorem pushOnce_delivers:
  assumes "\<forall>b. unsnappy (snappy b) = Some b" and "int64 t"
    and "collect w e = Some ((samples, err), e')"
    and "sent = (if err = None then samples else [])
           @ [\<lparr>smetric = ''f5tmm_up'', slabels = [], svalue = FInt (if err = None then 1 else 0), sglobal = False\<rparr>]"
    and "length (writeRequest (map toSample sent) (map toLabel (eextra e)) t) < 2 ^ 64"
  shows "case pushOnce w snappy post t e of
     None \<Rightarrow> False
   | Some (res, body, e'') \<Rightarrow> e'' = e'
       \<and> Option.bind (unsnappy body) decodeRequest
           = Some (map (\<lambda>s. (map toLabel (sampleLabels_rw (eextra e) s), [(svalue s, t)])) sent)
       \<and> (res = None \<longleftrightarrow> err = None
           \<and> (case post (erwURL e) body of Status code _ \<Rightarrow> code div 100 = 2 | _ \<Rightarrow> False))"
proof -
  let ?body = "buildWriteRequest snappy sent (eextra e) t"
  have run: "pushOnce w snappy post t e = Some
      (case post (erwURL e) ?body of BadRequest err \<Rightarrow> Some (PushFailed err) | NoResponse err \<Rightarrow> Some (PushFailed err)
       | Status code st \<Rightarrow> if code div 100 \<noteq> 2 then Some (PushRefused (erwURL e) st) else map_option PushCollect err,
       ?body, e')"
    using assms(3,4) by (cases err) (simp_all add: pushOnce_def Let_def split: response.split)
  have "valid_f64 (svalue s)" if "s \<in> set sent" for s
    using that collect_ok(1) [OF assms(3)] unfolding assms(4)
    by (auto simp: list_all_iff line_ok_def round53_def split: if_splits)
  then have "decodeRequest (writeRequest (map toSample sent) (map toLabel (eextra e)) t)
      = Some (map (\<lambda>s. (sampleLabels (map toLabel (eextra e)) s, [(SValue s, t)])) (map toSample sent))"
    using assms(2,5) by (intro decodeRequest_writeRequest) (auto simp: toSample_def)
  moreover have "?body = snappy (writeRequest (map toSample sent) (map toLabel (eextra e)) t)"
    by (simp add: buildWriteRequest_writeRequest)
  ultimately have "Option.bind (unsnappy ?body) decodeRequest
      = Some (map (\<lambda>s. (map toLabel (sampleLabels_rw (eextra e) s), [(svalue s, t)])) sent)"
    using assms(1) by (simp add: sampleLabels_rw_eq toSample_def)
  then show ?thesis unfolding run by (auto split: response.split)
qed

text \<open>A world without segments and a DSSM that refuses, for the witnesses.\<close>

definition down_world :: world where
  "down_world = demo_world (\<lambda>_. Inl ''refused'')"

lemma collect_down:
  "collect down_world demo_exporter =
     Some (([healthSample ''/var/tmstat/blade/tmm0'' False], Some (ReadError ''no such file'')), demo_exporter)"
  by (simp add: collect_def collectSegment_def down_world_def demo_world_def demo_exporter_def)

theorem metrics_served_witness:
  "case handleMetrics down_world (\<lambda>_. ''unreadable'') ''0'' demo_exporter of
     None \<Rightarrow> False
   | Some (text, e') \<Rightarrow> e' = demo_exporter
       \<and> parseExposition text = Some [(''f5tmm_up'', [], FInt 0), (seconds_name, [], ParseG ''0''),
           (''f5tmm_segment_up'', [\<lparr>lname = ''segment'', lvalue = ''tmm0''\<rparr>], FInt 0)]
       \<and> filter (\<lambda>l. HasPrefix l ''#'') (Split CHR 0x0A text) =
           [''# TYPE f5tmm_up gauge'', ''# TYPE f5tmm_scrape_duration_seconds gauge'',
            ''# collect error: unreadable'', typeLine ''f5tmm_segment_up'']
       \<and> typedLines [] (Split CHR 0x0A text)"
  using metrics_served [of "''0''" "\<lambda>_. ''unreadable''" down_world demo_exporter]
  by (auto simp: collect_down healthSample_def Base_def split: option.splits)

theorem pushOnce_delivers_witness:
  "case pushOnce down_world (\<lambda>b. 0xFF # b) (\<lambda>_ _. Status 204 ''No Content'') 1000 demo_exporter of
     None \<Rightarrow> False
   | Some (res, body, e') \<Rightarrow> res \<noteq> None
       \<and> Option.bind (case body of [] \<Rightarrow> None | _ # b \<Rightarrow> Some b) decodeRequest
           = Some [([\<lparr>lblName = ''__name__'', lblValue = ''f5tmm_up''\<rparr>], [(FInt 0, 1000)])]"
proof -
  let ?up = "\<lparr>smetric = ''f5tmm_up'', slabels = [], svalue = FInt 0, sglobal = False\<rparr> :: esample"
  let ?un = "\<lambda>b :: bytes. case b of [] \<Rightarrow> None | _ # b \<Rightarrow> Some b"
  have labels: "sampleLabels [] (toSample ?up) = [\<lparr>lblName = ''__name__'', lblValue = ''f5tmm_up''\<rparr>]"
    by (simp add: sampleLabels_def toSample_def)
  have rw: "map toLabel (sampleLabels_rw [] ?up) = [\<lparr>lblName = ''__name__'', lblValue = ''f5tmm_up''\<rparr>]"
    using labels by (simp add: sampleLabels_rw_eq)
  have "length (encodeSeries [] 1000 (toSample ?up)) \<le> 58 + sum_list (map labelSize (sampleLabels [] (toSample ?up)))"
    by (rule length_encodeSeries_le)
  also have "\<dots> < 1000" unfolding labels by (simp add: labelSize_def)
  finally have fits: "length (writeRequest [toSample ?up] [] 1000) < 2 ^ 64"
    using length_putField_le(1) [of 1 "encodeSeries [] 1000 (toSample ?up)"] by (simp add: writeRequest_puts)
  have ext: "eextra demo_exporter = []" by (simp add: demo_exporter_def)
  have "case pushOnce down_world (\<lambda>b. 0xFF # b) (\<lambda>_ _. Status 204 ''No Content'') 1000 demo_exporter of
     None \<Rightarrow> False
   | Some (res, body, e'') \<Rightarrow> e'' = demo_exporter
       \<and> Option.bind (?un body) decodeRequest
           = Some (map (\<lambda>s. (map toLabel (sampleLabels_rw (eextra demo_exporter) s), [(svalue s, 1000)])) [?up])
       \<and> (res = None \<longleftrightarrow> Some (ReadError ''no such file'') = None
           \<and> (case (\<lambda>_ _. Status 204 ''No Content'') (erwURL demo_exporter) body of
                Status code _ \<Rightarrow> code div 100 = 2 | _ \<Rightarrow> False))"
    by (rule pushOnce_delivers [OF _ _ collect_down]) (use fits in \<open>simp_all add: int64_def ext\<close>)
  then show ?thesis by (auto simp: ext rw split: option.splits)
qed

definition addr_column :: column where
  "addr_column = \<lparr>colName = ''addr'', colOffset = 0, colSize = 20, colType = 6, colRule = 0, colDropped = False\<rparr>"

definition addr_row :: "byte \<Rightarrow> row" where
  "addr_row rd = \<lparr>rowTbl = demo_table, rowRaw = replicate 16 10 @ [0, 0, 0, rd]\<rparr>"

theorem route_domain_collision_witness:
  "keyLabel (addr_row 1) addr_column = keyLabel (addr_row 2) addr_column
   \<and> rowKey [addr_column] (addr_row 1) \<noteq> rowKey [addr_column] (addr_row 2)"
  using route_domain_collision [of addr_column "addr_row 1" "addr_row 2"]
  by (simp add: addr_column_def addr_row_def tm_consts)

text \<open>C35: the push loop, for an interval its ticker accepts: every tick is one push of its own moment, in order, whatever came of the
  ticks before: its log entry and its request are those of \<open>pushOnce\<close> at that tick for an exporter
  of the same configuration, where only the number of DSSM connections opened so far is carried
  over (no error, log or state of an earlier tick is). No push error ends the loop, the
  configuration never changes, and the loop ends early only when the push of some tick panics.\<close>

theorem pushLoop_every_tick:
  "case pushLoop snappy ticks e of
     None \<Rightarrow> \<exists>n tick. tick \<in> set ticks \<and> pushResult snappy e n tick = None
   | Some (sent, e') \<Rightarrow> same_config e e'
       \<and> (\<exists>ns. length ns = length ticks \<and> map Some sent = map2 (pushResult snappy e) ns ticks)"
  by (rule pushLoop_results) (simp add: same_config_def)

end
