(* ===== verification/GoFlag.thy ===== *)
theory GoFlag
  imports ExpText GoFloat
begin

text \<open>
  The command lines of the four programs: package flag of Go's standard library (\<open>parseOne\<close> and
  \<open>Parse\<close> with \<open>ExitOnError\<close>) and the texts its values are read from (\<open>strconv.ParseBool\<close>,
  \<open>strconv.ParseInt\<close> with base 0, \<open>strconv.Atoi\<close>, \<open>time.ParseDuration\<close>). A flag set is the list of its
  flags: name, kind, and the variable it sets; two flags may set one variable. The variables are
  a map that holds the defaults before the arguments are parsed.
\<close>

section \<open>Numbers and booleans\<close>

definition ParseBool :: "string \<Rightarrow> bool option" where
  "ParseBool s =
     (if s \<in> {''1'', ''t'', ''T'', ''TRUE'', ''true'', ''True''} then Some True
      else if s \<in> {''0'', ''f'', ''F'', ''FALSE'', ''false'', ''False''} then Some False else None)"

text \<open>Base 0 takes the base from a prefix; underscores may stand between digits and after a prefix.\<close>

definition lowerc :: "char \<Rightarrow> char" where
  "lowerc c = (if 65 \<le> (of_char c :: nat) \<and> (of_char c :: nat) \<le> 90 then char_of ((of_char c :: nat) + 32) else c)"

definition baseOf :: "string \<Rightarrow> nat \<times> string" where
  "baseOf s =
     (case s of
        [] \<Rightarrow> (10, [])
      | z # t \<Rightarrow>
          if z \<noteq> CHR ''0'' then (10, s)
          else if length s \<ge> 3 \<and> lowerc (hd t) = CHR ''b'' then (2, tl t)
          else if length s \<ge> 3 \<and> lowerc (hd t) = CHR ''o'' then (8, tl t)
          else if length s \<ge> 3 \<and> lowerc (hd t) = CHR ''x'' then (16, tl t)
          else (8, t))"

definition alnum_val :: "char \<Rightarrow> nat option" where
  "alnum_val c =
     (let l = (of_char (lowerc c) :: nat) in
      if is_digit c then Some (digit_val c) else if 97 \<le> l \<and> l \<le> 122 then Some (l - 97 + 10) else None)"

fun base_val :: "nat \<Rightarrow> string \<Rightarrow> nat \<Rightarrow> nat option" where
  "base_val base [] n = Some n"
| "base_val base (c # cs) n =
     (if c = CHR ''_'' then base_val base cs n
      else (case alnum_val c of
              None \<Rightarrow> None
            | Some d \<Rightarrow> if d < base then base_val base cs (base * n + d) else None))"

fun underscores :: "bool \<Rightarrow> char \<Rightarrow> string \<Rightarrow> bool" where
  "underscores hex saw [] \<longleftrightarrow> saw \<noteq> CHR ''_''"
| "underscores hex saw (c # cs) \<longleftrightarrow>
     (if is_digit c \<or> (hex \<and> CHR ''a'' \<le> lowerc c \<and> lowerc c \<le> CHR ''f'') then underscores hex CHR ''0'' cs
      else if c = CHR ''_'' then saw = CHR ''0'' \<and> underscores hex CHR ''_'' cs
      else saw \<noteq> CHR ''_'' \<and> underscores hex CHR ''!'' cs)"

definition underscoreOK :: "string \<Rightarrow> bool" where
  "underscoreOK s =
     (if length s \<ge> 2 \<and> hd s = CHR ''0'' \<and> lowerc (s ! 1) \<in> {CHR ''b'', CHR ''o'', CHR ''x''}
      then underscores (lowerc (s ! 1) = CHR ''x'') CHR ''0'' (drop 2 s) else underscores False CHR ''^'' s)"

definition ParseInt0 :: "string \<Rightarrow> int option" where
  "ParseInt0 s =
     (case signOf s of (neg, u) \<Rightarrow>
        if u = [] then None
        else (case baseOf u of (base, ds) \<Rightarrow>
          (case base_val base ds 0 of
             None \<Rightarrow> None
           | Some n \<Rightarrow> if CHR ''_'' \<in> set ds \<and> \<not> underscoreOK u then None else toInt64 neg n)))"

section \<open>Durations\<close>

text \<open>A fraction \<open>f / scale\<close> of a unit is multiplied in double precision: \<open>f\<close> and the quotient
  \<open>unit / scale\<close> are rounded to 53 bits, and so is their product, whose fraction is cut off. A rounded
  positive number is \<open>(m, e)\<close> for \<open>m * 2 ^ e\<close>; \<open>ratRound n d\<close> rounds \<open>n / d\<close> to nearest, ties to even.\<close>

definition ratRound :: "nat \<Rightarrow> nat \<Rightarrow> nat \<times> int" where
  "ratRound n d =
     (let s = 54 + bitlen d; q = n * 2 ^ s div d;
          k = bitlen q - 53; low = q div 2 ^ k; rest = q mod 2 ^ k; half = 2 ^ (k - 1);
          sticky = n * 2 ^ s mod d;
          up = (k > 0 \<and> (rest > half \<or> (rest = half \<and> (sticky > 0 \<or> odd low))))
      in (if up then low + 1 else low, int k - int s))"

definition truncated :: "nat \<times> int \<Rightarrow> nat" where
  "truncated x = (case x of (m, e) \<Rightarrow> if e \<ge> 0 then m * 2 ^ nat e else m div 2 ^ nat (- e))"

definition ratMul :: "nat \<times> int \<Rightarrow> nat \<times> int \<Rightarrow> nat \<times> int" where
  "ratMul x y = (case (x, y) of ((m, e), (n, f)) \<Rightarrow> (case ratRound (m * n) 1 of (p, g) \<Rightarrow> (p, g + e + f)))"

fun leadingFraction :: "string \<Rightarrow> nat \<Rightarrow> nat \<Rightarrow> bool \<Rightarrow> nat \<times> nat \<times> string" where
  "leadingFraction [] x scale over = (x, scale, [])"
| "leadingFraction (c # cs) x scale over =
     (if \<not> is_digit c then (x, scale, c # cs)
      else (let y = 10 * x + digit_val c in
            if over \<or> x > (2 ^ 63 - 1) div 10 \<or> y > 2 ^ 63 then leadingFraction cs x scale True
            else leadingFraction cs y (10 * scale) False))"

definition micro :: "string list" where
  "micro = [''us'', [CHR 0xC2, CHR 0xB5, CHR ''s''], [CHR 0xCE, CHR 0xBC, CHR ''s'']]"

definition unitMap :: "string \<Rightarrow> nat option" where
  "unitMap u =
     (if u = ''ns'' then Some 1 else if u \<in> set micro then Some 1000 else if u = ''ms'' then Some 1000000
      else if u = ''s'' then Some 1000000000 else if u = ''m'' then Some 60000000000
      else if u = ''h'' then Some 3600000000000 else None)"

definition number_char :: "char \<Rightarrow> bool" where
  "number_char c \<longleftrightarrow> c = CHR ''.'' \<or> is_digit c"

text \<open>One number with its unit: its nanoseconds and what follows it.\<close>

definition durationPart :: "string \<Rightarrow> (nat \<times> string) option" where
  "durationPart s =
     (let ds = takeWhile is_digit s; s1 = dropWhile is_digit s; v = digits_val ds;
          dot = (s1 \<noteq> [] \<and> hd s1 = CHR ''.'');
          (f, scale, s2) = (if dot then leadingFraction (tl s1) 0 1 False else (0, 1, s1));
          post = (dot \<and> length s2 \<noteq> length (tl s1));
          u = takeWhile (\<lambda>c. \<not> number_char c) s2; s3 = dropWhile (\<lambda>c. \<not> number_char c) s2
      in if v > 2 ^ 63 \<or> (ds = [] \<and> \<not> post) then None
         else (case unitMap u of
                 None \<Rightarrow> None
               | Some unit \<Rightarrow>
                   if v > 2 ^ 63 div unit then None
                   else (let w = v * unit + (if f > 0 then truncated (ratMul (ratRound f 1) (ratRound unit scale)) else 0)
                         in if w > 2 ^ 63 then None else Some (w, s3))))"

lemma leadingFraction_shorter: "leadingFraction s x sc ov = (f, scale, t) \<Longrightarrow> length t \<le> length s"
  by (induction s x sc ov rule: leadingFraction.induct) (auto simp: Let_def le_Suc_eq split: if_splits)

lemma unitMap_Nil [simp]: "unitMap [] = None"
  by (simp add: unitMap_def micro_def)

lemma durationPart_shorter: "durationPart s = Some (w, t) \<Longrightarrow> length t < length s"
proof -
  assume a: "durationPart s = Some (w, t)"
  let ?s1 = "dropWhile is_digit s"
  obtain f scale s2 where f: "(if ?s1 \<noteq> [] \<and> hd ?s1 = CHR ''.'' then leadingFraction (tl ?s1) 0 1 False else (0, 1, ?s1)) = (f, scale, s2)"
    by (cases "if ?s1 \<noteq> [] \<and> hd ?s1 = CHR ''.'' then leadingFraction (tl ?s1) 0 1 False else (0, 1, ?s1)")
  have "length s2 \<le> length ?s1" using f leadingFraction_shorter by (fastforce split: if_splits)
  moreover have "takeWhile (\<lambda>c. \<not> number_char c) s2 \<noteq> []" "t = dropWhile (\<lambda>c. \<not> number_char c) s2"
    using a f by (auto simp: durationPart_def Let_def split: if_splits option.splits)
  moreover have "length (takeWhile (\<lambda>c. \<not> number_char c) s2) + length (dropWhile (\<lambda>c. \<not> number_char c) s2) = length s2"
    by (metis length_append takeWhile_dropWhile_id)
  moreover have "length ?s1 \<le> length s" by (rule length_dropWhile_le)
  ultimately show ?thesis by (metis le_trans length_greater_0_conv less_add_same_cancel2 linorder_not_less)
qed

function durationParts :: "nat \<Rightarrow> string \<Rightarrow> nat option" where
  "durationParts d s =
     (if s = [] then Some d
      else if \<not> number_char (hd s) then None
      else (case durationPart s of
              None \<Rightarrow> None
            | Some (w, t) \<Rightarrow> (let d' = (d + w) mod 2 ^ 64 in if d' > 2 ^ 63 then None else durationParts d' t)))"
  by pat_completeness auto
termination
  by (relation "measure (\<lambda>(d, s). length s)") (auto simp: durationPart_shorter)

declare durationParts.simps [simp del]

definition ParseDuration :: "string \<Rightarrow> int option" where
  "ParseDuration s =
     (case signOf s of (neg, u) \<Rightarrow>
        if u = ''0'' then Some 0
        else if u = [] then None
        else (case durationParts 0 u of None \<Rightarrow> None | Some d \<Rightarrow> toInt64 neg d))"

section \<open>Flags\<close>

datatype flagKind = KString | KBool | KInt | KDuration

datatype flagValue = FString string | FBool bool | FNumber int | FDuration int

record formal =
  flName :: string
  flKind :: flagKind
  flVar :: string

type_synonym vars = "string \<rightharpoonup> flagValue"

datatype flag_error = BadSyntax string | NotDefined string | NeedsArgument string | BadValue string string | Help

text \<open>Package flag prints the error and the usage and ends the program.\<close>

definition flagExit :: "flag_error \<Rightarrow> nat" where
  "flagExit e = (if e = Help then 0 else 2)"

definition setFlag :: "flagKind \<Rightarrow> string \<Rightarrow> flagValue option" where
  "setFlag k text =
     (case k of
        KString \<Rightarrow> Some (FString text)
      | KBool \<Rightarrow> map_option FBool (ParseBool text)
      | KInt \<Rightarrow> map_option FNumber (ParseInt0 text)
      | KDuration \<Rightarrow> map_option FDuration (ParseDuration text))"

text \<open>What an argument is: the first of the rest of the command line, the terminator, or a flag with
  or without a value.\<close>

datatype argument = Positional | Terminator | Malformed | Named string "string option"

definition classify :: "string \<Rightarrow> argument" where
  "classify s =
     (if length s < 2 \<or> hd s \<noteq> CHR ''-'' then Positional
      else if s = ''--'' then Terminator
      else (let name = (if s ! 1 = CHR ''-'' then drop 2 s else drop 1 s) in
            if hd name = CHR ''-'' \<or> hd name = CHR ''='' then Malformed
            else (case Cut CHR ''='' name of (k, v, found) \<Rightarrow> Named k (if found then Some v else None))))"

definition lookupFlag :: "formal list \<Rightarrow> string \<Rightarrow> formal option" where
  "lookupFlag fs name = find (\<lambda>f. flName f = name) fs"

text \<open>A boolean flag never takes the next argument; every other flag without a value does.\<close>

definition assign :: "formal \<Rightarrow> string \<Rightarrow> vars \<Rightarrow> flag_error + vars" where
  "assign f text vs =
     (case setFlag (flKind f) text of
        None \<Rightarrow> Inl (BadValue (flName f) text)
      | Some v \<Rightarrow> Inr (vs(flVar f \<mapsto> v)))"

fun parseFlags :: "formal list \<Rightarrow> vars \<Rightarrow> string list \<Rightarrow> flag_error + vars \<times> string list" where
  "parseFlags fs vs [] = Inr (vs, [])"
| "parseFlags fs vs (s # args) =
     (case classify s of
        Positional \<Rightarrow> Inr (vs, s # args)
      | Terminator \<Rightarrow> Inr (vs, args)
      | Malformed \<Rightarrow> Inl (BadSyntax s)
      | Named name given \<Rightarrow>
          (case lookupFlag fs name of
             None \<Rightarrow> Inl (if name = ''help'' \<or> name = ''h'' then Help else NotDefined name)
           | Some f \<Rightarrow>
               (case given of
                  Some text \<Rightarrow>
                    (case assign f text vs of Inl e \<Rightarrow> Inl e | Inr vs' \<Rightarrow> parseFlags fs vs' args)
                | None \<Rightarrow>
                    if flKind f = KBool then parseFlags fs (vs(flVar f \<mapsto> FBool True)) args
                    else (case args of
                            [] \<Rightarrow> Inl (NeedsArgument name)
                          | text # rest \<Rightarrow>
                              (case assign f text vs of Inl e \<Rightarrow> Inl e | Inr vs' \<Rightarrow> parseFlags fs vs' rest)))))"

text \<open>The variables; a flag set starts with the defaults of its flags.\<close>

definition strVar :: "vars \<Rightarrow> string \<Rightarrow> string" where
  "strVar vs x = (case vs x of Some (FString s) \<Rightarrow> s | _ \<Rightarrow> [])"

definition boolVar :: "vars \<Rightarrow> string \<Rightarrow> bool" where
  "boolVar vs x = (case vs x of Some (FBool b) \<Rightarrow> b | _ \<Rightarrow> False)"

definition intVar :: "vars \<Rightarrow> string \<Rightarrow> int" where
  "intVar vs x = (case vs x of Some (FNumber n) \<Rightarrow> n | Some (FDuration n) \<Rightarrow> n | _ \<Rightarrow> 0)"

definition stringFlag :: "string \<Rightarrow> formal" where
  "stringFlag n = \<lparr>flName = n, flKind = KString, flVar = n\<rparr>"

definition boolFlag :: "string \<Rightarrow> formal" where
  "boolFlag n = \<lparr>flName = n, flKind = KBool, flVar = n\<rparr>"

definition intFlag :: "string \<Rightarrow> formal" where
  "intFlag n = \<lparr>flName = n, flKind = KInt, flVar = n\<rparr>"

definition durationFlag :: "string \<Rightarrow> formal" where
  "durationFlag n = \<lparr>flName = n, flKind = KDuration, flVar = n\<rparr>"

lemmas flag_defs = stringFlag_def boolFlag_def intFlag_def durationFlag_def
lemmas var_defs = strVar_def boolVar_def intVar_def

section \<open>Command lines that were written\<close>

text \<open>The form \<open>--name=value\<close>, for a name without an equals sign that is not empty and starts with no dash.\<close>

definition flagArg :: "string \<times> string \<Rightarrow> string" where
  "flagArg p = ''--'' @ fst p @ CHR ''='' # snd p"

definition flag_name :: "string \<Rightarrow> bool" where
  "flag_name n \<longleftrightarrow> n \<noteq> [] \<and> hd n \<noteq> CHR ''-'' \<and> CHR ''='' \<notin> set n"

lemma classify_flagArg: "flag_name n \<Longrightarrow> classify (flagArg (n, v)) = Named n (Some v)"
  by (cases n) (auto simp: classify_def flagArg_def flag_name_def Cut_found Let_def
      dest: Cut_found [of "CHR ''=''" _ v])

definition settable :: "formal list \<Rightarrow> string \<times> string \<Rightarrow> bool" where
  "settable fs p \<longleftrightarrow> flag_name (fst p)
     \<and> (case lookupFlag fs (fst p) of None \<Rightarrow> False | Some f \<Rightarrow> setFlag (flKind f) (snd p) \<noteq> None)"

definition setPair :: "formal list \<Rightarrow> string \<times> string \<Rightarrow> vars \<Rightarrow> vars" where
  "setPair fs p vs =
     (case lookupFlag fs (fst p) of
        None \<Rightarrow> vs
      | Some f \<Rightarrow> (case setFlag (flKind f) (snd p) of None \<Rightarrow> vs | Some v \<Rightarrow> vs(flVar f \<mapsto> v)))"

lemma parseFlags_flagArgs:
  "list_all (settable fs) ps \<Longrightarrow> parseFlags fs vs (map flagArg ps @ rest) = parseFlags fs (fold (setPair fs) ps vs) rest"
proof (induction ps arbitrary: vs)
  case (Cons p ps)
  obtain n v where p: "p = (n, v)" by (cases p)
  have n: "flag_name n" using Cons.prems p by (simp add: settable_def)
  obtain f w where f: "lookupFlag fs n = Some f" "setFlag (flKind f) v = Some w"
    using Cons.prems p by (auto simp: settable_def split: option.splits)
  have "setPair fs p vs = vs(flVar f \<mapsto> w)" by (simp add: setPair_def p f)
  then show ?case
    using Cons.IH [of "vs(flVar f \<mapsto> w)"] Cons.prems
    by (simp add: p classify_flagArg [OF n] f assign_def del: fun_upd_apply)
qed simp

text \<open>Every flag's variable holds a value of the flag's kind, before and after parsing; then the
  last case of the readers above is never taken.\<close>

lemma ParseInt0_range: "ParseInt0 s = Some i \<Longrightarrow> in_int64 i"
  unfolding ParseInt0_def by (auto dest: toInt64_range split: if_splits option.splits prod.splits)

lemma ParseDuration_range: "ParseDuration s = Some i \<Longrightarrow> in_int64 i"
  by (cases "signOf s") (auto simp: ParseDuration_def in_int64_def [of 0] dest: toInt64_range split: if_splits option.splits)

fun has_kind :: "flagKind \<Rightarrow> flagValue \<Rightarrow> bool" where
  "has_kind KString (FString _) = True"
| "has_kind KBool (FBool _) = True"
| "has_kind KInt (FNumber n) = in_int64 n"
| "has_kind KDuration (FDuration n) = in_int64 n"
| "has_kind _ _ = False"

definition consistent :: "formal list \<Rightarrow> bool" where
  "consistent fs \<longleftrightarrow> list_all (\<lambda>f. list_all (\<lambda>g. flVar f = flVar g \<longrightarrow> flKind f = flKind g) fs) fs"

definition typed :: "formal list \<Rightarrow> vars \<Rightarrow> bool" where
  "typed fs vs \<longleftrightarrow> list_all (\<lambda>f. case vs (flVar f) of None \<Rightarrow> False | Some v \<Rightarrow> has_kind (flKind f) v) fs"

lemma setFlag_kind: "setFlag k text = Some v \<Longrightarrow> has_kind k v"
  by (cases k) (auto simp: setFlag_def dest: ParseInt0_range ParseDuration_range)

lemma typed_update:
  assumes "consistent fs" and "typed fs vs" and "f \<in> set fs" and "has_kind (flKind f) v"
  shows "typed fs (vs(flVar f \<mapsto> v))"
  unfolding typed_def list_all_iff
proof
  fix g assume g: "g \<in> set fs"
  have "flKind g = flKind f" if "flVar g = flVar f"
    using that assms(1,3) g unfolding consistent_def list_all_iff by blast
  moreover have "case vs (flVar g) of None \<Rightarrow> False | Some v \<Rightarrow> has_kind (flKind g) v"
    using assms(2) g by (simp add: typed_def list_all_iff)
  ultimately show "case (vs(flVar f \<mapsto> v)) (flVar g) of None \<Rightarrow> False | Some v \<Rightarrow> has_kind (flKind g) v"
    using assms(4) by simp
qed

lemma lookupFlag_mem: "lookupFlag fs n = Some f \<Longrightarrow> f \<in> set fs"
  by (auto simp: lookupFlag_def find_Some_iff)

lemma assign_typed:
  assumes "consistent fs" and "typed fs vs" and "lookupFlag fs n = Some f" and "assign f text vs = Inr vs'"
  shows "typed fs vs'"
proof -
  obtain v where "setFlag (flKind f) text = Some v" "vs' = vs(flVar f \<mapsto> v)"
    using assms(4) by (auto simp: assign_def split: option.splits)
  then show ?thesis using typed_update [OF assms(1,2) lookupFlag_mem [OF assms(3)]] setFlag_kind by blast
qed

lemma parseFlags_typed:
  "consistent fs \<Longrightarrow> typed fs vs \<Longrightarrow> parseFlags fs vs args = Inr (vs', rest) \<Longrightarrow> typed fs vs'"
proof (induction fs vs args rule: parseFlags.induct)
  case (2 fs vs s args)
  note known = 2(4,5) and result = 2(6)
  show ?case
  proof (cases "classify s")
    case (Named n given)
    then obtain f where f: "lookupFlag fs n = Some f" using result by (auto split: option.splits)
    show ?thesis
    proof (cases given)
      case (Some t)
      then obtain vs1 where a: "assign f t vs = Inr vs1" using result Named f by (auto split: sum.splits)
      then show ?thesis
        using 2(3) [OF Named f Some a known(1) assign_typed [OF known f a]] result Named Some f by simp
    next
      case None
      show ?thesis
      proof (cases "flKind f = KBool")
        case True
        then show ?thesis
          using 2(1) [OF Named f None True known(1)] typed_update [OF known lookupFlag_mem [OF f], of "FBool True"]
            result Named None f by (simp del: fun_upd_apply)
      next
        case False
        obtain t ts where ts: "args = t # ts" using result Named None f False by (cases args) auto
        then obtain vs1 where a: "assign f t vs = Inr vs1" using result Named None f False by (auto split: sum.splits)
        then show ?thesis
          using 2(2) [OF Named f None False ts a known(1) assign_typed [OF known f a]] result Named None f False ts by simp
      qed
    qed
  qed (use 2 in auto)
qed simp

text \<open>A variable that no argument names keeps its value.\<close>

definition spares :: "formal list \<Rightarrow> string \<Rightarrow> string \<Rightarrow> bool" where
  "spares fs x a = (case classify a of
     Named n _ \<Rightarrow> (case lookupFlag fs n of None \<Rightarrow> True | Some f \<Rightarrow> flVar f \<noteq> x) | _ \<Rightarrow> True)"

lemma parseFlags_spares:
  "list_all (spares fs x) args \<Longrightarrow> parseFlags fs vs args = Inr (vs', rest) \<Longrightarrow> vs' x = vs x"
proof (induction fs vs args rule: parseFlags.induct)
  case (2 fs vs s args)
  note spared = 2(4) and result = 2(5)
  have rest: "list_all (spares fs x) args" and first: "spares fs x s" using spared by simp_all
  show ?case
  proof (cases "classify s")
    case (Named n given)
    then obtain f where f: "lookupFlag fs n = Some f" using result by (auto split: option.splits)
    have other: "flVar f \<noteq> x" using first Named f by (simp add: spares_def)
    have keeps: "vs1 x = vs x" if "assign f t vs = Inr vs1" for t vs1
      using that other by (auto simp: assign_def split: option.splits)
    show ?thesis
    proof (cases given)
      case (Some t)
      then obtain vs1 where a: "assign f t vs = Inr vs1" using result Named f by (auto split: sum.splits)
      then show ?thesis using 2(3) [OF Named f Some a rest] keeps [OF a] result Named Some f by simp
    next
      case None
      show ?thesis
      proof (cases "flKind f = KBool")
        case True
        then show ?thesis
          using 2(1) [OF Named f None True rest] other result Named None f by (simp del: fun_upd_apply) simp
      next
        case False
        obtain t ts where ts: "args = t # ts" using result Named None f False by (cases args) auto
        then obtain vs1 where a: "assign f t vs = Inr vs1" using result Named None f False by (auto split: sum.splits)
        have "list_all (spares fs x) ts" using rest ts by simp
        from 2(2) [OF Named f None False ts a this] show ?thesis
          using keeps [OF a] a result Named None f False ts by simp
      qed
    qed
  qed (use 2 in auto)
qed simp

end
