(* ===== verification/ExpMain.thy ===== *)
theory ExpMain
  imports Exporter GoFlag
begin

text \<open>
  The start of cmd/tmm-stat-exporter/main.go: flags, environment and defaults give the exporter and
  its mode; \<open>-once\<close> prints one snapshot, otherwise the HTTP server answers \<open>/metrics\<close> and
  \<open>/healthz\<close> while a goroutine pushes. The goroutines share only the DSSM error state behind the
  mutex, so a concurrent run is a sequence of its atomic updates.
\<close>

section \<open>Flags\<close>

definition defaultTables :: string where
  "defaultTables = ''tmm_stat,virtual_server_stat,pool_member_stat,interface_stat,''
     @ ''tmm/xnet/dpdk_mlnx/stats,tmm/xnet/sock/stats,tmm/xnet/dpdk_mlnx/memstats''"

definition exporterFlags :: "formal list" where
  "exporterFlags =
     [stringFlag ''listen'', stringFlag ''segment'', stringFlag ''tables'', stringFlag ''remote-write'',
      durationFlag ''interval'', stringFlag ''labels'', stringFlag ''dssm-addr'', stringFlag ''dssm-cert-dir'',
      stringFlag ''dssm-server-name'', stringFlag ''dssm-subtable'', intFlag ''dssm-db'', boolFlag ''once'']"

definition exporterDefaults :: "(string \<rightharpoonup> string) \<Rightarrow> vars" where
  "exporterDefaults env =
     [''listen'' \<mapsto> FString (envOr env ''TMSTAT_LISTEN'' '':9099''),
      ''segment'' \<mapsto> FString (envOr env ''TMSTAT_SEGMENT'' ''/var/tmstat/blade/tmm0''),
      ''tables'' \<mapsto> FString (envOr env ''TMSTAT_TABLES'' defaultTables),
      ''remote-write'' \<mapsto> FString (Getenv env ''TMSTAT_REMOTE_WRITE_URL''),
      ''interval'' \<mapsto> FDuration (envParsed ParseDuration env ''TMSTAT_PUSH_INTERVAL'' 2000000000),
      ''labels'' \<mapsto> FString (Getenv env ''TMSTAT_EXTERNAL_LABELS''),
      ''dssm-addr'' \<mapsto> FString (envOr env ''TMMTOK_DSSM_ADDR'' ''f5-dssm-db:6379''),
      ''dssm-cert-dir'' \<mapsto> FString (envOr env ''TMMTOK_DSSM_CERT_DIR'' ''/tls/tmm/mds/clt''),
      ''dssm-server-name'' \<mapsto> FString (envOr env ''TMMTOK_DSSM_SERVER_NAME'' ''dssm-svc''),
      ''dssm-subtable'' \<mapsto> FString (envOr env ''TMMTOK_DSSM_SUBTABLE'' ''TMMTOK''),
      ''dssm-db'' \<mapsto> FNumber (envParsed Atoi env ''TMMTOK_DSSM_DB'' 0),
      ''once'' \<mapsto> FBool False]"

definition configure :: "vars \<Rightarrow> exporter" where
  "configure vs =
     \<lparr>esegments = splitKeepOrder (strVar vs ''segment''), etables = splitNonEmpty (strVar vs ''tables''),
      eextra = parseLabels (strVar vs ''labels''), erwURL = strVar vs ''remote-write'',
      edssm = \<lparr>daddr = strVar vs ''dssm-addr'', dcertDir = strVar vs ''dssm-cert-dir'',
               dserverName = strVar vs ''dssm-server-name'', dsubtable = strVar vs ''dssm-subtable'',
               ddb = intVar vs ''dssm-db''\<rparr>,
      dssmLastErr = [], elog = [], edials = 0\<rparr>"

section \<open>Start\<close>

record server =
  svListen :: string
  svInterval :: int
  svExporter :: exporter

datatype startup = ExitCode nat | Once exporter | Serve server

text \<open>Arguments after the flags are ignored.\<close>

definition main_exporter :: "(string \<rightharpoonup> string) \<Rightarrow> string list \<Rightarrow> startup" where
  "main_exporter env args =
     (case parseFlags exporterFlags (exporterDefaults env) args of
        Inl err \<Rightarrow> ExitCode (flagExit err)
      | Inr (vs, _) \<Rightarrow>
          (let e = configure vs in
           if boolVar vs ''once'' then Once e
           else Serve \<lparr>svListen = strVar vs ''listen'', svInterval = intVar vs ''interval'', svExporter = e\<rparr>))"

text \<open>What \<open>-once\<close> prints.\<close>

definition runOnce :: "world \<Rightarrow> (segment_error \<Rightarrow> string) \<Rightarrow> string \<Rightarrow> exporter \<Rightarrow> string option" where
  "runOnce w etext dur e = map_option fst (handleMetrics w etext dur e)"

text \<open>The push goroutine: none without a URL. The ticker panics for an interval that is not positive,
  and a panic in a goroutine of its own ends the process (\<open>None\<close>). \<open>ticks\<close> are its ticks so far.\<close>

definition startPush :: "(bytes \<Rightarrow> bytes) \<Rightarrow> (world \<times> (string \<Rightarrow> bytes \<Rightarrow> response) \<times> int) list \<Rightarrow> server
    \<Rightarrow> ((push_error option \<times> bytes) list \<times> exporter) option" where
  "startPush snappy ticks sv =
     (if erwURL (svExporter sv) = [] then Some ([], svExporter sv)
      else if svInterval sv \<le> 0 then None
      else pushLoop snappy ticks (svExporter sv))"

text \<open>The handlers, by path (the mux redirects paths that are not clean, and answers 404 to others);
  a panic aborts the answer only. \<open>stat\<close> gives the error text for an unreadable path.\<close>

definition healthAnswer :: "(string \<Rightarrow> string option) \<Rightarrow> exporter \<Rightarrow> (nat \<times> string) option" where
  "healthAnswer stat e =
     (case esegments e of
        [] \<Rightarrow> None
      | path # _ \<Rightarrow>
          Some (case stat path of
                  Some err \<Rightarrow> (503, ''segment not readable: '' @ err @ [CHR 0x0A])
                | None \<Rightarrow> (200, ''ok'' @ [CHR 0x0A])))"

definition route :: "world \<Rightarrow> (segment_error \<Rightarrow> string) \<Rightarrow> string \<Rightarrow> (string \<Rightarrow> string option) \<Rightarrow> string \<Rightarrow> exporter
    \<Rightarrow> (nat \<times> string) option" where
  "route w etext dur stat path e =
     (if path = ''/metrics'' then map_option (\<lambda>(body, _). (200, body)) (handleMetrics w etext dur e)
      else if path = ''/healthz'' then healthAnswer stat e
      else Some (404, ''404 page not found'' @ [CHR 0x0A]))"

section \<open>Concurrent runs\<close>

text \<open>The atomic updates of the shared state.\<close>

datatype update = Dial | LogError string | LogRecovery

fun perform :: "update \<Rightarrow> exporter \<Rightarrow> exporter" where
  "perform Dial e = e\<lparr>edials := Suc (edials e)\<rparr>"
| "perform (LogError msg) e = dssmError msg e"
| "perform LogRecovery e = clearDSSMError e"

text \<open>Every collection is a sequence of these updates.\<close>

lemma collectTokens_updates:
  assumes "collectTokens w e = Some (out, e')"
  shows "\<exists>us. e' = fold perform us e"
proof (cases "enabled w (edssm e)")
  case True
  then obtain r e1 where d: "dialRedis w e = Some (r, e1)"
    using assms by (auto simp: collectTokens_def split: option.splits)
  have e1: "e1 = fold perform [Dial] e"
    using d by (auto simp: dialRedis_def Let_def split: sum.splits option.splits)
  have "e' \<in> {e1, clearDSSMError e1} \<or> (\<exists>msg. e' = dssmError msg e1)"
    using assms True d
    by (auto simp: collectTokens_def Let_def split: sum.splits run.splits option.splits prod.splits if_splits)
  then have "\<exists>us. e' = fold perform us e1"
  proof (elim disjE exE)
    assume "e' \<in> {e1, clearDSSMError e1}"
    then have "e' = fold perform [] e1 \<or> e' = fold perform [LogRecovery] e1" by auto
    then show ?thesis by blast
  next
    fix msg assume "e' = dssmError msg e1"
    then have "e' = fold perform [LogError msg] e1" by simp
    then show ?thesis by blast
  qed
  then show ?thesis unfolding e1 fold_append [symmetric, THEN fun_cong, unfolded comp_def] by blast
next
  case False
  then have "e' = fold perform [] e" using assms by (simp add: collectTokens_def)
  then show ?thesis by blast
qed

lemma collectSegment_updates:
  assumes "collectSegment w path e = Some (r, e')"
  shows "\<exists>us. e' = fold perform us e"
proof -
  have "e' = fold perform [] e \<or> (\<exists>toks. collectTokens w e = Some (toks, e'))"
    using assms by (auto simp: collectSegment_def split: sum.splits option.splits bind_splits)
  then show ?thesis using collectTokens_updates by blast
qed

lemma collectLoop_updates:
  "collectLoop w i paths out health perr e = Some (r1, r2, r3, e') \<Longrightarrow> \<exists>us. e' = fold perform us e"
proof (induction paths arbitrary: i out health perr e)
  case Nil
  then have "e' = fold perform [] e" by simp
  then show ?case by blast
next
  case (Cons path paths)
  obtain r e1 where s: "collectSegment w path e = Some (r, e1)"
    using Cons.prems by (auto split: option.splits)
  have "\<exists>us. e' = fold perform us e1"
    using Cons.prems Cons.IH s by (auto split: sum.splits)
  moreover obtain us where "e1 = fold perform us e" using collectSegment_updates [OF s] by blast
  ultimately obtain vs where "e' = fold perform (us @ vs) e" by auto
  then show ?case by blast
qed

lemma collect_updates: "collect w e = Some (r, e') \<Longrightarrow> \<exists>us. e' = fold perform us e"
  by (auto simp: collect_def dest: collectLoop_updates split: option.splits)

text \<open>The invariant: neighbouring log lines differ, and the last line fits the recorded error.\<close>

definition disabledLine :: "string \<Rightarrow> string" where
  "disabledLine msg = ''dssm token export disabled: '' @ msg"

definition recoveredLine :: string where
  "recoveredLine = ''dssm token export: recovered, exporting token counters''"

definition log_ok :: "exporter \<Rightarrow> bool" where
  "log_ok e \<longleftrightarrow> distinct_adj (elog e)
     \<and> (if dssmLastErr e \<noteq> [] then elog e \<noteq> [] \<and> last (elog e) = disabledLine (dssmLastErr e)
        else elog e = [] \<or> last (elog e) \<in> {recoveredLine, disabledLine []})"

lemma lines_differ: "disabledLine msg \<noteq> recoveredLine"
  by (simp add: disabledLine_def recoveredLine_def)

lemma distinct_adj_snoc: "distinct_adj (xs @ [y]) \<longleftrightarrow> distinct_adj xs \<and> (xs = [] \<or> last xs \<noteq> y)"
  by (auto simp: distinct_adj_append_iff)

lemma perform_log_ok: "log_ok e \<Longrightarrow> log_ok (perform u e)"
proof (cases u)
  case (LogError msg)
  assume "log_ok e"
  then show ?thesis
    using LogError lines_differ [of msg]
    by (auto simp: log_ok_def dssmError_def distinct_adj_snoc disabledLine_def split: if_splits)
next
  case LogRecovery
  assume "log_ok e"
  then show ?thesis
    using LogRecovery lines_differ [of "dssmLastErr e"]
    by (auto simp: log_ok_def clearDSSMError_def distinct_adj_snoc recoveredLine_def split: if_splits)
qed (auto simp: log_ok_def split: if_splits)

lemma perform_config: "same_config e (perform u e)"
  by (cases u) (simp_all add: same_config_def dssmError_def clearDSSMError_def)

lemma updates_invariant: "log_ok e \<Longrightarrow> log_ok (fold perform us e) \<and> same_config e (fold perform us e)"
proof (induction us arbitrary: e)
  case (Cons u us)
  show ?case using Cons.IH [OF perform_log_ok [OF Cons.prems]] perform_config [of e u] by (simp add: same_config_def)
qed (simp add: same_config_def)

section \<open>Properties\<close>

lemma typed_Cons: "typed (f # fs) vs \<longleftrightarrow> (case vs (flVar f) of None \<Rightarrow> False | Some v \<Rightarrow> has_kind (flKind f) v) \<and> typed fs vs"
  by (simp add: typed_def)

lemma envParsed_range:
  assumes "\<And>s n. parse s = Some n \<Longrightarrow> in_int64 n" and "in_int64 def"
  shows "in_int64 (envParsed parse env key def)"
  using assms by (auto simp: envParsed_def Let_def split: option.split)

lemma exporterFlags_consistent: "consistent exporterFlags"
  by (simp add: consistent_def exporterFlags_def flag_defs)

lemma exporterDefaults_typed: "typed exporterFlags (exporterDefaults env)"
proof -
  have "in_int64 (envParsed ParseDuration env ''TMSTAT_PUSH_INTERVAL'' 2000000000)"
    "in_int64 (envParsed Atoi env ''TMMTOK_DSSM_DB'' 0)"
    by (rule envParsed_range; simp add: ParseDuration_range Atoi_range in_int64_def [of 0] in_int64_def [of 2000000000])+
  then show ?thesis
    by (simp add: exporterFlags_def exporterDefaults_def flag_defs typed_Cons) (simp add: typed_def)
qed

text \<open>C17: however the collections of the scrapes and pushes interleave, the exporter keeps the
  configuration it was started with, and the DSSM log reports transitions only: no two neighbouring
  lines are equal, and while an error is recorded the last line is the one about it. Every
  collection is a sequence of the atomic updates that interleave.\<close>

theorem dssm_log_transitions:
  "(let e = configure vs; e1 = fold perform us e in
      same_config e e1 \<and> distinct_adj (elog e1)
      \<and> (dssmLastErr e1 = [] \<or> last (elog e1) = ''dssm token export disabled: '' @ dssmLastErr e1))
   \<and> (case collect w e2 of None \<Rightarrow> True | Some (_, e3) \<Rightarrow> (\<exists>us'. e3 = fold perform us' e2))"
proof
  have "log_ok (configure vs)" by (simp add: log_ok_def configure_def)
  from updates_invariant [OF this, of us]
  show "let e = configure vs; e1 = fold perform us e in same_config e e1 \<and> distinct_adj (elog e1)
      \<and> (dssmLastErr e1 = [] \<or> last (elog e1) = ''dssm token export disabled: '' @ dssmLastErr e1)"
    by (auto simp: log_ok_def disabledLine_def Let_def split: if_splits)
  show "case collect w e2 of None \<Rightarrow> True | Some (_, e3) \<Rightarrow> (\<exists>us'. e3 = fold perform us' e2)"
    using collect_updates by (auto split: option.splits)
qed

text \<open>The exporter that starts without flags and environment.\<close>

lemma splitNonEmpty_default: "splitNonEmpty defaultTables =
  [''interface_stat'', ''pool_member_stat'', ''tmm/xnet/dpdk_mlnx/memstats'', ''tmm/xnet/dpdk_mlnx/stats'',
   ''tmm/xnet/sock/stats'', ''tmm_stat'', ''virtual_server_stat'']"
  by code_simp

lemma splitKeepOrder_default: "splitKeepOrder ''/var/tmstat/blade/tmm0'' = [''/var/tmstat/blade/tmm0'']"
  by code_simp

end
