(* ===== verification/GoJson.thy ===== *)
theory GoJson
  imports GoFloat
begin

text \<open>
  The part of encoding/json that the sources use: \<open>Marshal\<close> of values built from maps, slices,
  strings, integers and booleans, and \<open>Unmarshal\<close> into \<open>any\<close> or into small structs, on byte
  strings. A map is a list of its entries sorted by key, which is also how \<open>Marshal\<close> writes it;
  the fields of a struct are a list in the order of the struct. An integer literal
  becomes the \<open>float64\<close> Go stores, which \<open>Marshal\<close> writes without exponent below 1e21; other number
  literals (larger, a fraction, an exponent, minus zero) are range-checked and kept as written.
  Structs are read by the exact names of their fields.
\<close>

datatype json = JNull | JBool bool | JNum int | JLit string | JStr string
  | JArr "json list" | JObj "(string \<times> json) list"

section \<open>UTF-8\<close>

abbreviation ord :: "char \<Rightarrow> nat" where
  "ord c \<equiv> of_char c"

definition cont :: "char \<Rightarrow> bool" where
  "cont c \<longleftrightarrow> 0x80 \<le> ord c \<and> ord c \<le> 0xBF"

text \<open>The first two bytes of an encoding of two, three and four bytes; overlong forms, surrogates and
  values above U+10FFFF are no encodings.\<close>

definition lead2 :: "char \<Rightarrow> char \<Rightarrow> bool" where
  "lead2 a b \<longleftrightarrow> 0xC2 \<le> ord a \<and> ord a \<le> 0xDF \<and> cont b"

definition lead3 :: "char \<Rightarrow> char \<Rightarrow> bool" where
  "lead3 a b \<longleftrightarrow> 0xE0 \<le> ord a \<and> ord a \<le> 0xEF \<and> cont b
     \<and> (ord a = 0xE0 \<longrightarrow> 0xA0 \<le> ord b) \<and> (ord a = 0xED \<longrightarrow> ord b \<le> 0x9F)"

definition lead4 :: "char \<Rightarrow> char \<Rightarrow> bool" where
  "lead4 a b \<longleftrightarrow> 0xF0 \<le> ord a \<and> ord a \<le> 0xF4 \<and> cont b
     \<and> (ord a = 0xF0 \<longrightarrow> 0x90 \<le> ord b) \<and> (ord a = 0xF4 \<longrightarrow> ord b \<le> 0x8F)"

text \<open>The length of the valid multi-byte encoding a string starts with, 0 when there is none.\<close>

fun utf8_len :: "string \<Rightarrow> nat" where
  "utf8_len (a # b # cs) =
     (if lead2 a b then 2
      else if lead3 a b \<and> cs \<noteq> [] \<and> cont (cs ! 0) then 3
      else if lead4 a b \<and> 2 \<le> length cs \<and> cont (cs ! 0) \<and> cont (cs ! 1) then 4
      else 0)"
| "utf8_len _ = 0"

definition utf8_rune :: "nat \<Rightarrow> string" where
  "utf8_rune r =
     map char_of (if r < 0x80 then [r]
       else if r < 0x800 then [0xC0 + r div 64, 0x80 + r mod 64]
       else if r < 0x10000 then [0xE0 + r div 4096, 0x80 + r div 64 mod 64, 0x80 + r mod 64]
       else [0xF0 + r div 262144, 0x80 + r div 4096 mod 64, 0x80 + r div 64 mod 64, 0x80 + r mod 64])"

definition replacement :: string where
  "replacement = [CHR 0xEF, CHR 0xBF, CHR 0xBD]"

lemma utf8_len_bounds: "utf8_len s \<le> length s" "utf8_len s \<noteq> 0 \<Longrightarrow> 2 \<le> utf8_len s"
  by (cases s rule: utf8_len.cases; auto simp: neq_Nil_conv split: if_splits)+

lemma utf8_len_high: "utf8_len (c # s) \<noteq> 0 \<Longrightarrow> 0x80 \<le> ord c"
  by (cases s) (auto simp: lead2_def lead3_def lead4_def split: if_splits)

lemma utf8_len_append: "utf8_len s \<noteq> 0 \<Longrightarrow> utf8_len (s @ t) = utf8_len s"
proof (cases s rule: utf8_len.cases)
  case (1 a b cs)
  have "lead2 a b \<Longrightarrow> \<not> lead3 a b" "lead3 a b \<Longrightarrow> \<not> lead4 a b"
    by (auto simp: lead2_def lead3_def lead4_def)
  then show "utf8_len s \<noteq> 0 \<Longrightarrow> ?thesis" by (auto simp: 1 nth_append split: if_splits)
qed simp_all

lemma utf8_len_take: "utf8_len s = k \<Longrightarrow> k \<noteq> 0 \<Longrightarrow> utf8_len (take k s) = k"
  by (cases s rule: utf8_len.cases) (auto simp: take_Cons' split: if_splits)

section \<open>Strings\<close>

definition hex_digit :: "nat \<Rightarrow> char" where
  "hex_digit d = (if d < 10 then char_of (48 + d) else char_of (87 + d))"

text \<open>\<open>appendString\<close> with HTML escaping, as \<open>Marshal\<close> does it, without the quotes.\<close>

definition escape_byte :: "char \<Rightarrow> string" where
  "escape_byte c =
     (if c = CHR 0x22 \<or> c = CHR 0x5C then [CHR 0x5C, c]
      else if ord c = 8 then [CHR 0x5C, CHR ''b'']
      else if ord c = 12 then [CHR 0x5C, CHR ''f'']
      else if ord c = 10 then [CHR 0x5C, CHR ''n'']
      else if ord c = 13 then [CHR 0x5C, CHR ''r'']
      else if ord c = 9 then [CHR 0x5C, CHR ''t'']
      else if ord c < 32 \<or> c = CHR ''<'' \<or> c = CHR ''>'' \<or> c = CHR ''&''
      then [CHR 0x5C, CHR ''u'', CHR ''0'', CHR ''0'', hex_digit (ord c div 16), hex_digit (ord c mod 16)]
      else [c])"

definition escape_rune :: "string \<Rightarrow> string" where
  "escape_rune r =
     (if r = [CHR 0xE2, CHR 0x80, CHR 0xA8] then CHR 0x5C # ''u2028''
      else if r = [CHR 0xE2, CHR 0x80, CHR 0xA9] then CHR 0x5C # ''u2029''
      else r)"

function escape :: "string \<Rightarrow> string" where
  "escape [] = []"
| "escape (c # cs) =
     (if ord c < 0x80 then escape_byte c @ escape cs
      else (let k = utf8_len (c # cs) in
            if k = 0 then (CHR 0x5C # ''ufffd'') @ escape cs
            else escape_rune (take k (c # cs)) @ escape (drop k (c # cs))))"
  by pat_completeness auto
termination
  by (relation "measure length") (use utf8_len_bounds in auto)

text \<open>The content of a string literal after its opening quote. \<open>getu4\<close> reads four hex digits; a
  surrogate pair is one rune, a lone surrogate and an invalid byte become U+FFFD.\<close>

fun getu4 :: "string \<Rightarrow> (nat \<times> string) option" where
  "getu4 (a # b # c # d # rest) =
     (case (hex_val a, hex_val b, hex_val c, hex_val d) of
        (Some w, Some x, Some y, Some z) \<Rightarrow> Some (4096 * w + 256 * x + 16 * y + z, rest)
      | _ \<Rightarrow> None)"
| "getu4 _ = None"

definition surrogate :: "nat \<Rightarrow> bool" where
  "surrogate r \<longleftrightarrow> 0xD800 \<le> r \<and> r < 0xE000"

definition uescape :: "string \<Rightarrow> (string \<times> string) option" where
  "uescape s =
     (case getu4 s of
        None \<Rightarrow> None
      | Some (r, rest) \<Rightarrow>
          if \<not> surrogate r then Some (utf8_rune r, rest)
          else if r < 0xDC00 \<and> take 2 rest = [CHR 0x5C, CHR ''u''] then
            (case getu4 (drop 2 rest) of
               Some (r1, rest1) \<Rightarrow>
                 if 0xDC00 \<le> r1 \<and> r1 < 0xE000
                 then Some (utf8_rune ((r - 0xD800) * 1024 + (r1 - 0xDC00) + 0x10000), rest1)
                 else Some (replacement, rest)
             | None \<Rightarrow> Some (replacement, rest))
          else Some (replacement, rest))"

definition simple_escape :: "char \<Rightarrow> char option" where
  "simple_escape c =
     (if c = CHR 0x22 \<or> c = CHR 0x5C \<or> c = CHR ''/'' then Some c
      else if c = CHR ''b'' then Some (CHR 0x08) else if c = CHR ''f'' then Some (CHR 0x0C)
      else if c = CHR ''n'' then Some (CHR 0x0A) else if c = CHR ''r'' then Some (CHR 0x0D)
      else if c = CHR ''t'' then Some (CHR 0x09) else None)"

definition prepend :: "'a list \<Rightarrow> ('a list \<times> 'b) option \<Rightarrow> ('a list \<times> 'b) option" where
  "prepend s r = map_option (\<lambda>(t, rest). (s @ t, rest)) r"

lemma getu4_length: "getu4 s = Some (r, rest) \<Longrightarrow> length s = length rest + 4"
  by (cases s rule: getu4.cases) (auto split: option.splits)

lemma uescape_length: "uescape s = Some (t, rest) \<Longrightarrow> length rest < length s"
  by (auto simp: uescape_def split: option.splits if_splits dest!: getu4_length)

function pstr :: "string \<Rightarrow> (string \<times> string) option" where
  "pstr [] = None"
| "pstr (c # cs) =
     (if c = CHR 0x22 then Some ([], cs)
      else if c = CHR 0x5C then
        (case cs of
           [] \<Rightarrow> None
         | e # es \<Rightarrow>
             (case simple_escape e of
                Some x \<Rightarrow> prepend [x] (pstr es)
              | None \<Rightarrow>
                  if e \<noteq> CHR ''u'' then None
                  else (case uescape es of None \<Rightarrow> None | Some (t, rest) \<Rightarrow> prepend t (pstr rest))))
      else if ord c < 32 then None
      else if ord c < 0x80 then prepend [c] (pstr cs)
      else (let k = utf8_len (c # cs) in
            if k = 0 then prepend replacement (pstr cs)
            else prepend (take k (c # cs)) (pstr (drop k (c # cs)))))"
  by pat_completeness auto
termination
  by (relation "measure length") (use utf8_len_bounds in \<open>auto dest: uescape_length\<close>)

declare escape.simps [simp del] pstr.simps [simp del]

text \<open>What a string becomes on the way through JSON: invalid bytes turn into U+FFFD.\<close>

function coerce :: "string \<Rightarrow> string" where
  "coerce [] = []"
| "coerce (c # cs) =
     (if ord c < 0x80 then c # coerce cs
      else (let k = utf8_len (c # cs) in
            if k = 0 then replacement @ coerce cs else take k (c # cs) @ coerce (drop k (c # cs))))"
  by pat_completeness auto
termination
  by (relation "measure length") (use utf8_len_bounds in auto)

declare coerce.simps [simp del]

lemma high_chars:
  "char_of (226 :: nat) = CHR 0xE2" "char_of (128 :: nat) = CHR 0x80" "char_of (168 :: nat) = CHR 0xA8"
  "char_of (169 :: nat) = CHR 0xA9" "char_of (239 :: nat) = CHR 0xEF" "char_of (191 :: nat) = CHR 0xBF"
  "char_of (189 :: nat) = CHR 0xBD" "char_of (8 :: nat) = CHR 0x08" "char_of (9 :: nat) = CHR 0x09"
  "char_of (10 :: nat) = CHR 0x0A" "char_of (12 :: nat) = CHR 0x0C" "char_of (13 :: nat) = CHR 0x0D"
  by (simp_all add: char_of_def bit_0)

lemma hex_val_digit: "d < 16 \<Longrightarrow> hex_val (hex_digit d) = Some d"
  by (auto simp: hex_val_def hex_digit_def Let_def)

lemma utf8_rune_ascii: "ord c < 128 \<Longrightarrow> utf8_rune (ord c) = [c]"
  by (simp add: utf8_rune_def)

lemma prepend_prepend: "prepend a (prepend b r) = prepend (a @ b) r"
  by (cases r) (auto simp: prepend_def)

lemma uescape_small: "r < 0x100 \<Longrightarrow>
  uescape (CHR ''0'' # CHR ''0'' # hex_digit (r div 16) # hex_digit (r mod 16) # t) = Some (utf8_rune r, t)"
proof -
  assume r: "r < 0x100"
  have z: "hex_val CHR ''0'' = Some 0" by (simp add: hex_val_def)
  have "getu4 (CHR ''0'' # CHR ''0'' # hex_digit (r div 16) # hex_digit (r mod 16) # t) = Some (r, t)"
    using r by (simp add: z hex_val_digit less_mult_imp_div_less)
  moreover have "\<not> surrogate r" using r by (simp add: surrogate_def)
  ultimately show ?thesis unfolding uescape_def by simp
qed

lemma pstr_escape_byte:
  assumes "ord c < 0x80"
  shows "pstr (escape_byte c @ t) = prepend [c] (pstr t)"
proof -
  have named: "ord c = n \<Longrightarrow> n < 256 \<Longrightarrow> c = char_of n" for n by auto
  consider (quote) "c = CHR 0x22 \<or> c = CHR 0x5C" | (b) "ord c = 8" | (f) "ord c = 12" | (n) "ord c = 10"
    | (r) "ord c = 13" | (t) "ord c = 9"
    | (hex) "escape_byte c = [CHR 0x5C, CHR ''u'', CHR ''0'', CHR ''0'', hex_digit (ord c div 16), hex_digit (ord c mod 16)]"
    | (plain) "escape_byte c = [c]" "32 \<le> ord c" "c \<noteq> CHR 0x22" "c \<noteq> CHR 0x5C"
  proof -
    assume c: "c = CHR 0x22 \<or> c = CHR 0x5C \<Longrightarrow> thesis" "ord c = 8 \<Longrightarrow> thesis" "ord c = 12 \<Longrightarrow> thesis"
      "ord c = 10 \<Longrightarrow> thesis" "ord c = 13 \<Longrightarrow> thesis" "ord c = 9 \<Longrightarrow> thesis"
      "escape_byte c = [CHR 0x5C, CHR ''u'', CHR ''0'', CHR ''0'', hex_digit (ord c div 16), hex_digit (ord c mod 16)] \<Longrightarrow> thesis"
      "escape_byte c = [c] \<Longrightarrow> 32 \<le> ord c \<Longrightarrow> c \<noteq> CHR 0x22 \<Longrightarrow> c \<noteq> CHR 0x5C \<Longrightarrow> thesis"
    show thesis
    proof (cases "c = CHR 0x22 \<or> c = CHR 0x5C \<or> ord c \<in> {8, 12, 10, 13, 9}")
      case False
      then show ?thesis
        using c(7,8) by (cases "ord c < 32 \<or> c = CHR ''<'' \<or> c = CHR ''>'' \<or> c = CHR ''&''")
          (auto simp: escape_byte_def)
    qed (use c(1-6) in blast)
  qed
  then show ?thesis
  proof cases
    case hex
    have "uescape (CHR ''0'' # CHR ''0'' # hex_digit (ord c div 16) # hex_digit (ord c mod 16) # t) = Some ([c], t)"
      using uescape_small [of "ord c" t] assms by (simp add: utf8_rune_ascii)
    then show ?thesis by (simp add: hex pstr.simps(2) [of "CHR 0x5C"] simple_escape_def)
  next
    case plain
    then show ?thesis using assms by (simp add: pstr.simps(2) [of c])
  qed (auto simp: escape_byte_def simple_escape_def pstr.simps(2) [of "CHR 0x5C"] high_chars dest!: named)
qed

lemma pstr_rune:
  assumes "utf8_len (c # cs) = k" and "k \<noteq> 0"
  shows "pstr (take k (c # cs) @ t) = prepend (take k (c # cs)) (pstr t)"
proof -
  have k: "2 \<le> k" "k \<le> length (c # cs)" using utf8_len_bounds [of "c # cs"] assms by auto
  obtain r where r: "take k (c # cs) = c # r" using k(1) by (cases k) auto
  have "utf8_len (take k (c # cs)) = k" using utf8_len_take [OF assms] .
  then have len: "utf8_len (c # r @ t) = k" using utf8_len_append [of "c # r" t] assms(2) r by simp
  have "length (c # r) = k" using k(2) r by (metis length_take min.absorb2)
  then have split: "take k (c # r @ t) = c # r" "drop k (c # r @ t) = t" by auto
  have "0x80 \<le> ord c" using utf8_len_high assms by blast
  then show ?thesis
    unfolding r using assms(2) len split by (auto simp: pstr.simps(2) [of c] Let_def)
qed

lemma pstr_escape_rune:
  assumes "utf8_len (c # cs) = k" and "k \<noteq> 0"
  shows "pstr (escape_rune (take k (c # cs)) @ t) = prepend (take k (c # cs)) (pstr t)"
proof -
  have "uescape (''2028'' @ t) = Some ([CHR 0xE2, CHR 0x80, CHR 0xA8], t)"
    "uescape (''2029'' @ t) = Some ([CHR 0xE2, CHR 0x80, CHR 0xA9], t)"
    by (simp_all add: uescape_def hex_val_def surrogate_def utf8_rune_def high_chars)
  then show ?thesis
    using pstr_rune [OF assms, of t]
    by (auto simp: escape_rune_def simple_escape_def pstr.simps(2) [of "CHR 0x5C"])
qed

lemma pstr_escape_coerce: "pstr (escape s @ CHR 0x22 # rest) = Some (coerce s, rest)"
proof (induction s rule: escape.induct)
  case 1
  show ?case by (simp add: escape.simps coerce.simps pstr.simps)
next
  case (2 c cs)
  have bad_rune: "pstr (CHR 0x5C # ''ufffd'' @ t) = prepend replacement (pstr t)" for t
    by (simp add: pstr.simps(2) [of "CHR 0x5C"] simple_escape_def uescape_def hex_val_def surrogate_def
        utf8_rune_def replacement_def high_chars)
  consider (ascii) "ord c < 0x80" | (bad) "\<not> ord c < 0x80" "utf8_len (c # cs) = 0"
    | (rune) "\<not> ord c < 0x80" "utf8_len (c # cs) \<noteq> 0" by blast
  then show ?case
  proof cases
    case ascii
    then show ?thesis
      using 2(1) by (simp add: escape.simps(2) coerce.simps(2) pstr_escape_byte prepend_def)
  next
    case bad
    then show ?thesis
      using 2(2) bad_rune [of "escape cs @ CHR 0x22 # rest"] by (simp add: escape.simps(2) coerce.simps(2) prepend_def)
  next
    case rune
    then show ?thesis
      using 2(3) [OF rune(1) refl rune(2)] pstr_escape_rune [OF refl rune(2)]
      by (simp add: escape.simps(2) coerce.simps(2) Let_def prepend_def del: take_Cons' drop_Cons')
  qed
qed

section \<open>Maps\<close>

text \<open>A \<open>map[string]any\<close> as its entries sorted by key: assignment, deletion, lookup.\<close>

fun ins :: "string \<Rightarrow> 'v \<Rightarrow> (string \<times> 'v) list \<Rightarrow> (string \<times> 'v) list" where
  "ins k v [] = [(k, v)]"
| "ins k v ((k', v') # m) =
     (if k < k' then (k, v) # (k', v') # m else if k = k' then (k, v) # m else (k', v') # ins k v m)"

definition mk :: "(string \<times> 'v) list \<Rightarrow> (string \<times> 'v) list" where
  "mk kvs = fold (\<lambda>(k, v). ins k v) kvs []"

definition del :: "string \<Rightarrow> (string \<times> 'v) list \<Rightarrow> (string \<times> 'v) list" where
  "del k m = filter (\<lambda>(k', v). k' \<noteq> k) m"

abbreviation keys_sorted :: "(string \<times> 'v) list \<Rightarrow> bool" where
  "keys_sorted m \<equiv> sorted_wrt (<) (map fst m)"

lemma ins_keys: "fst ` set (ins k v m) = insert k (fst ` set m)"
proof (induction m)
  case (Cons e m)
  obtain k' v' where "e = (k', v')" by fastforce
  then show ?case using Cons by (simp add: insert_commute)
qed simp

lemma ins_sorted: "keys_sorted m \<Longrightarrow> keys_sorted (ins k v m)"
proof (induction m)
  case (Cons e m)
  obtain k' v' where e: "e = (k', v')" by fastforce
  have all: "\<forall>x \<in> fst ` set m. k' < x" using Cons.prems by (auto simp: e)
  show ?case
  proof (cases "k' < k")
    case True
    then have "\<forall>x \<in> fst ` set (ins k v m). k' < x" unfolding ins_keys using all by simp
    then show ?thesis using Cons True by (auto simp: e)
  next
    case False
    then show ?thesis using Cons all by (cases "k = k'") (auto simp: e)
  qed
qed simp

lemma map_of_ins: "keys_sorted m \<Longrightarrow> map_of (ins k v m) = (map_of m)(k \<mapsto> v)"
  by (induction m) (auto simp: fun_eq_iff)

lemma map_of_del: "map_of (del k m) = (map_of m)(k := None)"
  by (induction m) (auto simp: del_def fun_eq_iff)

lemma del_sorted: "keys_sorted m \<Longrightarrow> keys_sorted (del k m)"
  by (induction m) (auto simp: del_def)

lemma ins_greatest: "\<forall>x \<in> fst ` set m. x < k \<Longrightarrow> ins k v m = m @ [(k, v)]"
  by (induction m) (auto dest: less_asym)

lemma fold_ins_sorted: "keys_sorted (m @ kvs) \<Longrightarrow> fold (\<lambda>(k, v). ins k v) kvs m = m @ kvs"
proof (induction kvs arbitrary: m)
  case (Cons e kvs)
  obtain k v where e: "e = (k, v)" by fastforce
  have "ins k v m = m @ [(k, v)]" using Cons.prems by (intro ins_greatest) (auto simp: e sorted_wrt_append)
  then show ?case using Cons.IH [of "m @ [(k, v)]"] Cons.prems by (simp add: e)
qed simp

lemma mk_sorted_id: "keys_sorted kvs \<Longrightarrow> mk kvs = kvs"
  using fold_ins_sorted [of "[]" kvs] by (simp add: mk_def)

lemma keys_sorted_mk: "keys_sorted (mk kvs)"
proof -
  have "keys_sorted m \<Longrightarrow> keys_sorted (fold (\<lambda>(k, v). ins k v) kvs m)" for m
    by (induction kvs arbitrary: m) (auto simp: ins_sorted)
  then show ?thesis by (simp add: mk_def)
qed

section \<open>Numbers\<close>

text \<open>A \<open>float64\<close> that is an integer below 1e21, in the shortest digits that read back.\<close>

definition fmtNat :: "nat \<Rightarrow> string" where
  "fmtNat n = (let (d, k) = shortest n (bitlen n) in FormatUint d @ replicate k CHR ''0'')"

definition fmtNum :: "int \<Rightarrow> string" where
  "fmtNum n = (if n < 0 then CHR ''-'' # fmtNat (nat (- n)) else fmtNat (nat n))"

text \<open>The grammar of numbers: integer part, fraction, exponent.\<close>

fun pint :: "string \<Rightarrow> (string \<times> string) option" where
  "pint [] = None"
| "pint (c # cs) =
     (if c = CHR ''0'' then Some ([c], cs)
      else if is_digit c then Some (takeWhile is_digit (c # cs), dropWhile is_digit (c # cs)) else None)"

fun pfrac :: "string \<Rightarrow> (string \<times> string) option" where
  "pfrac [] = Some ([], [])"
| "pfrac (c # cs) =
     (if c = CHR ''.''
      then (let ds = takeWhile is_digit cs in if ds = [] then None else Some (c # ds, dropWhile is_digit cs))
      else Some ([], c # cs))"

definition esign :: "string \<Rightarrow> string" where
  "esign s = (if s \<noteq> [] \<and> (hd s = CHR ''+'' \<or> hd s = CHR ''-'') then [hd s] else [])"

fun pexp :: "string \<Rightarrow> (string \<times> string) option" where
  "pexp [] = Some ([], [])"
| "pexp (c # cs) =
     (if c = CHR ''e'' \<or> c = CHR ''E''
      then (let sg = esign cs; r = drop (length sg) cs; ds = takeWhile is_digit r
            in if ds = [] then None else Some (c # sg @ ds, dropWhile is_digit r))
      else Some ([], c # cs))"

text \<open>Whether the value is in the range of \<open>float64\<close>.\<close>

definition in_range :: "string \<Rightarrow> string \<Rightarrow> string \<Rightarrow> bool" where
  "in_range ip fr ex =
     (let d = digits_val (ip @ tl fr);
          x = (if ex = [] then 0 else if HasPrefix (tl ex) ''-'' then - int (digits_val (tl (tl ex)))
               else int (digits_val (dropWhile (\<lambda>c. c = CHR ''+'') (tl ex)))) - int (length (tl fr))
      in case to_f64 (int (if 0 \<le> x then d * 10 ^ nat x else d div 10 ^ nat (- x))) of FInt _ \<Rightarrow> True | _ \<Rightarrow> False)"

text \<open>An integer literal that is below 1e21 as a float is that float; other literals are kept.\<close>

definition number :: "string \<Rightarrow> string \<Rightarrow> string \<Rightarrow> string \<Rightarrow> json option" where
  "number sg ip fr ex =
     (case to_f64 (if sg = [] then int (digits_val ip) else - int (digits_val ip)) of
        FInt n \<Rightarrow>
          if fr = [] \<and> ex = [] \<and> \<not> (sg \<noteq> [] \<and> n = 0) \<and> \<bar>n\<bar> < 10 ^ 21 then Some (JNum n)
          else if in_range ip fr ex then Some (JLit (sg @ ip @ fr @ ex)) else None
      | _ \<Rightarrow> if in_range ip fr ex then Some (JLit (sg @ ip @ fr @ ex)) else None)"

definition nsign :: "string \<Rightarrow> string" where
  "nsign s = (if s \<noteq> [] \<and> hd s = CHR ''-'' then [hd s] else [])"

definition pnum :: "string \<Rightarrow> (json \<times> string) option" where
  "pnum s =
     (let sg = nsign s in
      case pint (drop (length sg) s) of
        None \<Rightarrow> None
      | Some (ip, t1) \<Rightarrow>
          (case pfrac t1 of
             None \<Rightarrow> None
           | Some (fr, t2) \<Rightarrow>
               (case pexp t2 of
                  None \<Rightarrow> None
                | Some (ex, t3) \<Rightarrow> map_option (\<lambda>v. (v, t3)) (number sg ip fr ex))))"

text \<open>What may follow a number.\<close>

definition ends :: "string \<Rightarrow> bool" where
  "ends rest \<longleftrightarrow> rest = [] \<or> \<not> (is_digit (hd rest) \<or> hd rest \<in> {CHR ''.'', CHR ''e'', CHR ''E''})"

lemma takeWhile_ends: "ends rest \<Longrightarrow> takeWhile is_digit (s @ rest) = takeWhile is_digit s"
  "ends rest \<Longrightarrow> dropWhile is_digit (s @ rest) = dropWhile is_digit s @ rest"
  by (induction s; cases rest; auto simp: ends_def)+

lemma pint_append: "pint s = Some (a, r) \<Longrightarrow> ends rest \<Longrightarrow> pint (s @ rest) = Some (a, r @ rest)"
  by (cases s) (auto simp: takeWhile_ends split: if_splits)

lemma pfrac_append: "pfrac s = Some (a, r) \<Longrightarrow> ends rest \<Longrightarrow> pfrac (s @ rest) = Some (a, r @ rest)"
  by (cases s; cases rest) (auto simp: takeWhile_ends Let_def ends_def split: if_splits)

lemma pexp_append: "pexp s = Some (a, r) \<Longrightarrow> ends rest \<Longrightarrow> pexp (s @ rest) = Some (a, r @ rest)"
proof (cases s)
  case Nil
  then show "pexp s = Some (a, r) \<Longrightarrow> ends rest \<Longrightarrow> ?thesis" by (cases rest) (auto simp: ends_def)
next
  case (Cons c cs)
  assume p: "pexp s = Some (a, r)" and e: "ends rest"
  show ?thesis
  proof (cases "c = CHR ''e'' \<or> c = CHR ''E''")
    case True
    have "cs \<noteq> []" using p True by (auto simp: Cons esign_def)
    then have "esign (cs @ rest) = esign cs" "length (esign cs) \<le> length cs" by (auto simp: esign_def Suc_le_eq)
    then show ?thesis using p True e by (auto simp: Cons Let_def takeWhile_ends split: if_splits)
  qed (use p Cons in auto)
qed

lemma pnum_append: "pnum s = Some (v, r) \<Longrightarrow> ends rest \<Longrightarrow> pnum (s @ rest) = Some (v, r @ rest)"
proof -
  assume p: "pnum s = Some (v, r)" and e: "ends rest"
  have "s \<noteq> []" using p by (auto simp: pnum_def nsign_def)
  then have "nsign (s @ rest) = nsign s" "length (nsign s) \<le> length s" by (auto simp: nsign_def Suc_le_eq)
  then have "pnum (s @ rest) = (let sg = nsign s in
      case pint (drop (length sg) s @ rest) of
        None \<Rightarrow> None
      | Some (ip, t1) \<Rightarrow> (case pfrac t1 of None \<Rightarrow> None
           | Some (fr, t2) \<Rightarrow> (case pexp t2 of None \<Rightarrow> None
                | Some (ex, t3) \<Rightarrow> map_option (\<lambda>v. (v, t3)) (number sg ip fr ex))))"
    by (simp add: pnum_def)
  then show ?thesis
    using p by (auto simp: pnum_def Let_def pint_append [OF _ e] pfrac_append [OF _ e] pexp_append [OF _ e]
        split: option.splits)
qed

definition num_ok :: "int \<Rightarrow> bool" where
  "num_ok n \<longleftrightarrow> valid_f64 (FInt n) \<and> \<bar>n\<bar> < 10 ^ 21"

lemma num_ok_small: "\<bar>n\<bar> < 2 ^ 53 \<Longrightarrow> num_ok n"
proof -
  assume n: "\<bar>n\<bar> < 2 ^ 53"
  have "valid_f64 (FInt n)" using to_f64_valid [of n] to_f64_small [OF n] by simp
  moreover have "(2 :: int) ^ 53 < 10 ^ 21" by simp
  ultimately show ?thesis using n by (simp add: num_ok_def del: power_numeral)
qed

lemma hd_FormatUint: "0 < n \<Longrightarrow> hd (FormatUint n) \<noteq> CHR ''0''"
proof (induction n rule: FormatUint.induct)
  case (1 n)
  have "digit n \<noteq> CHR ''0''" if "n < 10" "0 < n" using digit_val_digit [OF that(1)] that(2) by (auto simp: digit_val_def)
  then show ?case using 1 by (cases "n < 10") (auto simp: FormatUint.simps [of n] hd_append)
qed

lemma pint_fmtNat:
  assumes "round53 n = n"
  shows "pint (fmtNat n) = Some (fmtNat n, []) \<and> round53 (digits_val (fmtNat n)) = n \<and> (fmtNat n = ''0'' \<longrightarrow> n = 0)"
proof -
  obtain d k where s: "shortest n (bitlen n) = (d, k)" by fastforce
  have r: "round53 (d * 10 ^ k) = n" using assms s by (rule shortest_rounds)
  have v: "digits_val (fmtNat n) = d * 10 ^ k" by (simp add: fmtNat_def s digits_val_zeros)
  have "pint (fmtNat n) = Some (fmtNat n, [])"
  proof (cases "n = 0")
    case True
    then show ?thesis by (simp add: fmtNat_def FormatUint.simps [of 0] digit_def)
  next
    case False
    then have "0 < d" using r by (cases d) (auto simp: round53_def)
    obtain c cs where c: "FormatUint d = c # cs" by (cases "FormatUint d") auto
    have "c \<noteq> CHR ''0''" using hd_FormatUint [OF \<open>0 < d\<close>] c by simp
    moreover have all: "list_all is_digit (fmtNat n)"
      using FormatUint_all [of d] by (simp add: fmtNat_def s is_digit_def [of "CHR ''0''"] list_all_length nth_append)
    ultimately show ?thesis
      using takeWhile_eq_all_conv [of is_digit "fmtNat n"] dropWhile_eq_Nil_conv [of is_digit "fmtNat n"]
      by (simp add: fmtNat_def s c list_all_iff)
  qed
  moreover have "n = 0" if "fmtNat n = ''0''"
    using r v that by (simp add: digits_val_def digit_val_def round53_def)
  ultimately show ?thesis using r v by simp
qed

lemma pnum_fmtNum: "num_ok n \<Longrightarrow> pnum (fmtNum n) = Some (JNum n, [])"
proof -
  assume ok: "num_ok n"
  let ?m = "nat \<bar>n\<bar>"
  have v: "round53 ?m = ?m" "?m < 2 ^ 1024" "\<bar>n\<bar> < 10 ^ 21" using ok by (simp_all add: num_ok_def del: power_numeral)
  note p = pint_fmtNat [OF v(1)]
  have d: "round53 (digits_val (fmtNat ?m)) = ?m" using p by simp
  have "fmtNat ?m \<noteq> []" using p by auto
  then obtain c cs where c: "fmtNat ?m = c # cs" by (cases "fmtNat ?m") auto
  then have "c \<noteq> CHR ''-''" using p by (auto simp: is_digit_def split: if_splits)
  then show ?thesis
    using p v(3) c to_f64_round53 [OF d v(2)]
    by (cases "n < 0") (auto simp: pnum_def fmtNum_def nsign_def number_def Let_def simp del: power_numeral)
qed

section \<open>Marshal\<close>

definition quote :: "string \<Rightarrow> string" where
  "quote s = CHR 0x22 # escape s @ [CHR 0x22]"

fun marshal :: "json \<Rightarrow> string" where
  "marshal JNull = ''null''"
| "marshal (JBool b) = (if b then ''true'' else ''false'')"
| "marshal (JNum n) = fmtNum n"
| "marshal (JLit l) = l"
| "marshal (JStr s) = quote s"
| "marshal (JArr xs) = CHR ''['' # Join CHR '','' (map marshal xs) @ '']''"
| "marshal (JObj kvs) = CHR ''{'' # Join CHR '','' (map (\<lambda>(k, v). quote k @ CHR '':'' # marshal v) kvs) @ ''}''"

text \<open>\<open>MarshalIndent\<close> with indentation by two blanks, as an instance of a printer with a text \<open>gap i\<close>
  between the tokens at depth \<open>i\<close> and a text \<open>col\<close> after a key. Empty arrays and objects stay closed.\<close>

fun pr :: "(nat \<Rightarrow> string) \<Rightarrow> string \<Rightarrow> nat \<Rightarrow> json \<Rightarrow> string" where
  "pr gap col i (JArr xs) =
     (if xs = [] then ''[]''
      else CHR ''['' # Join CHR '','' (map (\<lambda>x. gap (Suc i) @ pr gap col (Suc i) x) xs) @ gap i @ '']'')"
| "pr gap col i (JObj kvs) =
     (if kvs = [] then [CHR 0x7B, CHR 0x7D]
      else CHR 0x7B # Join CHR '','' (map (\<lambda>(k, v). gap (Suc i) @ quote k @ col @ pr gap col (Suc i) v) kvs) @ gap i @ [CHR 0x7D])"
| "pr gap col i v = marshal v"

definition newline :: "nat \<Rightarrow> string" where
  "newline i = CHR 0x0A # replicate (2 * i) CHR 0x20"

definition MarshalIndent :: "json \<Rightarrow> string" where
  "MarshalIndent v = pr newline '': '' 0 v"

lemma pr_marshal: "pr (\<lambda>_. []) '':'' i v = marshal v"
proof (induction v arbitrary: i)
  case (JArr xs)
  then have m: "map (pr (\<lambda>_. []) '':'' (Suc i)) xs = map marshal xs" by simp
  show ?case by (simp add: m)
next
  case (JObj kvs)
  have m: "map (\<lambda>(k, v). quote k @ CHR '':'' # pr (\<lambda>_. []) '':'' (Suc i) v) kvs = map (\<lambda>(k, v). quote k @ CHR '':'' # marshal v) kvs"
    using JObj by (auto simp: snds.simps)
  show ?case by (simp add: m)
qed simp_all

section \<open>Unmarshal\<close>

definition skip_ws :: "string \<Rightarrow> string" where
  "skip_ws s = dropWhile (\<lambda>c. c = CHR 0x20 \<or> c = CHR 0x09 \<or> c = CHR 0x0A \<or> c = CHR 0x0D) s"

definition map_fst :: "('a \<Rightarrow> 'b) \<Rightarrow> ('a \<times> 'c) option \<Rightarrow> ('b \<times> 'c) option" where
  "map_fst f r = map_option (\<lambda>(x, rest). (f x, rest)) r"

text \<open>A value, the elements after an opening bracket, the entries after an opening brace. The first
  argument is fuel, one per value and element, twice the length of the text is enough; the second
  is how much deeper arrays and objects may nest, 10000 at the start.\<close>

fun pval :: "nat \<Rightarrow> nat \<Rightarrow> string \<Rightarrow> (json \<times> string) option"
  and pelems :: "nat \<Rightarrow> nat \<Rightarrow> string \<Rightarrow> (json list \<times> string) option"
  and pfields :: "nat \<Rightarrow> nat \<Rightarrow> string \<Rightarrow> ((string \<times> json) list \<times> string) option" where
  "pval 0 d s = None"
| "pval (Suc n) d s =
     (case skip_ws s of
        [] \<Rightarrow> None
      | c # cs \<Rightarrow>
          if c = CHR 0x22 then map_fst JStr (pstr cs)
          else if c = CHR ''['' then
            (if d = 0 then None
             else if skip_ws cs \<noteq> [] \<and> hd (skip_ws cs) = CHR '']'' then Some (JArr [], tl (skip_ws cs))
             else map_fst JArr (pelems n (d - 1) cs))
          else if c = CHR ''{'' then
            (if d = 0 then None
             else if skip_ws cs \<noteq> [] \<and> hd (skip_ws cs) = CHR ''}'' then Some (JObj [], tl (skip_ws cs))
             else map_fst (\<lambda>kvs. JObj (mk kvs)) (pfields n (d - 1) cs))
          else if HasPrefix (c # cs) ''null'' then Some (JNull, drop 3 cs)
          else if HasPrefix (c # cs) ''true'' then Some (JBool True, drop 3 cs)
          else if HasPrefix (c # cs) ''false'' then Some (JBool False, drop 4 cs)
          else pnum (c # cs))"
| "pelems 0 d s = None"
| "pelems (Suc n) d s =
     (case pval n d s of
        None \<Rightarrow> None
      | Some (v, r) \<Rightarrow>
          (case skip_ws r of
             [] \<Rightarrow> None
           | c # cs \<Rightarrow>
               if c = CHR '','' then map_fst (Cons v) (pelems n d cs)
               else if c = CHR '']'' then Some ([v], cs) else None))"
| "pfields 0 d s = None"
| "pfields (Suc n) d s =
     (case skip_ws s of
        [] \<Rightarrow> None
      | q # qs \<Rightarrow>
          if q \<noteq> CHR 0x22 then None
          else (case pstr qs of
             None \<Rightarrow> None
           | Some (k, r1) \<Rightarrow>
               (case skip_ws r1 of
                  [] \<Rightarrow> None
                | e # r2 \<Rightarrow>
                    if e \<noteq> CHR '':'' then None
                    else (case pval n d r2 of
                       None \<Rightarrow> None
                     | Some (v, r3) \<Rightarrow>
                         (case skip_ws r3 of
                            [] \<Rightarrow> None
                          | c # cs \<Rightarrow>
                              if c = CHR '','' then map_fst (Cons (k, v)) (pfields n d cs)
                              else if c = CHR ''}'' then Some ([(k, v)], cs) else None)))))"

definition Unmarshal :: "string \<Rightarrow> json option" where
  "Unmarshal s =
     (case pval (2 * length s + 2) 10000 s of
        Some (v, r) \<Rightarrow> if skip_ws r = [] then Some v else None
      | None \<Rightarrow> None)"

section \<open>What is written reads back\<close>

text \<open>What a value becomes on the way: strings without invalid bytes, maps sorted.\<close>

fun norm :: "json \<Rightarrow> json" where
  "norm (JStr s) = JStr (coerce s)"
| "norm (JArr xs) = JArr (map norm xs)"
| "norm (JObj kvs) = JObj (mk (map (\<lambda>(k, v). (coerce k, norm v)) kvs))"
| "norm v = v"

text \<open>The values the format can hold with nesting \<open>d\<close>, and the fuel they need.\<close>

fun json_ok :: "nat \<Rightarrow> json \<Rightarrow> bool" where
  "json_ok d (JNum n) = num_ok n"
| "json_ok d (JLit l) = (pnum l = Some (JLit l, []))"
| "json_ok d (JArr xs) = (0 < d \<and> list_all (json_ok (d - 1)) xs)"
| "json_ok d (JObj kvs) = (0 < d \<and> list_all (\<lambda>(k, v). json_ok (d - 1) v) kvs)"
| "json_ok d v = True"

fun need :: "json \<Rightarrow> nat" where
  "need (JArr xs) = Suc (sum_list (map (\<lambda>x. Suc (need x)) xs))"
| "need (JObj kvs) = Suc (sum_list (map (\<lambda>(k, v). Suc (need v)) kvs))"
| "need v = 1"

lemma skip_ws_id [simp]: "c \<noteq> CHR 0x20 \<Longrightarrow> c \<noteq> CHR 0x09 \<Longrightarrow> c \<noteq> CHR 0x0A \<Longrightarrow> c \<noteq> CHR 0x0D \<Longrightarrow> skip_ws (c # s) = c # s"
  "skip_ws [] = []"
  by (simp_all add: skip_ws_def)

lemma quote_append: "quote s @ t = CHR 0x22 # (escape s @ CHR 0x22 # t)"
  by (simp add: quote_def)

text \<open>A number starts with a digit or a minus sign.\<close>

lemma pnum_start: "pnum s = Some (v, r) \<Longrightarrow> \<exists>c cs. s = c # cs \<and> (is_digit c \<or> c = CHR ''-'')"
  by (cases s) (auto simp: pnum_def nsign_def is_digit_def Let_def split: if_splits option.splits)

lemma num_first: "is_digit c \<or> c = CHR ''-'' \<Longrightarrow>
  c \<noteq> CHR 0x20 \<and> c \<noteq> CHR 0x09 \<and> c \<noteq> CHR 0x0A \<and> c \<noteq> CHR 0x0D \<and> c \<noteq> CHR 0x22 \<and> c \<noteq> CHR ''['' \<and> c \<noteq> CHR ''{''
  \<and> c \<noteq> CHR '']'' \<and> c \<noteq> CHR ''}'' \<and> c \<noteq> CHR ''n'' \<and> c \<noteq> CHR ''t'' \<and> c \<noteq> CHR ''f''"
  by (auto simp: is_digit_def)

lemma pval_num:
  assumes "pnum s = Some (v, [])" and "ends rest"
  shows "pval (Suc n) d (s @ rest) = Some (v, rest)"
proof -
  obtain c cs where s: "s = c # cs" and c: "is_digit c \<or> c = CHR ''-''" using pnum_start [OF assms(1)] by blast
  have "pnum (s @ rest) = Some (v, rest)" using pnum_append [OF assms] by simp
  then show ?thesis using num_first [OF c] by (simp add: s)
qed

lemma ends_delim [simp]: "ends (CHR '','' # s)" "ends (CHR '']'' # s)" "ends (CHR ''}'' # s)" "ends []"
  by (simp_all add: ends_def is_digit_def)

text \<open>The first character of a value is no white space and closes nothing.\<close>

definition starts :: "string \<Rightarrow> bool" where
  "starts s \<longleftrightarrow> (case s of [] \<Rightarrow> False
     | c # _ \<Rightarrow> c \<notin> {CHR '']'', CHR ''}'', CHR 0x20, CHR 0x09, CHR 0x0A, CHR 0x0D})"

lemma starts_append: "starts s \<Longrightarrow> skip_ws (s @ t) = s @ t \<and> s @ t \<noteq> [] \<and> hd (s @ t) \<noteq> CHR '']'' \<and> hd (s @ t) \<noteq> CHR ''}''"
  by (cases s) (auto simp: starts_def)

lemma starts_Join: "starts x \<Longrightarrow> starts (Join sep (x # xs))"
  by (cases x; cases xs) (auto simp: starts_def)

lemma starts_num:
  assumes "pnum s = Some (v, r)"
  shows "starts s"
proof -
  obtain c cs where s: "s = c # cs" and c: "is_digit c \<or> c = CHR ''-''" using pnum_start [OF assms] by blast
  show ?thesis using num_first [OF c] by (simp add: starts_def s)
qed

lemma starts_marshal: "json_ok d v \<Longrightarrow> starts (marshal v)"
  by (cases v) (auto simp: starts_num dest: starts_num [OF pnum_fmtNum], auto simp: quote_def starts_def)

lemma starts_pr: "json_ok d v \<Longrightarrow> starts (pr gap col i v)"
  using starts_marshal [of d v] by (cases v) (auto simp: starts_def)

text \<open>White space before a value, an element or an entry.\<close>

definition ws :: "char \<Rightarrow> bool" where
  "ws c \<longleftrightarrow> c = CHR 0x20 \<or> c = CHR 0x09 \<or> c = CHR 0x0A \<or> c = CHR 0x0D"

lemma skip_ws_blank: "list_all ws g \<Longrightarrow> skip_ws (g @ t) = skip_ws t"
  by (induction g) (auto simp: skip_ws_def ws_def)

lemma pval_blank: "list_all ws g \<Longrightarrow> pval n d (g @ t) = pval n d t"
  by (cases n) (simp_all add: skip_ws_blank)

lemma pfields_blank: "list_all ws g \<Longrightarrow> pfields n d (g @ t) = pfields n d t"
  by (cases n) (simp_all add: skip_ws_blank)

lemma pelems_blank: "list_all ws g \<Longrightarrow> pelems n d (g @ t) = pelems n d t"
  by (cases n) (simp_all add: pval_blank)

lemma ends_blank: "list_all ws g \<Longrightarrow> ends t \<Longrightarrow> ends (g @ t)"
  by (cases g) (auto simp: ends_def ws_def is_digit_def)

lemma pval_pr_any:
  assumes gap: "\<And>i. list_all ws (gap i)" and col: "list_all ws c"
  shows "json_ok d v \<Longrightarrow> need v \<le> n \<Longrightarrow> ends rest \<or> (\<exists>kvs. v = JObj kvs) \<Longrightarrow> pval n d (pr gap (CHR '':'' # c) i v @ rest) = Some (norm v, rest)"
proof (induction v arbitrary: d n i rest)
  case (JArr xs)
  obtain e where d: "d = Suc e" using JArr.prems(1) by (cases d) auto
  obtain m where n: "n = Suc m" using JArr.prems(2) by (cases n) auto
  let ?p = "\<lambda>x. gap (Suc i) @ pr gap (CHR '':'' # c) (Suc i) x"
  have elems: "ys \<noteq> [] \<Longrightarrow> set ys \<subseteq> set xs \<Longrightarrow> sum_list (map (\<lambda>x. Suc (need x)) ys) \<le> m \<Longrightarrow>
      pelems m e (Join CHR '','' (map ?p ys) @ gap i @ CHR '']'' # rest) = Some (map norm ys, rest)" for ys m
  proof (induction ys arbitrary: m)
    case (Cons y ys)
    obtain k where m: "m = Suc k" using Cons.prems(3) by (cases m) auto
    have ok: "json_ok e y" using JArr.prems(1) Cons.prems(2) d by (auto simp: list_all_iff)
    have y: "ends t \<Longrightarrow> pval k e (?p y @ t) = Some (norm y, t)" for t
      using Cons.prems(2,3) ok m by (simp add: pval_blank [OF gap]) (intro JArr.IH, auto)
    show ?case
    proof (cases ys)
      case (Cons z zs)
      then have "pelems k e (Join CHR '','' (map ?p ys) @ gap i @ CHR '']'' # rest) = Some (map norm ys, rest)"
        using Cons.IH Cons.prems m by auto
      then show ?thesis using y [of "CHR '','' # Join CHR '','' (map ?p ys) @ gap i @ CHR '']'' # rest"] Cons m
        by (simp add: map_fst_def)
    qed (use y [of "gap i @ CHR '']'' # rest"] m in \<open>simp add: ends_blank [OF gap] skip_ws_blank [OF gap]\<close>)
  qed simp
  show ?case
  proof (cases xs)
    case (Cons x xs')
    have "json_ok e x" using JArr.prems(1) d Cons by simp
    note st = starts_append [OF starts_pr [OF this]]
    have "skip_ws (Join CHR '','' (map ?p xs) @ gap i @ CHR '']'' # rest) \<noteq> []"
      "hd (skip_ws (Join CHR '','' (map ?p xs) @ gap i @ CHR '']'' # rest)) \<noteq> CHR '']''"
      by (cases xs'; use st in \<open>simp add: Cons skip_ws_blank [OF gap]\<close>)+
    then show ?thesis using elems [of xs m] JArr.prems n d Cons by (simp add: map_fst_def del: Join.simps)
  qed (simp add: n d)
next
  case (JObj kvs)
  obtain e where d: "d = Suc e" using JObj.prems(1) by (cases d) auto
  obtain m where n: "n = Suc m" using JObj.prems(2) by (cases n) auto
  let ?q = "\<lambda>k v. quote k @ (CHR '':'' # c) @ pr gap (CHR '':'' # c) (Suc i) v"
  let ?t = "\<lambda>(k, v). gap (Suc i) @ ?q k v" and ?n = "\<lambda>(k, v). (coerce k, norm v)"
  have fields: "ys \<noteq> [] \<Longrightarrow> set ys \<subseteq> set kvs \<Longrightarrow> sum_list (map (\<lambda>(k, v). Suc (need v)) ys) \<le> m \<Longrightarrow>
      pfields m e (Join CHR '','' (map ?t ys) @ gap i @ CHR ''}'' # rest) = Some (map ?n ys, rest)" for ys m
  proof (induction ys arbitrary: m)
    case (Cons y ys)
    obtain k v where y: "y = (k, v)" by fastforce
    obtain j where m: "m = Suc j" using Cons.prems(3) y by (cases m) auto
    have mem: "(k, v) \<in> set kvs" using Cons.prems(2) y by auto
    then have ok: "json_ok e v" using JObj.prems(1) d by (auto simp: list_all_iff)
    have v: "ends t \<Longrightarrow> pval j e (c @ pr gap (CHR '':'' # c) (Suc i) v @ t) = Some (norm v, t)" for t
      using Cons.prems(3) ok m y mem by (simp add: pval_blank [OF col]) (intro JObj.IH [of "(k, v)" v], auto simp: snds.simps)
    show ?case
    proof (cases ys)
      case (Cons z zs)
      then have "pfields j e (Join CHR '','' (map ?t ys) @ gap i @ CHR ''}'' # rest) = Some (map ?n ys, rest)"
        using Cons.IH Cons.prems m y by auto
      then show ?thesis using v [of "CHR '','' # Join CHR '','' (map ?t ys) @ gap i @ CHR ''}'' # rest"] Cons m y
        by (simp add: map_fst_def quote_append pstr_escape_coerce skip_ws_blank [OF gap])
    qed (use v [of "gap i @ CHR ''}'' # rest"] m y in
      \<open>simp add: quote_append pstr_escape_coerce skip_ws_blank [OF gap] ends_blank [OF gap]\<close>)
  qed simp
  show ?case
  proof (cases kvs)
    case (Cons x xs)
    have "skip_ws (Join CHR '','' (map ?t kvs) @ gap i @ CHR ''}'' # rest) \<noteq> []"
      "hd (skip_ws (Join CHR '','' (map ?t kvs) @ gap i @ CHR ''}'' # rest)) \<noteq> CHR ''}''"
      by (cases x; cases xs; simp add: Cons skip_ws_blank [OF gap] quote_def)+
    then show ?thesis using fields [of kvs m] JObj.prems n d Cons by (simp add: map_fst_def del: Join.simps)
  qed (simp add: n d mk_def)
next
  case (JNum n')
  then show ?case using pval_num [OF pnum_fmtNum] by (cases n) auto
next
  case (JLit l)
  then show ?case using pval_num by (cases n) auto
next
  case (JStr s)
  then show ?case by (cases n) (auto simp: quote_append pstr_escape_coerce map_fst_def)
qed (case_tac n; auto)+

lemmas pval_pr = pval_pr_any [OF _ _ _ _ disjI1]

lemma pval_marshal:
  "json_ok d v \<Longrightarrow> need v \<le> n \<Longrightarrow> ends rest \<Longrightarrow> pval n d (marshal v @ rest) = Some (norm v, rest)"
  using pval_pr [of "\<lambda>_. []" "[]" d v n rest 0] by (simp add: pr_marshal)

text \<open>The fuel that \<open>Unmarshal\<close> starts with is enough.\<close>

lemma length_Join: "length (Join sep xs) = sum_list (map length xs) + (length xs - 1)"
  by (induction sep xs rule: Join.induct) auto

lemma need_le: "json_ok d v \<Longrightarrow> need v \<le> 2 * length (marshal v)"
proof (induction v arbitrary: d)
  case (JArr xs)
  have "need x \<le> 2 * length (marshal x)" if "x \<in> set xs" for x
    using JArr that by (auto simp: list_all_iff)
  then have "sum_list (map (\<lambda>x. Suc (need x)) xs) \<le> sum_list (map (\<lambda>x. Suc (2 * length (marshal x))) xs)"
    by (intro sum_list_mono) simp
  also have "\<dots> = length xs + 2 * sum_list (map (length \<circ> marshal) xs)"
    by (induction xs) auto
  finally show ?case by (cases xs) (auto simp: length_Join)
next
  case (JObj kvs)
  let ?t = "\<lambda>(k, v). quote k @ CHR '':'' # marshal v"
  have "need v \<le> 2 * length (marshal v)" if "(k, v) \<in> set kvs" for k v
    using JObj that by (fastforce simp: list_all_iff snds.simps)
  then have "sum_list (map (\<lambda>(k, v). Suc (need v)) kvs) \<le> sum_list (map (\<lambda>x. Suc (2 * length (?t x))) kvs)"
    by (intro sum_list_mono) (auto intro!: le_SucI trans_le_add2)
  also have "\<dots> = length kvs + 2 * sum_list (map (length \<circ> ?t) kvs)"
    by (induction kvs) auto
  finally show ?case by (cases kvs) (auto simp: length_Join)
next
  case (JNum n)
  then show ?case using starts_num [OF pnum_fmtNum, of n] by (cases "fmtNum n") (auto simp: starts_def)
next
  case (JLit l)
  then show ?case using starts_num [of l] by (cases l) (auto simp: starts_def)
qed (auto simp: quote_def)

lemma Unmarshal_marshal:
  assumes "json_ok 10000 v" and "skip_ws t = []" and "ends t"
  shows "Unmarshal (marshal v @ t) = Some (norm v)"
  using pval_marshal [OF assms(1) _ assms(3), of "2 * length (marshal v @ t) + 2"] need_le [OF assms(1)] assms(2)
  by (simp add: Unmarshal_def)

lemma length_pr: "length (marshal v) \<le> length (pr gap (CHR '':'' # c) i v)"
proof (induction v arbitrary: i)
  case (JArr xs)
  have "sum_list (map (length \<circ> marshal) xs) \<le> sum_list (map (\<lambda>x. length (gap (Suc i) @ pr gap (CHR '':'' # c) (Suc i) x)) xs)"
    using JArr by (intro sum_list_mono) (auto intro!: trans_le_add2)
  then show ?case by (simp add: length_Join comp_def)
next
  case (JObj kvs)
  have "sum_list (map (length \<circ> (\<lambda>(k, v). quote k @ CHR '':'' # marshal v)) kvs)
      \<le> sum_list (map (length \<circ> (\<lambda>(k, v). gap (Suc i) @ quote k @ (CHR '':'' # c) @ pr gap (CHR '':'' # c) (Suc i) v)) kvs)"
  proof (rule sum_list_mono)
    fix e assume e: "e \<in> set kvs"
    obtain k v where kv: "e = (k, v)" by fastforce
    have "length (marshal v) \<le> length (pr gap (CHR '':'' # c) (Suc i) v)" using JObj e kv by (auto simp: snds.simps)
    then show "(length \<circ> (\<lambda>(k, v). quote k @ CHR '':'' # marshal v)) e
        \<le> (length \<circ> (\<lambda>(k, v). gap (Suc i) @ quote k @ (CHR '':'' # c) @ pr gap (CHR '':'' # c) (Suc i) v)) e" by (simp add: kv)
  qed
  then show ?case by (simp add: length_Join)
qed simp_all

lemma Unmarshal_MarshalIndent:
  assumes "json_ok 10000 v" and "skip_ws t = []" and "ends t"
  shows "Unmarshal (MarshalIndent v @ t) = Some (norm v)"
proof -
  have g: "list_all ws (newline i)" for i by (simp add: newline_def ws_def list_all_iff)
  have "list_all ws '' ''" by (simp add: ws_def)
  from pval_pr [OF g this assms(1) _ assms(3), where n = "2 * length (MarshalIndent v @ t) + 2" and i = 0]
  have "pval (2 * length (MarshalIndent v @ t) + 2) 10000 (MarshalIndent v @ t) = Some (norm v, t)"
    using need_le [OF assms(1)] length_pr [of v newline "'' ''" 0] by (simp add: MarshalIndent_def)
  then show ?thesis using assms(2) by (simp add: Unmarshal_def)
qed

text \<open>What is read can be written, and is normal: valid strings, sorted maps.\<close>

lemma coerce_ascii: "ord c < 0x80 \<Longrightarrow> coerce (c # t) = c # coerce t"
  by (simp add: coerce.simps)

lemma coerce_rune:
  assumes "utf8_len r = length r" and "r \<noteq> []"
  shows "coerce (r @ t) = r @ coerce t"
proof -
  obtain c cs where r: "r = c # cs" using assms(2) by (cases r) auto
  have "utf8_len (r @ t) = length r" using utf8_len_append [of r t] assms by simp
  moreover have "\<not> ord c < 0x80" using utf8_len_high [of c cs] assms by (simp add: r)
  ultimately show ?thesis by (simp add: r coerce.simps Let_def)
qed

lemma coerce_utf8_rune:
  assumes "\<not> surrogate r" and "r < 0x110000"
  shows "coerce (utf8_rune r @ t) = utf8_rune r @ coerce t"
proof (cases "r < 0x80")
  case True
  then show ?thesis by (simp add: utf8_rune_def coerce_ascii)
next
  case False
  have div: "r div 64 < 0x4400" "r div 4096 < 0x110" "r div 262144 < 5" using assms(2) by (simp_all add: less_mult_imp_div_less)
  have c: "cont (char_of (0x80 + n mod 64))" for n :: nat by (simp add: cont_def trans_less_add1)
  consider "r < 0x800" | "0x800 \<le> r" "r < 0x10000" | "0x10000 \<le> r" by linarith
  then have "utf8_len (utf8_rune r) = length (utf8_rune r)"
  proof cases
    case 1
    then have "2 \<le> r div 64" "r div 64 < 32" using False by (simp_all add: less_mult_imp_div_less)
    then show ?thesis using 1 False c by (simp add: utf8_rune_def lead2_def)
  next
    case 2
    then have d: "r div 4096 < 16" "0x20 \<le> r div 64 \<or> r div 4096 \<noteq> 0" by (auto simp: less_mult_imp_div_less)
    have q: "32 \<le> q \<and> q < 1024 \<and> \<not> (864 \<le> q \<and> q < 896) \<Longrightarrow>
        q div 64 < 16 \<and> (q div 64 = 0 \<longrightarrow> 32 \<le> q mod 64) \<and> (q div 64 = 13 \<longrightarrow> q mod 64 < 32)" for q :: nat
      using div_mult_mod_eq [of q 64] mod_less_divisor [of 64 q] by (intro conjI impI) linarith+
    have "r div 4096 = r div 64 div 64" by (simp add: div_mult2_eq [symmetric])
    moreover have "32 \<le> r div 64 \<and> r div 64 < 1024 \<and> \<not> (864 \<le> r div 64 \<and> r div 64 < 896)"
      using 2 assms(1) by (auto simp: surrogate_def)
    ultimately have "lead3 (char_of (0xE0 + r div 4096)) (char_of (0x80 + r div 64 mod 64))"
      using q [of "r div 64"] c by (auto simp: lead3_def)
    moreover have "\<not> lead2 (char_of (0xE0 + r div 4096)) x" for x using d by (simp add: lead2_def)
    ultimately show ?thesis using 2 c by (simp add: utf8_rune_def)
  next
    case 3
    have q: "16 \<le> q \<and> q < 272 \<Longrightarrow>
        q div 64 < 5 \<and> (q div 64 = 0 \<longrightarrow> 16 \<le> q mod 64) \<and> (q div 64 = 4 \<longrightarrow> q mod 64 < 16)" for q :: nat
      using div_mult_mod_eq [of q 64] mod_less_divisor [of 64 q] by (intro conjI impI) linarith+
    have "r div 262144 = r div 4096 div 64" by (simp add: div_mult2_eq [symmetric])
    moreover have "16 \<le> r div 4096 \<and> r div 4096 < 272" using 3 div by auto
    ultimately have "lead4 (char_of (0xF0 + r div 262144)) (char_of (0x80 + r div 4096 mod 64))"
      using q [of "r div 4096"] c by (auto simp: lead4_def)
    moreover have "\<not> lead2 (char_of (0xF0 + r div 262144)) x" "\<not> lead3 (char_of (0xF0 + r div 262144)) x" for x
      using div by (simp_all add: lead2_def lead3_def)
    ultimately show ?thesis using 3 c by (simp add: utf8_rune_def)
  qed
  then show ?thesis by (intro coerce_rune) (auto simp: utf8_rune_def)
qed

lemma coerce_replacement: "coerce (replacement @ t) = replacement @ coerce t"
  by (intro coerce_rune) (auto simp: replacement_def lead2_def lead3_def cont_def)

lemma getu4_bound: "getu4 s = Some (r, rest) \<Longrightarrow> r < 0x10000"
proof -
  assume g: "getu4 s = Some (r, rest)"
  have hex: "hex_val c = Some x \<Longrightarrow> x < 16" for c x by (auto simp: hex_val_def Let_def split: if_splits)
  obtain a b c d w x y z where "hex_val a = Some w" "hex_val b = Some x" "hex_val c = Some y" "hex_val d = Some z"
    "r = 4096 * w + 256 * x + 16 * y + z"
    using g by (cases s rule: getu4.cases) (auto split: option.splits)
  moreover from this have "w < 16" "x < 16" "y < 16" "z < 16" by (blast intro: hex)+
  ultimately show ?thesis by linarith
qed

lemma uescape_cases:
  "uescape s = Some (t, rest) \<Longrightarrow> t = replacement \<or> (\<exists>r. t = utf8_rune r \<and> \<not> surrogate r \<and> r < 0x110000)"
proof -
  assume u: "uescape s = Some (t, rest)"
  obtain r r1 where g: "getu4 s = Some (r, r1)" using u by (auto simp: uescape_def split: option.splits)
  have r: "r < 0x10000" by (rule getu4_bound [OF g])
  show ?thesis
  proof (cases "surrogate r")
    case False
    then show ?thesis using u g r by (auto simp: uescape_def intro!: exI [of _ r])
  next
    case True
    show ?thesis
    proof (cases "t = replacement")
      case False
      then obtain q r2 where q: "0xDC00 \<le> q" "q < 0xE000" "r < 0xDC00"
        "t = utf8_rune ((r - 0xD800) * 1024 + (q - 0xDC00) + 0x10000)"
        using u g True by (auto simp: uescape_def split: option.splits if_splits)
      have "(r - 0xD800) * 1024 + (q - 0xDC00) + 0x10000 < 0x110000"
        "\<not> surrogate ((r - 0xD800) * 1024 + (q - 0xDC00) + 0x10000)"
        using q by (auto simp: surrogate_def)
      then show ?thesis using q(4) by blast
    qed simp
  qed
qed

lemma uescape_coerce: "uescape s = Some (t, rest) \<Longrightarrow> coerce (t @ u) = t @ coerce u"
  by (drule uescape_cases) (auto simp: coerce_replacement coerce_utf8_rune)

lemma prepend_Some: "prepend a r = Some (t, rest) \<longleftrightarrow> (\<exists>u. r = Some (u, rest) \<and> t = a @ u)"
  by (auto simp: prepend_def)

lemma pstr_coerce: "pstr s = Some (t, rest) \<Longrightarrow> coerce t = t"
proof (induction s arbitrary: t rest rule: pstr.induct)
  case (2 c cs)
  note p = 2(6) [unfolded pstr.simps(2) Let_def]
  consider (quote) "c = CHR 0x22" | (esc) "c = CHR 0x5C" | (ascii) "c \<noteq> CHR 0x22" "c \<noteq> CHR 0x5C" "\<not> ord c < 32" "ord c < 0x80"
    | (bad) "c \<noteq> CHR 0x22" "c \<noteq> CHR 0x5C" "\<not> ord c < 32" "\<not> ord c < 0x80" "utf8_len (c # cs) = 0"
    | (rune) "c \<noteq> CHR 0x22" "c \<noteq> CHR 0x5C" "\<not> ord c < 32" "\<not> ord c < 0x80" "utf8_len (c # cs) \<noteq> 0"
    using p by (auto split: if_splits)
  then show ?case
  proof cases
    case esc
    obtain e es where cs: "cs = e # es" using p esc by (cases cs) auto
    show ?thesis
    proof (cases "simple_escape e")
      case (Some x)
      then have "ord x < 0x80" by (auto simp: simple_escape_def split: if_splits)
      then show ?thesis using p esc cs Some 2(2) by (auto simp: prepend_Some coerce_ascii)
    next
      case None
      then obtain u rest' where u: "uescape es = Some (u, rest')" using p esc cs by (auto split: if_splits option.splits)
      then show ?thesis
        using p esc cs None 2(1) u uescape_coerce [OF u] by (auto simp: prepend_Some split: if_splits)
    qed
  next
    case ascii
    then show ?thesis using p 2(3) by (auto simp: prepend_Some coerce_ascii)
  next
    case bad
    then show ?thesis using p 2(4) by (auto simp: prepend_Some coerce_replacement)
  next
    case rune
    let ?k = "utf8_len (c # cs)"
    obtain u where u: "pstr (drop ?k (c # cs)) = Some (u, rest)" "t = take ?k (c # cs) @ u"
      using p rune by (auto simp: prepend_Some)
    have "coerce u = u" by (rule 2(5) [OF rune(1-4) refl rune(5) u(1)])
    moreover have "utf8_len (take ?k (c # cs)) = length (take ?k (c # cs))"
      using utf8_len_take [OF refl rune(5)] utf8_len_bounds [of "c # cs"] by simp
    moreover have "take ?k (c # cs) \<noteq> []" using rune(5) by simp
    ultimately show ?thesis using u(2) coerce_rune by metis
  qed (use p in \<open>simp add: coerce.simps\<close>)
qed (simp add: pstr.simps)

text \<open>A literal that was kept reads as itself.\<close>

definition no_digit :: "string \<Rightarrow> bool" where
  "no_digit r \<longleftrightarrow> r = [] \<or> \<not> is_digit (hd r)"

lemma takeWhile_no_digit:
  assumes "no_digit r"
  shows "takeWhile is_digit (takeWhile is_digit s @ r) = takeWhile is_digit s"
    and "dropWhile is_digit (takeWhile is_digit s @ r) = r"
proof -
  have r: "takeWhile is_digit r = []" "dropWhile is_digit r = r" using assms by (cases r; simp add: no_digit_def)+
  show "takeWhile is_digit (takeWhile is_digit s @ r) = takeWhile is_digit s"
    "dropWhile is_digit (takeWhile is_digit s @ r) = r"
    by (induction s) (simp_all add: r)
qed

lemma pint_again: "pint s = Some (a, r) \<Longrightarrow> no_digit r' \<Longrightarrow> pint (a @ r') = Some (a, r') \<and> a \<noteq> [] \<and> is_digit (hd a)"
proof (cases s)
  case (Cons c cs)
  assume p: "pint s = Some (a, r)" and n: "no_digit r'"
  have "is_digit CHR ''0''" by (simp add: is_digit_def)
  then show ?thesis using p takeWhile_no_digit [OF n, of cs] by (auto simp: Cons split: if_splits)
qed simp

lemma pfrac_again:
  "pfrac s = Some (a, r) \<Longrightarrow> no_digit r' \<Longrightarrow> (r' = [] \<or> hd r' \<noteq> CHR ''.'') \<Longrightarrow> pfrac (a @ r') = Some (a, r')"
proof (cases s)
  case Nil
  then show "pfrac s = Some (a, r) \<Longrightarrow> no_digit r' \<Longrightarrow> (r' = [] \<or> hd r' \<noteq> CHR ''.'') \<Longrightarrow> ?thesis" by (cases r') auto
next
  case (Cons c cs)
  assume p: "pfrac s = Some (a, r)" and n: "no_digit r'" "r' = [] \<or> hd r' \<noteq> CHR ''.''"
  then show ?thesis
    using takeWhile_no_digit [OF n(1), of cs] by (cases r') (auto simp: Cons Let_def split: if_splits)
qed

lemma esign_again: "takeWhile is_digit (drop (length (esign s)) s) \<noteq> [] \<Longrightarrow>
   esign (esign s @ takeWhile is_digit (drop (length (esign s)) s)) = esign s"
  by (cases s) (auto simp: esign_def is_digit_def split: if_splits)

lemma pexp_again: "pexp s = Some (a, r) \<Longrightarrow> pexp a = Some (a, [])"
proof (cases s)
  case (Cons c cs)
  assume p: "pexp s = Some (a, r)"
  show ?thesis
  proof (cases "c = CHR ''e'' \<or> c = CHR ''E''")
    case True
    have "takeWhile is_digit (takeWhile is_digit t) = takeWhile is_digit t"
      "dropWhile is_digit (takeWhile is_digit t) = []" for t
      using takeWhile_no_digit [of "[]" t] by (auto simp: no_digit_def)
    then show ?thesis
      using p True esign_again [of cs] by (auto simp: Cons Let_def split: if_splits)
  qed (use p Cons in auto)
qed simp

lemma pfrac_shape: "pfrac s = Some (a, r) \<Longrightarrow> a = [] \<or> hd a = CHR ''.''"
  by (cases s) (auto simp: Let_def split: if_splits)

lemma pexp_shape: "pexp s = Some (a, r) \<Longrightarrow> a = [] \<or> hd a = CHR ''e'' \<or> hd a = CHR ''E''"
  by (cases s) (auto simp: Let_def split: if_splits)

fun read_ok :: "nat \<Rightarrow> json \<Rightarrow> bool" where
  "read_ok d (JNum n) = num_ok n"
| "read_ok d (JLit l) = (pnum l = Some (JLit l, []))"
| "read_ok d (JStr s) = (coerce s = s)"
| "read_ok d (JArr xs) = (0 < d \<and> list_all (read_ok (d - 1)) xs)"
| "read_ok d (JObj kvs) = (0 < d \<and> keys_sorted kvs \<and> list_all (\<lambda>(k, v). coerce k = k \<and> read_ok (d - 1) v) kvs)"
| "read_ok d v = True"

lemma read_ok_norm: "read_ok d v \<Longrightarrow> json_ok d v \<and> norm v = v"
proof (induction v arbitrary: d)
  case (JArr xs)
  then show ?case by (auto simp: list_all_iff intro!: map_idI)
next
  case (JObj kvs)
  have f: "json_ok (d - 1) v \<and> norm v = v" if "(k, v) \<in> set kvs" for k v
    using JObj that by (fastforce simp: list_all_iff snds.simps)
  then have "map (\<lambda>(k, v). (coerce k, norm v)) kvs = kvs"
    using JObj.prems by (intro map_idI) (auto simp: list_all_iff)
  then show ?case using JObj.prems f by (auto simp: list_all_iff mk_sorted_id)
qed auto

lemma set_ins: "set (ins k v m) \<subseteq> insert (k, v) (set m)"
proof (induction m)
  case (Cons e m)
  obtain k' v' where "e = (k', v')" by fastforce
  then show ?case using Cons by auto
qed simp

lemma set_mk: "set (mk kvs) \<subseteq> set kvs"
proof -
  have "set (fold (\<lambda>(k, v). ins k v) kvs m) \<subseteq> set kvs \<union> set m" for m
  proof (induction kvs arbitrary: m)
    case (Cons e kvs)
    then show ?case using set_ins [of "fst e" "snd e" m] Cons.IH [of "ins (fst e) (snd e) m"]
      by (auto simp: case_prod_beta)
  qed simp
  from this [of "[]"] show ?thesis by (simp add: mk_def)
qed

lemma pnum_ok:
  assumes "pnum s = Some (v, r)"
  shows "read_ok d v"
proof -
  obtain ip t1 fr t2 ex where i: "pint (drop (length (nsign s)) s) = Some (ip, t1)" and f: "pfrac t1 = Some (fr, t2)"
    and e: "pexp t2 = Some (ex, r)" and v: "number (nsign s) ip fr ex = Some v"
    using assms by (auto simp: pnum_def Let_def split: option.splits)
  have ex: "no_digit ex" "ex = [] \<or> hd ex \<noteq> CHR ''.''" using pexp_shape [OF e] by (auto simp: no_digit_def is_digit_def)
  have frex: "no_digit (fr @ ex)"
    using pfrac_shape [OF f] ex by (auto simp: no_digit_def is_digit_def hd_append)
  have ip: "ip \<noteq> []" "is_digit (hd ip)" "pint (ip @ fr @ ex) = Some (ip, fr @ ex)"
    using pint_again [OF i frex] by auto
  then have "nsign (ip @ fr @ ex) = []" by (auto simp: nsign_def is_digit_def hd_append)
  moreover have "nsign s = [] \<or> nsign s = ''-''" by (auto simp: nsign_def)
  ultimately have sg: "nsign (nsign s @ ip @ fr @ ex) = nsign s" by (auto simp: nsign_def)
  show ?thesis
  proof (cases v)
    case (JNum n)
    then have "to_f64 (if nsign s = [] then int (digits_val ip) else - int (digits_val ip)) = FInt n" "\<bar>n\<bar> < 10 ^ 21"
      using v by (auto simp: number_def split: f64.splits if_splits)
    then have "num_ok n"
      using to_f64_valid by (metis num_ok_def)
    then show ?thesis by (simp add: JNum)
  next
    case (JLit l)
    then have l: "l = nsign s @ ip @ fr @ ex" using v by (auto simp: number_def split: f64.splits if_splits)
    have "pnum l = Some (v, [])"
      using sg ip(3) pfrac_again [OF f ex] pexp_again [OF e] v by (simp add: pnum_def l Let_def)
    then show ?thesis by (simp add: JLit)
  qed (use v in \<open>auto simp: number_def split: f64.splits if_splits\<close>)
qed

lemma pval_ok: "pval n d s = Some (v, r) \<Longrightarrow> read_ok d v"
  and pelems_ok: "pelems n d s = Some (xs, r) \<Longrightarrow> list_all (read_ok d) xs"
  and pfields_ok: "pfields n d s = Some (kvs, r) \<Longrightarrow> list_all (\<lambda>(k, v). coerce k = k \<and> read_ok d v) kvs"
proof (induction n d s and n d s and n d s arbitrary: v r and xs r and kvs r rule: pval_pelems_pfields.induct)
  case (2 n d s)
  obtain c cs where s: "skip_ws s = c # cs" using 2(3) by (cases "skip_ws s") auto
  note p = 2(3) [unfolded pval.simps s list.case]
  consider (str) "c = CHR 0x22" | (arr) "c = CHR ''[''" | (obj) "c = CHR ''{''"
    | (name) "c \<noteq> CHR 0x22" "c \<noteq> CHR ''[''" "c \<noteq> CHR ''{''" by blast
  then show ?case
  proof cases
    case str
    then show ?thesis using p pstr_coerce by (auto simp: map_fst_def)
  next
    case arr
    then show ?thesis using p 2(1) [OF s] by (auto simp: map_fst_def split: if_splits)
  next
    case obj
    have fields: "list_all (\<lambda>(k, v). coerce k = k \<and> read_ok (d - 1) v) (mk kvs)"
      if "list_all (\<lambda>(k, v). coerce k = k \<and> read_ok (d - 1) v) kvs" for kvs
      using that set_mk [of kvs] by (auto simp: list_all_iff)
    show ?thesis
      using p obj 2(2) [OF s] fields keys_sorted_mk
      by (auto simp: map_fst_def split: if_splits)
  next
    case name
    then show ?thesis using p pnum_ok by (auto split: if_splits)
  qed
next
  case (4 n d s)
  then show ?case by (fastforce simp: map_fst_def split: option.splits list.splits if_splits)
next
  case (6 n d s)
  then show ?case
    by (fastforce simp: map_fst_def dest: pstr_coerce split: option.splits list.splits if_splits)
qed simp_all

lemma Unmarshal_ok: "Unmarshal s = Some v \<Longrightarrow> read_ok 10000 v"
  by (auto simp: Unmarshal_def simp del: pval.simps dest: pval_ok split: option.splits if_splits)

text \<open>What was read is written and read back unchanged.\<close>

lemma Unmarshal_again: "read_ok 10000 v \<Longrightarrow> Unmarshal (marshal v) = Some v"
  using Unmarshal_marshal [of v "[]"] read_ok_norm [of 10000 v] by simp

interpretation jstr: codec "\<lambda>s. escape s @ [CHR 0x22]" pstr "\<lambda>s. coerce s = s"
  by unfold_locales (simp_all add: pstr_escape_coerce)

lemma coerce_plain: "list_all (\<lambda>c. ord c < 0x80) s \<Longrightarrow> coerce s = s"
  by (induction s) (simp_all add: coerce.simps)

lemma read_ok_lookup: "read_ok d (JObj m) \<Longrightarrow> map_of m k = Some v \<Longrightarrow> read_ok (d - 1) v"
  by (auto simp: list_all_iff dest!: map_of_SomeD)

section \<open>Decoding into structs\<close>

text \<open>A member fills the field whose name it has, exactly or up to case; case folding takes the Kelvin
  sign for a k and the long s for an s. Of several members for one field Go keeps the last in the
  text; here an exact name wins over the others, and of these the last in the order of the names.\<close>

definition upper :: "char \<Rightarrow> char" where
  "upper c = (if CHR ''a'' \<le> c \<and> c \<le> CHR ''z'' then char_of (ord c - 32) else c)"

fun foldName :: "string \<Rightarrow> string" where
  "foldName [] = []"
| "foldName (c # s) =
     (if c = CHR 0xE2 \<and> take 2 s = [CHR 0x84, CHR 0xAA] then CHR ''K'' # foldName (drop 2 s)
      else if c = CHR 0xC5 \<and> take 1 s = [CHR 0xBF] then CHR ''S'' # foldName (drop 1 s)
      else upper c # foldName s)"

definition member :: "(string \<times> json) list \<Rightarrow> string \<Rightarrow> json option" where
  "member m f =
     (case map_of m f of
        Some v \<Rightarrow> Some v
      | None \<Rightarrow> map_option snd (find (\<lambda>(k, v). foldName k = foldName f) (rev m)))"

lemma member_exact [simp]: "map_of m f = Some v \<Longrightarrow> member m f = Some v"
  by (simp add: member_def)

lemma member_Nil [simp]: "member [] f = None"
  by (simp add: member_def)

lemma member_mem: "member m f = Some v \<Longrightarrow> \<exists>k. (k, v) \<in> set m"
  by (auto simp: member_def find_Some_iff dest!: map_of_SomeD split: option.splits)
    (metis nth_mem rev_rev_ident set_rev length_rev)

lemma filter_ins: "\<not> P k \<Longrightarrow> filter (\<lambda>(k, v). P k) (ins k v m) = filter (\<lambda>(k, v). P k) m"
  by (induction m) auto

lemma member_ins:
  assumes "keys_sorted m" and "foldName k \<noteq> foldName f"
  shows "member (ins k v m) f = member m f"
proof -
  have hd_filter: "find Q xs = (case filter Q xs of [] \<Rightarrow> None | x # _ \<Rightarrow> Some x)" for Q :: "string \<times> json \<Rightarrow> bool" and xs
    by (induction xs) auto
  have "find (\<lambda>(k, v). foldName k = foldName f) (rev (ins k v m)) = find (\<lambda>(k, v). foldName k = foldName f) (rev m)"
    using filter_ins [of "\<lambda>k. foldName k = foldName f" k v m] assms(2) by (simp add: hd_filter flip: rev_filter)
  moreover have "k \<noteq> f" using assms(2) by auto
  ultimately show ?thesis by (cases "map_of m f") (simp_all add: member_def map_of_ins [OF assms(1)])
qed

lemma read_ok_member: "read_ok d (JObj m) \<Longrightarrow> member m k = Some v \<Longrightarrow> read_ok (d - 1) v"
  by (auto simp: list_all_iff dest!: member_mem)

text \<open>The members of an object that a struct has: absent or null leaves the zero value, another type is
  an error.\<close>

definition strField :: "(string \<times> json) list \<Rightarrow> string \<Rightarrow> string option" where
  "strField m f = (case member m f of None \<Rightarrow> Some [] | Some JNull \<Rightarrow> Some [] | Some (JStr s) \<Rightarrow> Some s | _ \<Rightarrow> None)"

definition boolField :: "(string \<times> json) list \<Rightarrow> string \<Rightarrow> bool option" where
  "boolField m f = (case member m f of None \<Rightarrow> Some False | Some JNull \<Rightarrow> Some False | Some (JBool b) \<Rightarrow> Some b | _ \<Rightarrow> None)"

definition sliceField :: "(json \<Rightarrow> 'a option) \<Rightarrow> (string \<times> json) list \<Rightarrow> string \<Rightarrow> 'a list option" where
  "sliceField elem m f = (case member m f of None \<Rightarrow> Some [] | Some JNull \<Rightarrow> Some []
     | Some (JArr xs) \<Rightarrow> those (map elem xs) | _ \<Rightarrow> None)"

definition intField :: "(string \<times> json) list \<Rightarrow> string \<Rightarrow> int option" where
  "intField m k = (case member m k of None \<Rightarrow> Some 0 | Some JNull \<Rightarrow> Some 0
     | Some (JNum n) \<Rightarrow> if - (2 ^ 63) \<le> n \<and> n < 2 ^ 63 then Some n else None
     | Some (JLit l) \<Rightarrow> if l = ''-0'' then Some 0 else None | _ \<Rightarrow> None)"

definition objField :: "(string \<times> json) list \<Rightarrow> string \<Rightarrow> (string \<times> json) list option" where
  "objField m k = (case member m k of None \<Rightarrow> Some [] | Some JNull \<Rightarrow> Some [] | Some (JObj o1) \<Rightarrow> Some o1 | _ \<Rightarrow> None)"

end
