(* ===== verification/Stack.thy ===== *)
theory Stack
  imports ExpText
begin

text \<open>
  The receiver stack, internal/stack: the choice of host ports (ports.go), the registry cache
  (regcache.go), and the life cycle of the compose project (stack.go). The Docker daemon is not
  part of the program: its commands and the port test are parameters over a state of the daemon
  \<open>'d\<close>, collected in the record \<open>docker\<close>. The project directory is the record \<open>host\<close>; the discovery
  file holds the structure that was written (theory Discovery shows that its text reads as that), or
  is missing, unreadable or no document. What comes of a write is given (theory GoBase): a write that
  fails half way leaves a front part of the text. Operations return their result and the new host, on
  errors too.
\<close>

section \<open>Ports\<close>

definition DefaultPrometheusPort :: int where "DefaultPrometheusPort = 9491"
definition DefaultGrafanaPort :: int where "DefaultGrafanaPort = 3000"
definition maxPortProbe :: int where "maxPortProbe = 50"

definition preferredPort :: "int \<Rightarrow> int \<Rightarrow> int \<Rightarrow> int" where
  "preferredPort explicit claimed def =
     (if explicit \<noteq> 0 then explicit else if claimed \<noteq> 0 then claimed else def)"

text \<open>The walk over the ports from the default, and \<open>pickPort\<close>; \<open>None\<close> is the error.\<close>

fun pickLoop :: "(int \<Rightarrow> bool) \<Rightarrow> int \<Rightarrow> int \<Rightarrow> bool \<Rightarrow> int list \<Rightarrow> int option" where
  "pickLoop portFree preferred claimed ours [] = None"
| "pickLoop portFree preferred claimed ours (p # ps) =
     (if p = preferred then pickLoop portFree preferred claimed ours ps
      else if p = claimed \<and> ours then Some p
      else if portFree p then Some p
      else pickLoop portFree preferred claimed ours ps)"

definition pickPort :: "(int \<Rightarrow> bool) \<Rightarrow> int \<Rightarrow> int \<Rightarrow> int \<Rightarrow> bool \<Rightarrow> int option" where
  "pickPort portFree preferred start claimed ours =
     (if preferred = claimed \<and> ours then Some preferred
      else if portFree preferred then Some preferred
      else pickLoop portFree preferred claimed ours [start..start + maxPortProbe - 1])"

section \<open>Docker queries\<close>

text \<open>The rendered compose file, by the values the template is filled with.\<close>

record composeFile =
  cfPrometheusPort :: int
  cfGrafanaPort :: int
  cfAdminPassword :: string
  cfHubPrefix :: string

text \<open>The compose file on disk: missing, whole, or without its last \<open>k\<close> bytes, after a write that failed.\<close>

datatype compose_state = NoCompose | Rendered composeFile | CutCompose composeFile nat

text \<open>The output of a docker command (\<open>None\<close> when it fails), whether a port can be bound, and
  \<open>docker compose\<close> with the file of the project directory: success and the new state.\<close>

record 'd docker =
  dkOutput :: "'d \<Rightarrow> string list \<Rightarrow> string option"
  dkFree :: "'d \<Rightarrow> int \<Rightarrow> bool"
  dkCompose :: "'d \<Rightarrow> compose_state \<Rightarrow> string list \<Rightarrow> bool \<times> 'd"

definition promContainer :: string where "promContainer = ''tmmscope-prometheus''"
definition grafContainer :: string where "grafContainer = ''tmmscope-grafana''"
definition remoteWritePath :: string where "remoteWritePath = ''/api/v1/write''"
definition dockerHubCacheContainer :: string where "dockerHubCacheContainer = ''regcache-dockerhub''"
definition dockerHubCacheInternalPort :: string where "dockerHubCacheInternalPort = ''5000/tcp''"

text \<open>\<open>strings.Fields\<close>: the maximal runs of bytes that start no white space rune.\<close>

function Fields_loop :: "string \<Rightarrow> string \<Rightarrow> string list" where
  "Fields_loop cur s =
     (if s = [] then (if cur = [] then [] else [cur])
      else (let k = leading_space space_runes s in
            if k = 0 then Fields_loop (cur @ [hd s]) (tl s)
            else (if cur = [] then [] else [cur]) @ Fields_loop [] (drop k s)))"
  by pat_completeness auto
termination
  by (relation "measure (\<lambda>(cur, s). length s)") auto

declare Fields_loop.simps [simp del]

definition Fields :: "string \<Rightarrow> string list" where
  "Fields s = Fields_loop [] s"

text \<open>\<open>fmt.Sscanf(s, "%d", &p)\<close>: leading white space, an optional sign, digits; the rest is ignored.\<close>

definition Sscanf_d :: "string \<Rightarrow> int option" where
  "Sscanf_d s =
     (let t = trim_front space_runes s;
          (neg, u) = (case t of c # cs \<Rightarrow> if c = CHR ''-'' then (True, cs)
                                         else if c = CHR ''+'' then (False, cs) else (False, t)
                      | [] \<Rightarrow> (False, []));
          ds = takeWhile is_digit u;
          v = (if neg then - int (digits_val ds) else int (digits_val ds))
      in if ds = [] \<or> v < - (2 ^ 63) \<or> 2 ^ 63 \<le> v then None else Some v)"

text \<open>What follows the last colon of a line.\<close>

definition afterColon :: "string \<Rightarrow> string option" where
  "afterColon line =
     (if CHR '':'' \<in> set line then Some (rev (takeWhile (\<lambda>c. c \<noteq> CHR '':'') (rev line))) else None)"

fun portLines :: "string list \<Rightarrow> int" where
  "portLines [] = 0"
| "portLines (line # ls) =
     (case afterColon line of
        None \<Rightarrow> portLines ls
      | Some t \<Rightarrow> (case Sscanf_d t of Some p \<Rightarrow> if p > 0 then p else portLines ls | None \<Rightarrow> portLines ls))"

definition publishedPort :: "'d docker \<Rightarrow> 'd \<Rightarrow> string \<Rightarrow> string \<Rightarrow> int" where
  "publishedPort dk d container internal =
     (case dkOutput dk d [''port'', container, internal] of
        None \<Rightarrow> 0
      | Some out \<Rightarrow> portLines (Split CHR 0x0A (TrimSpace out)))"

definition containerRunning :: "'d docker \<Rightarrow> 'd \<Rightarrow> string \<Rightarrow> bool" where
  "containerRunning dk d name =
     (case dkOutput dk d [''inspect'', ''-f'', ''{{.State.Running}}'', name] of
        None \<Rightarrow> False
      | Some out \<Rightarrow> TrimSpace out = ''true'')"

definition containersRunning :: "'d docker \<Rightarrow> 'd \<Rightarrow> bool" where
  "containersRunning dk d =
     (case dkOutput dk d [''inspect'', ''-f'', ''{{.State.Running}}'', promContainer, grafContainer] of
        None \<Rightarrow> False
      | Some out \<Rightarrow>
          (let lines = Fields (TrimSpace out)
           in if length lines \<noteq> 2 then False else lines ! 0 = ''true'' \<and> lines ! 1 = ''true''))"

section \<open>The registry cache\<close>

datatype mirror_error = CacheNotRunning | UnknownMode string

definition detectDockerHubMirror :: "'d docker \<Rightarrow> 'd \<Rightarrow> string \<Rightarrow> string" where
  "detectDockerHubMirror dk d host =
     (if \<not> containerRunning dk d dockerHubCacheContainer then []
      else (let port = publishedPort dk d dockerHubCacheContainer dockerHubCacheInternalPort
            in if port = 0 then [] else host @ '':'' @ FormatInt port))"

text \<open>The modes are strings: auto, off, on, and the empty string for auto.\<close>

definition ResolveDockerHubMirror :: "'d docker \<Rightarrow> 'd \<Rightarrow> string \<Rightarrow> string \<Rightarrow> mirror_error + string" where
  "ResolveDockerHubMirror dk d mode host =
     (let host = (if host = [] then ''localhost'' else host) in
      if mode = ''off'' then Inr []
      else if mode = ''auto'' \<or> mode = ''on'' \<or> mode = [] then
        (let mirror = detectDockerHubMirror dk d host
         in if mirror = [] \<and> mode = ''on'' then Inl CacheNotRunning else Inr mirror)
      else Inl (UnknownMode mode))"

definition dockerHubPrefix :: "string \<Rightarrow> string" where
  "dockerHubPrefix mirror = (if mirror = [] then [] else mirror @ ''/'')"

section \<open>The discovery file\<close>

record endpoints =
  epRunning :: bool
  epPrometheusPort :: int
  epPrometheusURL :: string
  epRemoteWriteURL :: string
  epRemoteWritePath :: string
  epGrafanaPort :: int
  epGrafanaURL :: string
  epDashboardURL :: string
  epUpdatedAt :: string

datatype discovery = Missing | Unreadable | Garbage | Written endpoints

record upOptions =
  optPrometheusPort :: int
  optGrafanaPort :: int
  optPassword :: string
  optMirror :: string

text \<open>The host: the environment and home directory, what comes of the writes, the files of the project
  directory, and the daemon.\<close>

record 'd host =
  hXdg :: string
  hHome :: "string option"
  hMkdirAll :: bool
  hTelemetry :: bool
  hWriteCompose :: write_outcome
  hWriteEndpoints :: write_outcome
  hEndpoints :: discovery
  hCompose :: compose_state
  hDocker :: 'd

datatype stack_error = NoHome | MkdirFailed | TelemetryFailed | NoPrometheusPort | NoGrafanaPort
  | WriteFailed | ComposeUpFailed | ComposeFailed | ReadFailed | BadEndpoints

text \<open>\<open>filepath.Join\<close> is the parameter \<open>join\<close>.\<close>

definition ProjectDir :: "(string list \<Rightarrow> string) \<Rightarrow> 'd host \<Rightarrow> string option" where
  "ProjectDir join h =
     (let x = TrimSpace (hXdg h) in
      if x \<noteq> [] then Some (join [x, ''tmmscope''])
      else map_option (\<lambda>home. join [home, ''.config'', ''tmmscope'']) (hHome h))"

definition endpointsPath :: "(string list \<Rightarrow> string) \<Rightarrow> 'd host \<Rightarrow> string option" where
  "endpointsPath join h = map_option (\<lambda>dir. join [dir, ''endpoints.json'']) (ProjectDir join h)"

definition LoadEndpoints :: "(string list \<Rightarrow> string) \<Rightarrow> 'd host \<Rightarrow> (stack_error + endpoints) option" where
  "LoadEndpoints join h =
     (case endpointsPath join h of
        None \<Rightarrow> Some (Inl NoHome)
      | Some path \<Rightarrow>
          (case hEndpoints h of
             Missing \<Rightarrow> None
           | Unreadable \<Rightarrow> Some (Inl ReadFailed)
           | Garbage \<Rightarrow> Some (Inl BadEndpoints)
           | Written e \<Rightarrow> Some (Inr e)))"

definition noEndpoints :: endpoints where
  "noEndpoints = \<lparr>epRunning = False, epPrometheusPort = 0, epPrometheusURL = [], epRemoteWriteURL = [],
     epRemoteWritePath = [], epGrafanaPort = 0, epGrafanaURL = [], epDashboardURL = [], epUpdatedAt = []\<rparr>"

text \<open>In \<open>LoadEndpoints\<close> above \<open>None\<close> is the error that satisfies \<open>os.IsNotExist\<close>.\<close>

definition Status_stack :: "'d docker \<Rightarrow> (string list \<Rightarrow> string) \<Rightarrow> 'd host \<Rightarrow> stack_error + endpoints" where
  "Status_stack dk join h =
     (case LoadEndpoints join h of
        None \<Rightarrow> Inr noEndpoints
      | Some (Inl e) \<Rightarrow> Inl e
      | Some (Inr e) \<Rightarrow> Inr (e\<lparr>epRunning := containersRunning dk (hDocker h)\<rparr>))"

definition buildEndpoints :: "int \<Rightarrow> int \<Rightarrow> bool \<Rightarrow> string \<Rightarrow> endpoints" where
  "buildEndpoints promPort grafPort running now =
     \<lparr>epRunning = running,
      epPrometheusPort = promPort,
      epPrometheusURL = ''http://localhost:'' @ FormatInt promPort,
      epRemoteWriteURL = ''http://localhost:'' @ FormatInt promPort @ remoteWritePath,
      epRemoteWritePath = remoteWritePath,
      epGrafanaPort = grafPort,
      epGrafanaURL = ''http://localhost:'' @ FormatInt grafPort,
      epDashboardURL = ''http://localhost:'' @ FormatInt grafPort @ ''/d/tmm-realtime'',
      epUpdatedAt = now\<rparr>"

text \<open>A write of the discovery file that fails after opening it leaves a front part of the document,
  which is no JSON value unless only the final line feed is missing.\<close>

definition writeEndpoints :: "endpoints \<Rightarrow> 'd host \<Rightarrow> bool \<times> 'd host" where
  "writeEndpoints e h =
     (case hWriteEndpoints h of
        WroteAll \<Rightarrow> (True, h\<lparr>hEndpoints := Written e\<rparr>)
      | NotOpened _ \<Rightarrow> (False, h)
      | CutShort k _ \<Rightarrow> (False, h\<lparr>hEndpoints := (if k \<le> 1 then Written e else Garbage)\<rparr>))"

definition renderCompose :: "int \<Rightarrow> int \<Rightarrow> string \<Rightarrow> string \<Rightarrow> 'd host \<Rightarrow> bool \<times> 'd host" where
  "renderCompose promPort grafPort adminPassword mirror h =
     (let cf = \<lparr>cfPrometheusPort = promPort, cfGrafanaPort = grafPort,
                cfAdminPassword = adminPassword, cfHubPrefix = dockerHubPrefix mirror\<rparr> in
      case hWriteCompose h of
        WroteAll \<Rightarrow> (True, h\<lparr>hCompose := Rendered cf\<rparr>)
      | NotOpened _ \<Rightarrow> (False, h)
      | CutShort k _ \<Rightarrow> (False, h\<lparr>hCompose := CutCompose cf k\<rparr>))"

definition compose :: "'d docker \<Rightarrow> string list \<Rightarrow> 'd host \<Rightarrow> bool \<times> 'd host" where
  "compose dk args h =
     (let (ok, d) = dkCompose dk (hDocker h) (hCompose h) args in (ok, h\<lparr>hDocker := d\<rparr>))"

section \<open>Up and Down\<close>

text \<open>The ports the stack claims: what its running containers publish, and else what the discovery
  file records.\<close>

definition claimedPorts :: "'d docker \<Rightarrow> (string list \<Rightarrow> string) \<Rightarrow> 'd host \<Rightarrow> int \<times> int" where
  "claimedPorts dk join h =
     (let ours = containersRunning dk (hDocker h);
          prom = (if ours then publishedPort dk (hDocker h) promContainer ''9090/tcp'' else 0);
          graf = (if ours then publishedPort dk (hDocker h) grafContainer ''3000/tcp'' else 0)
      in if prom = 0 \<or> graf = 0
         then (case LoadEndpoints join h of
                 Some (Inr prev) \<Rightarrow>
                   (if prom = 0 then epPrometheusPort prev else prom,
                    if graf = 0 then epGrafanaPort prev else graf)
               | _ \<Rightarrow> (prom, graf))
         else (prom, graf))"

definition Up :: "'d docker \<Rightarrow> (string list \<Rightarrow> string) \<Rightarrow> string \<Rightarrow> upOptions \<Rightarrow> 'd host
    \<Rightarrow> (stack_error + endpoints) \<times> 'd host" where
  "Up dk join now opts h =
     (case ProjectDir join h of
        None \<Rightarrow> (Inl NoHome, h)
      | Some dir \<Rightarrow>
        if \<not> hMkdirAll h then (Inl MkdirFailed, h)
        else if \<not> hTelemetry h then (Inl TelemetryFailed, h)
        else
          (let ours = containersRunning dk (hDocker h);
               (claimedProm, claimedGraf) = claimedPorts dk join h;
               free = dkFree dk (hDocker h);
               wantProm = preferredPort (optPrometheusPort opts) claimedProm DefaultPrometheusPort;
               wantGraf = preferredPort (optGrafanaPort opts) claimedGraf DefaultGrafanaPort
           in case pickPort free wantProm DefaultPrometheusPort claimedProm ours of
                None \<Rightarrow> (Inl NoPrometheusPort, h)
              | Some promPort \<Rightarrow>
                (case pickPort free wantGraf DefaultGrafanaPort claimedGraf ours of
                   None \<Rightarrow> (Inl NoGrafanaPort, h)
                 | Some grafPort \<Rightarrow>
                   (let pw = (if optPassword opts = [] then ''tmmscope'' else optPassword opts);
                        (ok, h1) = renderCompose promPort grafPort pw (optMirror opts) h
                    in if \<not> ok then (Inl WriteFailed, h1)
                       else
                         (let (ok, h2) = compose dk [''up'', ''-d'', ''--wait'', ''--wait-timeout'', ''120'',
                                                     ''--remove-orphans''] h1
                          in if \<not> ok then (Inl ComposeUpFailed, h2)
                             else
                               (let e = buildEndpoints promPort grafPort True now;
                                    (ok, h3) = writeEndpoints e h2
                                in if \<not> ok then (Inl WriteFailed, h3) else (Inr e, h3)))))))"

definition Down :: "'d docker \<Rightarrow> (string list \<Rightarrow> string) \<Rightarrow> string \<Rightarrow> bool \<Rightarrow> 'd host
    \<Rightarrow> stack_error option \<times> 'd host" where
  "Down dk join now purge h =
     (case ProjectDir join h of
        None \<Rightarrow> (Some NoHome, h)
      | Some dir \<Rightarrow>
        if hCompose h = NoCompose then (None, h)
        else
          (let args = [''down'', ''--remove-orphans''] @ (if purge then [''--volumes''] else []);
               (ok, h1) = compose dk args h
           in if \<not> ok then (Some ComposeFailed, h1)
              else (case LoadEndpoints join h1 of
                      Some (Inr e) \<Rightarrow>
                        (None, snd (writeEndpoints (e\<lparr>epRunning := False, epUpdatedAt := now\<rparr>) h1))
                    | _ \<Rightarrow> (None, h1))))"

section \<open>Port choice\<close>

lemma pickLoop_find:
  "pickLoop free preferred claimed ours ps =
     find (\<lambda>p. p \<noteq> preferred \<and> ((p = claimed \<and> ours) \<or> free p)) ps"
  by (induction ps) auto

definition acceptable :: "(int \<Rightarrow> bool) \<Rightarrow> int \<Rightarrow> bool \<Rightarrow> int \<Rightarrow> bool" where
  "acceptable free claimed ours p \<longleftrightarrow> (p = claimed \<and> ours) \<or> free p"

lemma pickPort_find:
  "pickPort free preferred start claimed ours =
     find (acceptable free claimed ours) (preferred # [start..start + 49])"
proof -
  have "find (\<lambda>p. p \<noteq> preferred \<and> acceptable free claimed ours p) ps = find (acceptable free claimed ours) ps"
    if "\<not> acceptable free claimed ours preferred" for ps
    using that by (induction ps) auto
  note drop = this
  have range: "start + maxPortProbe - 1 = start + 49" by (simp add: maxPortProbe_def)
  show ?thesis
    unfolding pickPort_def pickLoop_find range using drop by (auto simp: acceptable_def [abs_def])
qed

lemma pickPort_Some:
  "pickPort free preferred start claimed ours = Some p \<Longrightarrow>
   acceptable free claimed ours p \<and> (p = preferred \<or> start \<le> p \<and> p < start + 50)"
  by (auto simp: pickPort_find find_Some_iff split: if_splits dest: nth_mem)

lemma pickPort_None:
  "pickPort free preferred start claimed ours = None \<longleftrightarrow>
   \<not> acceptable free claimed ours preferred \<and> (\<forall>p. start \<le> p \<and> p < start + 50 \<longrightarrow> \<not> acceptable free claimed ours p)"
  by (auto simp: pickPort_find find_None_iff)

section \<open>Life cycle\<close>

lemma ProjectDir_frame [simp]:
  "ProjectDir join (h\<lparr>hEndpoints := x\<rparr>) = ProjectDir join h"
  "ProjectDir join (h\<lparr>hCompose := y\<rparr>) = ProjectDir join h"
  "ProjectDir join (h\<lparr>hDocker := d\<rparr>) = ProjectDir join h"
  by (simp_all add: ProjectDir_def Let_def)

text \<open>Every successful \<open>Up\<close> went through all of its stages.\<close>

lemma Up_Inr:
  assumes "Up dk join now opts h = (Inr e, h')"
  shows "\<exists>prom graf d claimedProm claimedGraf.
    claimedPorts dk join h = (claimedProm, claimedGraf)
    \<and> pickPort (dkFree dk (hDocker h)) (preferredPort (optPrometheusPort opts) claimedProm DefaultPrometheusPort)
         DefaultPrometheusPort claimedProm (containersRunning dk (hDocker h)) = Some prom
    \<and> pickPort (dkFree dk (hDocker h)) (preferredPort (optGrafanaPort opts) claimedGraf DefaultGrafanaPort)
         DefaultGrafanaPort claimedGraf (containersRunning dk (hDocker h)) = Some graf
    \<and> e = buildEndpoints prom graf True now
    \<and> h' = h\<lparr>hCompose := Rendered \<lparr>cfPrometheusPort = prom, cfGrafanaPort = graf,
              cfAdminPassword = (if optPassword opts = [] then ''tmmscope'' else optPassword opts),
              cfHubPrefix = dockerHubPrefix (optMirror opts)\<rparr>,
            hDocker := d, hEndpoints := Written e\<rparr>
    \<and> ProjectDir join h \<noteq> None"
proof -
  obtain cp cg where c: "claimedPorts dk join h = (cp, cg)" by fastforce
  note up = assms [unfolded Up_def c Let_def prod.case]
  obtain dir where dir: "ProjectDir join h = Some dir" using up by (cases "ProjectDir join h") auto
  let ?pick = "\<lambda>o1 d1 c1. pickPort (dkFree dk (hDocker h)) (preferredPort o1 c1 d1) d1 c1 (containersRunning dk (hDocker h))"
  obtain prom where prom: "?pick (optPrometheusPort opts) DefaultPrometheusPort cp = Some prom"
    using up dir by (cases "?pick (optPrometheusPort opts) DefaultPrometheusPort cp") (auto split: if_splits)
  obtain graf where graf: "?pick (optGrafanaPort opts) DefaultGrafanaPort cg = Some graf"
    using up dir prom by (cases "?pick (optGrafanaPort opts) DefaultGrafanaPort cg") (auto split: if_splits)
  show ?thesis
    using up dir prom graf c
    by (auto simp: renderCompose_def compose_def writeEndpoints_def Let_def
        split: if_splits prod.splits write_outcome.splits)
qed

text \<open>The life of a host: \<open>up\<close> and \<open>down\<close> in any order and with any options, and whatever happens to
  the daemon and to the writes of files in between.\<close>

inductive stack_step :: "'d docker \<Rightarrow> (string list \<Rightarrow> string) \<Rightarrow> 'd host \<Rightarrow> 'd host \<Rightarrow> bool"
  for dk :: "'d docker" and join :: "string list \<Rightarrow> string" where
  up: "stack_step dk join h (snd (Up dk join now opts h))"
| down: "stack_step dk join h (snd (Down dk join now purge h))"
| outside: "stack_step dk join h (h\<lparr>hDocker := d, hMkdirAll := a, hTelemetry := b, hWriteCompose := c,
    hWriteEndpoints := w\<rparr>)"

text \<open>The discovery file, if it is there, is broken or consistent: every URL in it follows from its
  ports.\<close>

definition discovery_ok :: "'d host \<Rightarrow> bool" where
  "discovery_ok h =
     (case hEndpoints h of
        Written e \<Rightarrow> e = buildEndpoints (epPrometheusPort e) (epGrafanaPort e) (epRunning e) (epUpdatedAt e)
      | Unreadable \<Rightarrow> False
      | _ \<Rightarrow> True)"

lemma LoadEndpoints_Written: "LoadEndpoints join h = Some (Inr e) \<Longrightarrow> hEndpoints h = Written e"
  by (auto simp: LoadEndpoints_def split: option.splits discovery.splits)

lemma discovery_ok_frame [simp]:
  "discovery_ok (snd (compose dk args h)) \<longleftrightarrow> discovery_ok h"
  "discovery_ok (snd (renderCompose p g pw m h)) \<longleftrightarrow> discovery_ok h"
  by (simp_all add: discovery_ok_def compose_def renderCompose_def Let_def case_prod_beta split: write_outcome.split)

lemma discovery_ok_write:
  "discovery_ok h \<Longrightarrow> e = buildEndpoints (epPrometheusPort e) (epGrafanaPort e) (epRunning e) (epUpdatedAt e) \<Longrightarrow>
   discovery_ok (snd (writeEndpoints e h))"
  by (simp add: discovery_ok_def writeEndpoints_def split: write_outcome.split)

lemma buildEndpoints_sel [simp]:
  "epPrometheusPort (buildEndpoints p g r u) = p" "epGrafanaPort (buildEndpoints p g r u) = g"
  "epRunning (buildEndpoints p g r u) = r" "epUpdatedAt (buildEndpoints p g r u) = u"
  by (simp_all add: buildEndpoints_def)

lemma buildEndpoints_update:
  "(buildEndpoints p g r u)\<lparr>epRunning := r', epUpdatedAt := u'\<rparr> = buildEndpoints p g r' u'"
  by (simp add: buildEndpoints_def)

lemma Up_discovery: "discovery_ok h \<Longrightarrow> discovery_ok (snd (Up dk join now opts h))"
  by (simp add: Up_def Let_def case_prod_beta discovery_ok_write split: option.split)

lemma Down_discovery:
  assumes "discovery_ok h"
  shows "discovery_ok (snd (Down dk join now purge h))"
proof -
  let ?new = "\<lambda>e. e\<lparr>epRunning := False, epUpdatedAt := now\<rparr>"
  have new: "discovery_ok (snd (writeEndpoints (?new e) h1))"
    if "discovery_ok h1" "LoadEndpoints join h1 = Some (Inr e)" for h1 e
  proof (rule discovery_ok_write [OF that(1)])
    have "e = buildEndpoints (epPrometheusPort e) (epGrafanaPort e) (epRunning e) (epUpdatedAt e)"
      using that LoadEndpoints_Written [OF that(2)] by (simp add: discovery_ok_def)
    from arg_cong [OF this, of ?new]
    show "?new e = buildEndpoints (epPrometheusPort (?new e)) (epGrafanaPort (?new e)) (epRunning (?new e)) (epUpdatedAt (?new e))"
      by (simp add: buildEndpoints_update)
  qed
  have "discovery_ok (snd (writeEndpoints (?new e) (snd (compose dk args h))))"
    if "LoadEndpoints join (snd (compose dk args h)) = Some (Inr e)" for args e
    by (rule new [OF _ that]) (simp add: assms)
  then show ?thesis
    using assms by (simp add: Down_def Let_def case_prod_beta split: option.split sum.split)
qed

inductive_cases stack_stepE: "stack_step dk join h h'"

lemma stack_step_discovery: "stack_step dk join h h' \<Longrightarrow> discovery_ok h \<Longrightarrow> discovery_ok h'"
  by (erule stack_stepE) (auto simp: Up_discovery Down_discovery, simp add: discovery_ok_def)

lemma stack_reachable_discovery:
  "(stack_step dk join)\<^sup>*\<^sup>* h h' \<Longrightarrow> discovery_ok h \<Longrightarrow> discovery_ok h'"
  by (induction rule: rtranclp_induct) (auto intro: stack_step_discovery)

text \<open>A daemon and a host for the witnesses.\<close>

definition demo_docker :: "bool docker" where
  "demo_docker = \<lparr>
     dkOutput = (\<lambda>up args. if \<not> up then None
       else if hd args = ''inspect'' then Some (''true'' @ [CHR 0x0A] @ ''true'' @ [CHR 0x0A])
       else if args ! 1 = promContainer then Some (''0.0.0.0:9500'' @ [CHR 0x0A])
       else Some (''0.0.0.0:3007'' @ [CHR 0x0A])),
     dkFree = (\<lambda>up p. p \<noteq> 9491),
     dkCompose = (\<lambda>up file args. (True, hd args = ''up''))\<rparr>"

definition demo_host :: "bool \<Rightarrow> bool host" where
  "demo_host up = \<lparr>hXdg = [], hHome = Some ''/home/u'', hMkdirAll = True, hTelemetry = True,
     hWriteCompose = WroteAll, hWriteEndpoints = WroteAll, hEndpoints = Missing, hCompose = NoCompose, hDocker = up\<rparr>"

definition demo_options :: upOptions where
  "demo_options = \<lparr>optPrometheusPort = 0, optGrafanaPort = 0, optPassword = [], optMirror = []\<rparr>"

lemma demo_running: "containersRunning demo_docker True"
  by code_simp
lemma demo_down: "\<not> containersRunning demo_docker False"
  by code_simp
lemma demo_published: "publishedPort demo_docker True promContainer ''9090/tcp'' = 9500"
   "publishedPort demo_docker True grafContainer ''3000/tcp'' = 3007"
  by code_simp+
section \<open>Properties\<close>

text \<open>\<open>pickPort\<close> returns a port that is free or the running stack's own, the wanted one or one of
  the fifty from the default; it fails only when none of them can be used.\<close>

theorem pickPort_correct:
  "case pickPort free preferred start claimed ours of
     Some p \<Rightarrow> (free p \<or> (ours \<and> p = claimed)) \<and> p \<in> set (preferred # [start..start + 49])
   | None \<Rightarrow> list_all (\<lambda>p. \<not> free p \<and> \<not> (ours \<and> p = claimed)) (preferred # [start..start + 49])"
proof (cases "pickPort free preferred start claimed ours")
  case None
  then show ?thesis
    using pickPort_None [of free preferred start claimed ours] by (auto simp: acceptable_def list_all_iff)
next
  case (Some p)
  then show ?thesis using pickPort_Some [OF Some] by (auto simp: acceptable_def)
qed

text \<open>C22: \<open>up\<close> on a running stack moves no port: with no port flags it settles on the ports the
  containers publish, whatever else is bound on the host and whatever the discovery file says.\<close>

theorem Up_keeps_running_ports:
  assumes "containersRunning dk (hDocker h)"
    and "publishedPort dk (hDocker h) promContainer ''9090/tcp'' = p" and "p \<noteq> 0"
    and "publishedPort dk (hDocker h) grafContainer ''3000/tcp'' = g" and "g \<noteq> 0"
    and "optPrometheusPort opts = 0" and "optGrafanaPort opts = 0"
  shows "case Up dk join now opts h of
     (Inr e, h') \<Rightarrow> epPrometheusPort e = p \<and> epGrafanaPort e = g \<and> hEndpoints h' = Written e
   | (Inl e, h') \<Rightarrow> e \<notin> {NoPrometheusPort, NoGrafanaPort}"
proof -
  have c: "claimedPorts dk join h = (p, g)" using assms by (simp add: claimedPorts_def)
  have p: "pickPort f p d p True = Some p" for f p d by (simp add: pickPort_def)
  obtain r h' where r: "Up dk join now opts h = (r, h')" by fastforce
  show ?thesis
  proof (cases r)
    case (Inr e)
    from Up_Inr [OF r [unfolded Inr]] show ?thesis
      using assms c p r Inr by (auto simp: preferredPort_def buildEndpoints_def)
  next
    case (Inl err)
    have "err \<notin> {NoPrometheusPort, NoGrafanaPort}"
      using r assms c p unfolding Inl
      by (auto simp: Up_def preferredPort_def renderCompose_def compose_def writeEndpoints_def Let_def
          split: option.splits if_splits prod.splits write_outcome.splits)
    then show ?thesis using r Inl by simp
  qed
qed

theorem Up_keeps_running_ports_witness:
  "case Up demo_docker concat ''now'' demo_options (demo_host True) of
     (Inr e, h') \<Rightarrow> epPrometheusPort e = 9500 \<and> epGrafanaPort e = 3007 \<and> hEndpoints h' = Written e
   | (Inl e, h') \<Rightarrow> e \<notin> {NoPrometheusPort, NoGrafanaPort}"
  by (rule Up_keeps_running_ports)
     (simp_all add: demo_host_def demo_options_def demo_running demo_published)

text \<open>After a successful \<open>up\<close> the discovery file, the returned endpoints and the compose file
  name the same ports, and \<open>status\<close> reports them with the running flag of the daemon.\<close>

theorem Up_then_Status:
  "case Up dk join now opts h of
     (Inr e, h') \<Rightarrow> hEndpoints h' = Written e
       \<and> (case hCompose h' of
            Rendered cf \<Rightarrow> cfPrometheusPort cf = epPrometheusPort e \<and> cfGrafanaPort cf = epGrafanaPort e
          | _ \<Rightarrow> False)
       \<and> Status_stack dk join h' = Inr (e\<lparr>epRunning := containersRunning dk (hDocker h')\<rparr>)
   | _ \<Rightarrow> True"
proof -
  obtain r h' where r: "Up dk join now opts h = (r, h')" by fastforce
  show ?thesis
  proof (cases r)
    case (Inr e)
    from Up_Inr [OF r [unfolded Inr]] show ?thesis
      using r Inr by (auto simp: Status_stack_def LoadEndpoints_def endpointsPath_def buildEndpoints_def)
  qed (use r in simp)
qed

text \<open>With no port flags and nothing claimed the two services get different ports, each from
  its own range.\<close>

theorem Up_distinct_ports:
  assumes "claimedPorts dk join h = (0, 0)" and "\<not> containersRunning dk (hDocker h)"
    and "optPrometheusPort opts = 0" and "optGrafanaPort opts = 0"
  shows "case Up dk join now opts h of
     (Inr e, h') \<Rightarrow> epPrometheusPort e \<in> {9491..9540} \<and> epGrafanaPort e \<in> {3000..3049}
       \<and> epPrometheusPort e \<noteq> epGrafanaPort e
       \<and> dkFree dk (hDocker h) (epPrometheusPort e) \<and> dkFree dk (hDocker h) (epGrafanaPort e)
   | _ \<Rightarrow> True"
proof -
  obtain r h' where r: "Up dk join now opts h = (r, h')" by fastforce
  show ?thesis
  proof (cases r)
    case (Inr e)
    from Up_Inr [OF r [unfolded Inr]] show ?thesis
      using assms r Inr
      by (auto simp: buildEndpoints_def preferredPort_def DefaultPrometheusPort_def DefaultGrafanaPort_def
          acceptable_def dest!: pickPort_Some)
  qed (use r in simp)
qed

theorem Up_distinct_ports_witness:
  "case Up demo_docker concat ''now'' demo_options (demo_host False) of
     (Inr e, h') \<Rightarrow> epPrometheusPort e \<in> {9491..9540} \<and> epGrafanaPort e \<in> {3000..3049}
       \<and> epPrometheusPort e \<noteq> epGrafanaPort e
       \<and> dkFree demo_docker False (epPrometheusPort e) \<and> dkFree demo_docker False (epGrafanaPort e)
   | _ \<Rightarrow> True"
proof -
  have host: "hDocker (demo_host False) = False" by (simp add: demo_host_def)
  have "LoadEndpoints concat (demo_host False) \<noteq> Some (Inr e)" for e
    by (simp add: LoadEndpoints_def demo_host_def split: option.split)
  then have claimed: "claimedPorts demo_docker concat (demo_host False) = (0, 0)"
    by (auto simp: claimedPorts_def host demo_down split: option.split sum.split)
  show ?thesis
    by (rule Up_distinct_ports [OF claimed, unfolded host, OF demo_down]) (simp_all add: demo_options_def)
qed

text \<open>C24: in every state that \<open>up\<close> and \<open>down\<close>, the daemon and failing writes can reach from a
  directory without a discovery file, that file is missing, broken (no JSON value, after a write
  that failed half way) or consistent: all four of its URLs and the push path follow from its
  ports.\<close>

theorem discovery_consistent:
  assumes "(stack_step dk join)\<^sup>*\<^sup>* h h'" and "hEndpoints h = Missing"
  shows "case hEndpoints h' of
     Missing \<Rightarrow> True
   | Garbage \<Rightarrow> True
   | Unreadable \<Rightarrow> False
   | Written e \<Rightarrow> (let prom = ''http://localhost:'' @ FormatInt (epPrometheusPort e);
                    graf = ''http://localhost:'' @ FormatInt (epGrafanaPort e) in
       epPrometheusURL e = prom \<and> epRemoteWriteURL e = prom @ ''/api/v1/write'' \<and> epRemoteWritePath e = ''/api/v1/write''
       \<and> epGrafanaURL e = graf \<and> epDashboardURL e = graf @ ''/d/tmm-realtime'')"
proof -
  have "discovery_ok h'"
    using stack_reachable_discovery [OF assms(1)] assms(2) by (simp add: discovery_ok_def)
  moreover from this have "e = buildEndpoints (epPrometheusPort e) (epGrafanaPort e) (epRunning e) (epUpdatedAt e)"
    if "hEndpoints h' = Written e" for e using that by (simp add: discovery_ok_def)
  note fields = arg_cong [OF this, of _ epRemoteWriteURL] arg_cong [OF this, of _ epGrafanaURL]
    arg_cong [OF this, of _ epPrometheusURL] arg_cong [OF this, of _ epDashboardURL]
    arg_cong [OF this, of _ epRemoteWritePath]
  ultimately show ?thesis
    using fields by (auto simp: discovery_ok_def buildEndpoints_def remoteWritePath_def Let_def split: discovery.split)
qed

theorem discovery_consistent_witness:
  "let h = snd (Up demo_docker concat ''now'' demo_options (demo_host False)) in
   (case hEndpoints h of
     Missing \<Rightarrow> True
   | Garbage \<Rightarrow> True
   | Unreadable \<Rightarrow> False
   | Written e \<Rightarrow> epPrometheusURL e = ''http://localhost:'' @ FormatInt (epPrometheusPort e)
       \<and> epDashboardURL e = (''http://localhost:'' @ FormatInt (epGrafanaPort e)) @ ''/d/tmm-realtime'')"
  unfolding Let_def
proof -
  have "(stack_step demo_docker concat)\<^sup>*\<^sup>* (demo_host False)
      (snd (Up demo_docker concat ''now'' demo_options (demo_host False)))"
    by (intro r_into_rtranclp stack_step.up)
  moreover have "hEndpoints (demo_host False) = Missing" by (simp add: demo_host_def)
  ultimately show "case hEndpoints (snd (Up demo_docker concat ''now'' demo_options (demo_host False))) of
     Missing \<Rightarrow> True
   | Garbage \<Rightarrow> True
   | Unreadable \<Rightarrow> False
   | Written e \<Rightarrow> epPrometheusURL e = ''http://localhost:'' @ FormatInt (epPrometheusPort e)
       \<and> epDashboardURL e = (''http://localhost:'' @ FormatInt (epGrafanaPort e)) @ ''/d/tmm-realtime''"
    by (auto dest!: discovery_consistent simp: Let_def split: discovery.splits)
qed

text \<open>The registry cache: off never asks the daemon, auto falls back to a direct pull, on is an
  error when the cache is not up, and every other mode is refused.\<close>

theorem ResolveDockerHubMirror_modes:
  "ResolveDockerHubMirror dk d mode host =
     (let m = detectDockerHubMirror dk d (if host = [] then ''localhost'' else host) in
      if mode = ''off'' then Inr []
      else if mode = ''on'' then (if m = [] then Inl CacheNotRunning else Inr m)
      else if mode \<in> {''auto'', []} then Inr m
      else Inl (UnknownMode mode))"
  by (auto simp: ResolveDockerHubMirror_def Let_def)

end
