(* ===== verification/Inject.thy ===== *)
theory Inject
  imports GoJson Stack
begin

text \<open>
  Sidecar injection, internal/inject: the container specification (inject.go), the patch of the
  controller, the ephemeral container of a live pod (ephemeral.go), the admission webhook's
  deployment (webhook.go) and the probe of the cluster (probe.go). kubectl is not part of the
  program: its commands are parameters over a state \<open>'k\<close> of the cluster, in the record \<open>kubectl\<close>: a
  query gives its output and whether it succeeded, a command that changes the cluster gets its
  standard input and gives whether it succeeded and the new state.
\<close>

section \<open>Options\<close>

definition DefaultImage :: string where "DefaultImage = ''ghcr.io/mwiget/tmm-stat-exporter:latest''"
definition sidecarName :: string where "sidecarName = ''tmm-stat-exporter''"
definition tmstatVolume :: string where "tmstatVolume = ''f5tmstat''"
definition DSSMCertVolume :: string where "DSSMCertVolume = ''tls-tmm-mds-clt-volume''"
definition DSSMCertMount :: string where "DSSMCertMount = ''/tls/tmm/mds/clt''"

record options =
  oKubeconfig :: string
  oContext :: string
  oNamespace :: string
  oDeployment :: string
  oResourceKind :: string
  oCluster :: string
  oRemoteWriteURL :: string
  oImage :: string
  oWebhookImage :: string
  oDSSMCert :: bool

record 'k kubectl =
  kcOutput :: "'k \<Rightarrow> string list \<Rightarrow> string \<times> bool"
  kcRun :: "'k \<Rightarrow> string list \<Rightarrow> string \<Rightarrow> bool \<times> 'k"

definition configArgs :: "options \<Rightarrow> string list \<Rightarrow> string list" where
  "configArgs opt args =
     (if oKubeconfig opt \<noteq> [] then [''--kubeconfig'', oKubeconfig opt] else [])
     @ (if oContext opt \<noteq> [] then [''--context'', oContext opt] else []) @ args"

definition kubectlArgs :: "options \<Rightarrow> string list \<Rightarrow> string list" where
  "kubectlArgs opt args =
     (if oKubeconfig opt \<noteq> [] then [''--kubeconfig'', oKubeconfig opt] else [])
     @ (if oContext opt \<noteq> [] then [''--context'', oContext opt] else [])
     @ (if oNamespace opt \<noteq> [] then [''-n'', oNamespace opt] else []) @ args"

definition resourceKind :: "options \<Rightarrow> string" where
  "resourceKind opt = (if oResourceKind opt = [] then ''deployment'' else oResourceKind opt)"

definition namespace :: "options \<Rightarrow> string" where
  "namespace opt = (if oNamespace opt = [] then ''default'' else oNamespace opt)"

definition targetLabel :: "options \<Rightarrow> string \<times> string" where
  "targetLabel opt = (''app'', oDeployment opt)"

text \<open>The selector \<open>k + "=" + v\<close>.\<close>

definition selector :: "options \<Rightarrow> string" where
  "selector opt = (case targetLabel opt of (k, v) \<Rightarrow> k @ CHR ''='' # v)"

section \<open>The container\<close>

definition obj :: "(string \<times> json) list \<Rightarrow> json" where
  "obj kvs = JObj (mk kvs)"

definition downward :: "string \<Rightarrow> string \<Rightarrow> json" where
  "downward name path =
     obj [(''name'', JStr name), (''valueFrom'', obj [(''fieldRef'', obj [(''fieldPath'', JStr path)])])]"

definition sidecarMounts :: "options \<Rightarrow> json list" where
  "sidecarMounts opt =
     [obj [(''name'', JStr tmstatVolume), (''mountPath'', JStr ''/var/tmstat''), (''readOnly'', JBool True)]]
     @ (if oDSSMCert opt
        then [obj [(''name'', JStr DSSMCertVolume), (''mountPath'', JStr DSSMCertMount), (''readOnly'', JBool True)]]
        else [])"

definition externalLabels :: "string \<Rightarrow> string" where
  "externalLabels cluster = ''cluster='' @ cluster @ '',pod=$(POD_NAME),node=$(NODE_NAME)''"

definition SidecarSpec :: "options \<Rightarrow> (string \<times> json) list" where
  "SidecarSpec opt = mk
     [(''name'', JStr sidecarName),
      (''image'', JStr (oImage opt)),
      (''imagePullPolicy'', JStr ''IfNotPresent''),
      (''env'', JArr [
         downward ''POD_NAME'' ''metadata.name'',
         downward ''NODE_NAME'' ''spec.nodeName'',
         obj [(''name'', JStr ''TMSTAT_REMOTE_WRITE_URL''), (''value'', JStr (oRemoteWriteURL opt))],
         obj [(''name'', JStr ''TMSTAT_EXTERNAL_LABELS''), (''value'', JStr (externalLabels (oCluster opt)))]]),
      (''securityContext'', obj [
         (''runAsUser'', JNum 65532), (''runAsGroup'', JNum 65532), (''runAsNonRoot'', JBool True),
         (''readOnlyRootFilesystem'', JBool True), (''allowPrivilegeEscalation'', JBool False),
         (''capabilities'', obj [(''drop'', JArr [JStr ''ALL''])])]),
      (''resources'', obj [
         (''requests'', obj [(''cpu'', JStr ''50m''), (''memory'', JStr ''256Mi'')]),
         (''limits'', obj [(''cpu'', JStr ''50m''), (''memory'', JStr ''256Mi'')])]),
      (''volumeMounts'', JArr (sidecarMounts opt))]"

definition EphemeralSidecarSpec :: "options \<Rightarrow> (string \<times> json) list" where
  "EphemeralSidecarSpec opt = del ''resources'' (SidecarSpec opt)"

section \<open>Patching the controller\<close>

definition patch :: "'k kubectl \<Rightarrow> options \<Rightarrow> string \<Rightarrow> 'k \<Rightarrow> bool \<times> 'k" where
  "patch kc opt body k =
     kcRun kc k (kubectlArgs opt [''patch'', resourceKind opt, oDeployment opt, ''--type'', ''strategic'', ''-p'', body]) []"

definition hasTemplateVolume :: "'k kubectl \<Rightarrow> options \<Rightarrow> 'k \<Rightarrow> string \<Rightarrow> bool" where
  "hasTemplateVolume kc opt k vol =
     (case kcOutput kc k (kubectlArgs opt [''get'', resourceKind opt, oDeployment opt,
         ''-o'', ''jsonpath={.spec.template.spec.volumes[*].name}'']) of
        (out, ok) \<Rightarrow> if \<not> ok then False else vol \<in> set (Fields out))"

definition templatePatch :: "json \<Rightarrow> json" where
  "templatePatch container =
     obj [(''spec'', obj [(''template'', obj [(''spec'', obj [(''containers'', JArr [container])])])])]"

text \<open>\<open>Inject\<close>; the marshalling of the patch cannot fail.\<close>

definition Inject_patch :: "'k kubectl \<Rightarrow> options \<Rightarrow> 'k \<Rightarrow> bool \<times> 'k" where
  "Inject_patch kc opt k =
     (let opt = opt\<lparr>oDSSMCert := hasTemplateVolume kc opt k DSSMCertVolume\<rparr>
      in patch kc opt (marshal (templatePatch (JObj (SidecarSpec opt)))) k)"

definition ejectPatch :: string where
  \<open>ejectPatch = ''{"spec":{"template":{"spec":{"containers":[{"name":"'' @ sidecarName @ ''","$patch":"delete"}]}}}}''\<close>

definition Eject_patch :: "'k kubectl \<Rightarrow> options \<Rightarrow> 'k \<Rightarrow> bool \<times> 'k" where
  "Eject_patch kc opt k = patch kc opt ejectPatch k"

section \<open>Ephemeral containers\<close>

definition targetPodNames :: "'k kubectl \<Rightarrow> options \<Rightarrow> 'k \<Rightarrow> string list option" where
  "targetPodNames kc opt k =
     (case kcOutput kc k (kubectlArgs opt [''get'', ''pods'', ''-l'', selector opt,
         ''-o'', ''jsonpath={.items[*].metadata.name}'']) of
        (out, ok) \<Rightarrow> if \<not> ok then None else Some (Fields (TrimSpace out)))"

text \<open>Does a list of objects have one with this name?\<close>

definition named :: "string \<Rightarrow> json \<Rightarrow> bool" where
  "named name v =
     (case v of
        JObj m \<Rightarrow> (case map_of m ''name'' of Some (JStr s) \<Rightarrow> s | _ \<Rightarrow> []) = name
      | _ \<Rightarrow> False)"

definition hasNamed :: "json option \<Rightarrow> string \<Rightarrow> bool" where
  "hasNamed v name = (case v of Some (JArr xs) \<Rightarrow> list_ex (named name) xs | _ \<Rightarrow> False)"

datatype inject_error = GetPod | DecodePod | NoSpec | NoTmstat | AddFailed | ListFailed | NoPods
  | InPod string inject_error

text \<open>The pod read into a map: a JSON null leaves the map nil.\<close>

definition podMap :: "string \<Rightarrow> (string \<times> json) list option" where
  "podMap raw = (case Unmarshal raw of Some (JObj p) \<Rightarrow> Some p | Some JNull \<Rightarrow> Some [] | _ \<Rightarrow> None)"

definition withEphemeral :: "(string \<times> json) list \<Rightarrow> (string \<times> json) list \<Rightarrow> json \<Rightarrow> json" where
  "withEphemeral p spec container =
     JObj (ins ''spec'' (JObj (ins ''ephemeralContainers''
        (JArr ((case map_of spec ''ephemeralContainers'' of Some (JArr xs) \<Rightarrow> xs | _ \<Rightarrow> []) @ [container])) spec)) p)"

definition injectEphemeralInto :: "'k kubectl \<Rightarrow> options \<Rightarrow> string \<Rightarrow> 'k \<Rightarrow> (inject_error + bool) \<times> 'k" where
  "injectEphemeralInto kc opt pod k =
     (case kcOutput kc k (kubectlArgs opt [''get'', ''pod'', pod, ''-o'', ''json'']) of
        (raw, ok) \<Rightarrow>
        if \<not> ok then (Inl GetPod, k)
        else
          (case podMap raw of
             None \<Rightarrow> (Inl DecodePod, k)
           | Some p \<Rightarrow>
             (case map_of p ''spec'' of
                Some (JObj spec) \<Rightarrow>
                  if hasNamed (map_of spec ''containers'') sidecarName
                     \<or> hasNamed (map_of spec ''ephemeralContainers'') sidecarName then (Inr False, k)
                  else if \<not> hasNamed (map_of spec ''volumes'') tmstatVolume then (Inl NoTmstat, k)
                  else
                    (let opt' = opt\<lparr>oDSSMCert := hasNamed (map_of spec ''volumes'') DSSMCertVolume\<rparr>;
                         body = marshal (withEphemeral p spec (JObj (EphemeralSidecarSpec opt')));
                         path = ''/api/v1/namespaces/'' @ namespace opt @ ''/pods/'' @ pod @ ''/ephemeralcontainers'';
                         (done, k') = kcRun kc k (configArgs opt [''replace'', ''--raw'', path, ''-f'', ''-'']) body
                     in if \<not> done then (Inl AddFailed, k') else (Inr True, k'))
              | _ \<Rightarrow> (Inl NoSpec, k))))"

text \<open>One pod after the other, up to the first error; the result counts the pods added and skipped.\<close>

fun injectPods :: "'k kubectl \<Rightarrow> options \<Rightarrow> string list \<Rightarrow> nat \<Rightarrow> nat \<Rightarrow> 'k \<Rightarrow> (inject_error + nat \<times> nat) \<times> 'k" where
  "injectPods kc opt [] added skipped k = (Inr (added, skipped), k)"
| "injectPods kc opt (pod # pods) added skipped k =
     (case injectEphemeralInto kc opt pod k of
        (Inl err, k') \<Rightarrow> (Inl (InPod pod err), k')
      | (Inr True, k') \<Rightarrow> injectPods kc opt pods (Suc added) skipped k'
      | (Inr False, k') \<Rightarrow> injectPods kc opt pods added (Suc skipped) k')"

definition InjectEphemeral :: "'k kubectl \<Rightarrow> options \<Rightarrow> 'k \<Rightarrow> (inject_error + nat \<times> nat) \<times> 'k" where
  "InjectEphemeral kc opt k =
     (case targetPodNames kc opt k of
        None \<Rightarrow> (Inl ListFailed, k)
      | Some pods \<Rightarrow> if pods = [] then (Inl NoPods, k) else injectPods kc opt pods 0 0 k)"

text \<open>Whether token export will be on: a live pod or the template has the certificate volume.\<close>

definition podHasVolume :: "'k kubectl \<Rightarrow> options \<Rightarrow> 'k \<Rightarrow> string \<Rightarrow> bool" where
  "podHasVolume kc opt k pod =
     (case kcOutput kc k (kubectlArgs opt [''get'', ''pod'', pod, ''-o'', ''jsonpath={.spec.volumes[*].name}'']) of
        (out, ok) \<Rightarrow> ok \<and> DSSMCertVolume \<in> set (Fields out))"

definition DSSMAvailable :: "'k kubectl \<Rightarrow> options \<Rightarrow> 'k \<Rightarrow> bool" where
  "DSSMAvailable kc opt k =
     ((case targetPodNames kc opt k of Some pods \<Rightarrow> list_ex (podHasVolume kc opt k) pods | None \<Rightarrow> False)
      \<or> hasTemplateVolume kc opt k DSSMCertVolume)"

section \<open>The webhook's deployment\<close>

definition kubectl_run :: "'k kubectl \<Rightarrow> options \<Rightarrow> string list \<Rightarrow> 'k \<Rightarrow> bool \<times> 'k" where
  "kubectl_run kc opt args k = kcRun kc k (kubectlArgs opt args) []"

definition kubectlApply :: "'k kubectl \<Rightarrow> options \<Rightarrow> string \<Rightarrow> 'k \<Rightarrow> bool \<times> 'k" where
  "kubectlApply kc opt manifest k = kcRun kc k (kubectlArgs opt [''apply'', ''-f'', ''-'']) manifest"

definition kubectlClusterScoped :: "'k kubectl \<Rightarrow> options \<Rightarrow> string list \<Rightarrow> 'k \<Rightarrow> bool \<times> 'k" where
  "kubectlClusterScoped kc opt args k = kubectl_run kc (opt\<lparr>oNamespace := []\<rparr>) args k"

definition deleteTargetPods :: "'k kubectl \<Rightarrow> options \<Rightarrow> 'k \<Rightarrow> bool \<times> 'k" where
  "deleteTargetPods kc opt k = kubectl_run kc opt [''delete'', ''pod'', ''-l'', selector opt, ''--wait=false''] k"

definition EjectEphemeral :: "'k kubectl \<Rightarrow> options \<Rightarrow> 'k \<Rightarrow> bool \<times> 'k" where
  "EjectEphemeral kc opt k = deleteTargetPods kc opt k"

section \<open>Probing the cluster\<close>

datatype mode = ModeNone | ModeAuto | ModePatch | ModeWebhook

record probe =
  pFound :: bool
  pMode :: mode
  pKind :: string
  pResourceKind :: string
  pOwner :: string
  pContext :: string
  pServer :: string

definition resourceName :: "'k kubectl \<Rightarrow> options \<Rightarrow> 'k \<Rightarrow> string \<Rightarrow> string option" where
  "resourceName kc opt k kind =
     (case kcOutput kc k (kubectlArgs opt [''get'', kind, oDeployment opt, ''--ignore-not-found'',
         ''-o'', ''jsonpath={.metadata.name}'']) of
        (out, ok) \<Rightarrow> if ok then Some (TrimSpace out) else None)"

text \<open>\<open>ProbeCluster\<close>; \<open>None\<close> in the first component is no error, the error is a failed query.\<close>

definition ProbeCluster :: "'k kubectl \<Rightarrow> options \<Rightarrow> 'k \<Rightarrow> probe \<times> bool" where
  "ProbeCluster kc opt k =
     (let context = (if oContext opt \<noteq> [] then oContext opt
            else (case kcOutput kc k (configArgs opt [''config'', ''current-context'']) of
                    (out, ok) \<Rightarrow> if ok then TrimSpace out else []));
          server = (case kcOutput kc k (configArgs opt [''config'', ''view'', ''--minify'',
                       ''-o'', ''jsonpath={.clusters[0].cluster.server}'']) of
                    (out, ok) \<Rightarrow> if ok then TrimSpace out else []);
          p = \<lparr>pFound = False, pMode = ModeNone, pKind = [], pResourceKind = [], pOwner = [],
               pContext = context, pServer = server\<rparr>;
          classify = (\<lambda>kind.
            (let owner = TrimSpace (fst (kcOutput kc k (kubectlArgs opt [''get'', kind, oDeployment opt,
                   ''-o'', ''jsonpath={.metadata.ownerReferences[?(@.controller==true)].kind}''])))
             in p\<lparr>pFound := True, pResourceKind := kind, pOwner := owner,
                  pMode := (if owner \<noteq> [] then ModeWebhook else ModePatch),
                  pKind := (if owner \<noteq> [] then ''FLO/BNK (operator-managed, owned by '' @ owner @ '')''
                            else if kind = ''daemonset'' then ''standalone DaemonSet''
                            else ''tmmlite (standalone Deployment)'')\<rparr>))
      in case resourceName kc opt k ''deployment'' of
           None \<Rightarrow> (p, False)
         | Some name \<Rightarrow>
             if name \<noteq> [] then (classify ''deployment'', True)
             else (case resourceName kc opt k ''daemonset'' of
                     None \<Rightarrow> (p, False)
                   | Some name \<Rightarrow> if name \<noteq> [] then (classify ''daemonset'', True) else (p, True)))"

section \<open>The push URL\<close>

text \<open>\<open>gatewayOf\<close>: the .1 of the /24; \<open>None\<close> is the error.\<close>

definition gatewayOf :: "string \<Rightarrow> string option" where
  "gatewayOf ip =
     (let parts = Split CHR ''.'' (TrimSpace ip) in
      if length parts \<noteq> 4 then None
      else Some (parts ! 0 @ CHR ''.'' # parts ! 1 @ CHR ''.'' # parts ! 2 @ ''.1''))"

definition strElem :: "json \<Rightarrow> string option" where
  "strElem v = (case v of JNull \<Rightarrow> Some [] | JStr s \<Rightarrow> Some s | _ \<Rightarrow> None)"

record net =
  netInterface :: string
  netDefault :: bool
  netIPs :: "string list"

definition decodeNet :: "json \<Rightarrow> net option" where
  "decodeNet v =
     (case v of
        JNull \<Rightarrow> Some \<lparr>netInterface = [], netDefault = False, netIPs = []\<rparr>
      | JObj m \<Rightarrow>
          (case (strField m ''interface'', boolField m ''default'', sliceField strElem m ''ips'') of
             (Some i, Some d, Some ips) \<Rightarrow> Some \<lparr>netInterface = i, netDefault = d, netIPs = ips\<rparr>
           | _ \<Rightarrow> None)
      | _ \<Rightarrow> None)"

definition decodeNets :: "string \<Rightarrow> net list option" where
  "decodeNets s =
     (case Unmarshal s of
        Some JNull \<Rightarrow> Some [] | Some (JArr xs) \<Rightarrow> those (map decodeNet xs) | _ \<Rightarrow> None)"

fun firstGateway :: "net list \<Rightarrow> string option" where
  "firstGateway [] = None"
| "firstGateway (n # ns) =
     (if netDefault n \<or> netIPs n = [] then firstGateway ns
      else (case gatewayOf (hd (netIPs n)) of Some gw \<Rightarrow> Some gw | None \<Rightarrow> firstGateway ns))"

definition networkStatusPath :: string where
  "networkStatusPath = ''jsonpath={.items[0].metadata.annotations.k8s'' @ CHR 0x5C # ''.v1'' @ CHR 0x5C # ''.cni''
     @ CHR 0x5C # ''.cncf'' @ CHR 0x5C # ''.io/network-status}''"

definition multusGateway :: "'k kubectl \<Rightarrow> options \<Rightarrow> 'k \<Rightarrow> string option" where
  "multusGateway kc opt k =
     (case kcOutput kc k (kubectlArgs opt [''get'', ''pods'', ''-l'', ''app='' @ oDeployment opt, ''-o'', networkStatusPath]) of
        (out, ok) \<Rightarrow>
          if \<not> ok \<or> TrimSpace out = [] then None
          else (case decodeNets out of None \<Rightarrow> None | Some nets \<Rightarrow> firstGateway nets))"

definition nodeAddressPath :: string where
  \<open>nodeAddressPath = ''jsonpath={.status.addresses[?(@.type=="InternalIP")].address}''\<close>

definition nodeGateway :: "'k kubectl \<Rightarrow> options \<Rightarrow> 'k \<Rightarrow> string option" where
  "nodeGateway kc opt k =
     (case kcOutput kc k (kubectlArgs opt [''get'', ''pods'', ''-l'', ''app='' @ oDeployment opt,
         ''-o'', ''jsonpath={.items[0].spec.nodeName}'']) of
        (nodeOut, ok) \<Rightarrow>
          let node = TrimSpace nodeOut in
          if \<not> ok \<or> node = [] then None
          else (case kcOutput kc k (configArgs opt [''get'', ''node'', node, ''-o'', nodeAddressPath]) of
                  (ipOut, ok) \<Rightarrow>
                    if \<not> ok then None
                    else (case Fields (TrimSpace ipOut) of [] \<Rightarrow> None | ip # _ \<Rightarrow> gatewayOf ip)))"

definition DeriveRemoteWriteURL :: "'k kubectl \<Rightarrow> options \<Rightarrow> int \<Rightarrow> 'k \<Rightarrow> string option" where
  "DeriveRemoteWriteURL kc opt port k =
     (let url = (\<lambda>gw. ''http://'' @ gw @ '':'' @ FormatInt port @ ''/api/v1/write'') in
      case multusGateway kc opt k of
        Some gw \<Rightarrow> Some (url gw)
      | None \<Rightarrow> (case nodeGateway kc opt k of Some gw \<Rightarrow> Some (url gw) | None \<Rightarrow> None))"

text \<open>The URL depends on the selection of the target only.\<close>

lemma args_frame:
  "kubectlArgs (opt\<lparr>oResourceKind := x\<rparr>) = kubectlArgs opt" "kubectlArgs (opt\<lparr>oCluster := x\<rparr>) = kubectlArgs opt"
  "configArgs (opt\<lparr>oResourceKind := x\<rparr>) = configArgs opt" "configArgs (opt\<lparr>oCluster := x\<rparr>) = configArgs opt"
  "oDeployment (opt\<lparr>oResourceKind := x\<rparr>) = oDeployment opt" "oDeployment (opt\<lparr>oCluster := x\<rparr>) = oDeployment opt"
  by (simp_all add: kubectlArgs_def configArgs_def fun_eq_iff)

lemma DeriveRemoteWriteURL_frame [simp]:
  "DeriveRemoteWriteURL kc (opt\<lparr>oResourceKind := kind\<rparr>) port k = DeriveRemoteWriteURL kc opt port k"
  "DeriveRemoteWriteURL kc (opt\<lparr>oCluster := cluster\<rparr>) port k = DeriveRemoteWriteURL kc opt port k"
proof -
  have "multusGateway kc (opt\<lparr>oResourceKind := kind\<rparr>) k = multusGateway kc opt k"
    "multusGateway kc (opt\<lparr>oCluster := cluster\<rparr>) k = multusGateway kc opt k"
    "nodeGateway kc (opt\<lparr>oResourceKind := kind\<rparr>) k = nodeGateway kc opt k"
    "nodeGateway kc (opt\<lparr>oCluster := cluster\<rparr>) k = nodeGateway kc opt k"
    unfolding multusGateway_def nodeGateway_def by (simp_all only: args_frame)
  then show "DeriveRemoteWriteURL kc (opt\<lparr>oResourceKind := kind\<rparr>) port k = DeriveRemoteWriteURL kc opt port k"
    "DeriveRemoteWriteURL kc (opt\<lparr>oCluster := cluster\<rparr>) port k = DeriveRemoteWriteURL kc opt port k"
    by (simp_all only: DeriveRemoteWriteURL_def)
qed

section \<open>What is sent\<close>

lemma SidecarSpec_sorted: "SidecarSpec opt =
     [(''env'', JArr [
         downward ''POD_NAME'' ''metadata.name'',
         downward ''NODE_NAME'' ''spec.nodeName'',
         obj [(''name'', JStr ''TMSTAT_REMOTE_WRITE_URL''), (''value'', JStr (oRemoteWriteURL opt))],
         obj [(''name'', JStr ''TMSTAT_EXTERNAL_LABELS''), (''value'', JStr (externalLabels (oCluster opt)))]]),
      (''image'', JStr (oImage opt)),
      (''imagePullPolicy'', JStr ''IfNotPresent''),
      (''name'', JStr sidecarName),
      (''resources'', obj [
         (''requests'', obj [(''cpu'', JStr ''50m''), (''memory'', JStr ''256Mi'')]),
         (''limits'', obj [(''cpu'', JStr ''50m''), (''memory'', JStr ''256Mi'')])]),
      (''securityContext'', obj [
         (''runAsUser'', JNum 65532), (''runAsGroup'', JNum 65532), (''runAsNonRoot'', JBool True),
         (''readOnlyRootFilesystem'', JBool True), (''allowPrivilegeEscalation'', JBool False),
         (''capabilities'', obj [(''drop'', JArr [JStr ''ALL''])])]),
      (''volumeMounts'', JArr (sidecarMounts opt))]"
  by (simp add: SidecarSpec_def mk_def)

lemma json_ok_obj: "list_all (\<lambda>(k, v). json_ok d v) kvs \<Longrightarrow> json_ok (Suc d) (obj kvs)"
  using set_mk [of kvs] by (auto simp: obj_def list_all_iff)

lemma SidecarSpec_json_ok: "json_ok (Suc (Suc (Suc (Suc (Suc d))))) (JObj (SidecarSpec opt))"
  by (auto simp: SidecarSpec_sorted downward_def sidecarMounts_def num_ok_small intro!: json_ok_obj)

lemma Ephemeral_json_ok: "json_ok (Suc (Suc (Suc (Suc (Suc d))))) (JObj (EphemeralSidecarSpec opt))"
  using SidecarSpec_json_ok [of d opt]
  by (simp add: EphemeralSidecarSpec_def del_def list_all_iff)

text \<open>The container after the way through JSON.\<close>

lemma container_norm:
  "\<exists>m. norm (JObj (SidecarSpec opt)) = JObj m \<and> map_of m ''name'' = Some (JStr sidecarName)
     \<and> map_of m ''volumeMounts'' = Some (JArr (sidecarMounts opt))"
  "\<exists>m. norm (JObj (EphemeralSidecarSpec opt)) = JObj m \<and> map_of m ''name'' = Some (JStr sidecarName)
     \<and> map_of m ''volumeMounts'' = Some (JArr (sidecarMounts opt))"
  by (simp_all add: SidecarSpec_sorted EphemeralSidecarSpec_def del_def mk_def coerce_plain sidecarMounts_def obj_def
      sidecarName_def tmstatVolume_def DSSMCertVolume_def DSSMCertMount_def)

section \<open>Reading and changing the pod\<close>

lemma map_norm_ins:
  assumes "\<And>k v. (k, v) \<in> set m \<Longrightarrow> coerce k = k \<and> norm v = v" and "coerce k = k"
  shows "map (\<lambda>(k, v). (coerce k, norm v)) (ins k v m) = ins k (norm v) m"
  using assms(1)
proof (induction m)
  case (Cons e m)
  obtain k' v' where e: "e = (k', v')" by fastforce
  have k': "coerce k' = k'" "norm v' = v'" using Cons.prems e by auto
  have "map (\<lambda>(k, v). (coerce k, norm v)) m = m" using Cons.prems by (intro map_idI) auto
  moreover have "map (\<lambda>(k, v). (coerce k, norm v)) (ins k v m) = ins k (norm v) m"
    by (rule Cons.IH) (use Cons.prems in auto)
  ultimately show ?case using k' assms(2) by (simp add: e)
qed (simp add: assms(2))

lemma read_ok_ins:
  assumes m: "read_ok d (JObj m)" and k: "coerce k = k" and v: "json_ok (d - 1) v"
  shows "json_ok d (JObj (ins k v m))" and "norm (JObj (ins k v m)) = JObj (ins k (norm v) m)"
proof -
  have f: "coerce k = k \<and> norm v = v \<and> json_ok (d - 1) v" if "(k, v) \<in> set m" for k v
    using m that read_ok_norm [of "d - 1" v] by (auto simp: list_all_iff)
  then have "norm (JObj (ins k v m)) = JObj (mk (ins k (norm v) m))"
    using map_norm_ins [of m k v] k by simp
  then show "norm (JObj (ins k v m)) = JObj (ins k (norm v) m)"
    using ins_sorted [of m k "norm v"] m by (simp add: mk_sorted_id)
  show "json_ok d (JObj (ins k v m))"
    using m v f set_ins [of k v m] by (fastforce simp: list_all_iff)
qed

lemma withEphemeral_body:
  assumes "read_ok 10000 (JObj p)" and "map_of p ''spec'' = Some (JObj spec)" and c: "json_ok 9997 c"
  shows "Unmarshal (marshal (withEphemeral p spec c)) = Some (withEphemeral p spec (norm c))"
proof -
  let ?xs = "case map_of spec ''ephemeralContainers'' of Some (JArr xs) \<Rightarrow> xs | _ \<Rightarrow> []"
  have spec: "read_ok 9999 (JObj spec)" using read_ok_lookup [OF assms(1,2)] by simp
  have xs: "list_all (read_ok 9997) ?xs"
    using read_ok_lookup [OF spec, of "''ephemeralContainers''"]
    by (auto split: option.split json.split)
  then have xs': "list_all (json_ok 9997) ?xs" "map norm ?xs = ?xs"
  proof -
    have "json_ok 9997 x \<and> norm x = x" if "x \<in> set ?xs" for x
      using xs that read_ok_norm [of 9997 x] by (simp only: list_all_iff)
    then show "list_all (json_ok 9997) ?xs" "map norm ?xs = ?xs"
      by (simp only: list_all_iff, intro ballI, blast, intro map_idI, blast)
  qed
  have keys: "coerce ''spec'' = ''spec''" "coerce ''ephemeralContainers'' = ''ephemeralContainers''"
    by (simp_all add: coerce_plain)
  have arr: "json_ok 9998 (JArr (?xs @ [c]))" "norm (JArr (?xs @ [c])) = JArr (?xs @ [norm c])"
    using xs' c by simp_all
  let ?spec' = "\<lambda>c. JObj (ins ''ephemeralContainers'' (JArr (?xs @ [c])) spec)"
  have s: "json_ok 9999 (?spec' c)" "norm (?spec' c) = ?spec' (norm c)"
    using read_ok_ins [OF spec keys(2), of "JArr (?xs @ [c])"] arr by (simp_all del: norm.simps json_ok.simps)
  have "json_ok 10000 (withEphemeral p spec c)" "norm (withEphemeral p spec c) = withEphemeral p spec (norm c)"
    using read_ok_ins [OF assms(1) keys(1), of "?spec' c"] s
    by (simp_all add: withEphemeral_def del: norm.simps json_ok.simps)
  then show ?thesis using Unmarshal_marshal [of "withEphemeral p spec c" "[]"] by simp
qed

lemma withEphemeral_lookup:
  assumes "read_ok 10000 (JObj p)" and "map_of p ''spec'' = Some (JObj spec)"
  shows "\<exists>p' spec'. withEphemeral p spec c = JObj p' \<and> map_of p' = (map_of p)(''spec'' \<mapsto> JObj spec')
    \<and> map_of spec' = (map_of spec)(''ephemeralContainers'' \<mapsto>
        JArr ((case map_of spec ''ephemeralContainers'' of Some (JArr xs) \<Rightarrow> xs | _ \<Rightarrow> []) @ [c]))"
proof -
  have "keys_sorted p" "keys_sorted spec"
    using assms(1) read_ok_lookup [OF assms] by simp_all
  then show ?thesis unfolding withEphemeral_def by (auto simp: map_of_ins)
qed

lemma named_container: "named sidecarName (norm (JObj (EphemeralSidecarSpec opt)))"
  "named sidecarName (norm (JObj (SidecarSpec opt)))"
  using container_norm [of opt] by (auto simp: named_def)

definition getPodArgs :: "options \<Rightarrow> string \<Rightarrow> string list" where
  "getPodArgs opt pod = kubectlArgs opt [''get'', ''pod'', pod, ''-o'', ''json'']"

definition replaceArgs :: "options \<Rightarrow> string \<Rightarrow> string list" where
  "replaceArgs opt pod = configArgs opt [''replace'', ''--raw'',
     ''/api/v1/namespaces/'' @ namespace opt @ ''/pods/'' @ pod @ ''/ephemeralcontainers'', ''-f'', ''-'']"

definition forPod :: "options \<Rightarrow> (string \<times> json) list \<Rightarrow> options" where
  "forPod opt spec = opt\<lparr>oDSSMCert := hasNamed (map_of spec ''volumes'') DSSMCertVolume\<rparr>"

lemma injectEphemeralInto_added:
  assumes "injectEphemeralInto kc opt pod k = (Inr True, k')"
  obtains raw p spec where "kcOutput kc k (getPodArgs opt pod) = (raw, True)"
    and "Unmarshal raw = Some (JObj p)" and "map_of p ''spec'' = Some (JObj spec)"
    and "hasNamed (map_of spec ''volumes'') tmstatVolume"
    and "kcRun kc k (replaceArgs opt pod)
           (marshal (withEphemeral p spec (JObj (EphemeralSidecarSpec (forPod opt spec))))) = (True, k')"
proof -
  obtain raw ok where out: "kcOutput kc k (getPodArgs opt pod) = (raw, ok)" by fastforce
  note inj = assms [unfolded injectEphemeralInto_def getPodArgs_def [symmetric] out prod.case]
  obtain p where p: "podMap raw = Some p" and ok using inj by (auto split: if_splits option.splits)
  obtain spec where spec: "map_of p ''spec'' = Some (JObj spec)"
    using inj p \<open>ok\<close> by (auto split: option.splits json.splits)
  then have "Unmarshal raw = Some (JObj p)" using p by (auto simp: podMap_def split: option.splits json.splits)
  moreover have "hasNamed (map_of spec ''volumes'') tmstatVolume"
    "kcRun kc k (replaceArgs opt pod)
       (marshal (withEphemeral p spec (JObj (EphemeralSidecarSpec (forPod opt spec))))) = (True, k')"
    using inj p spec \<open>ok\<close> by (auto simp: replaceArgs_def forPod_def Let_def split: if_splits prod.splits)
  ultimately show thesis using that out \<open>ok\<close> spec by simp
qed

lemma injectPods_total:
  "injectPods kc opt pods a s k = (Inr (a', s'), k') \<Longrightarrow> a' + s' = a + s + length pods"
  by (induction pods arbitrary: a s k) (auto split: sum.splits prod.splits bool.splits)

text \<open>A cluster that only keeps a log of the commands that change it.\<close>

definition logging :: "(string list \<Rightarrow> string \<times> bool) \<Rightarrow> (string list \<Rightarrow> bool) \<Rightarrow> string list list kubectl" where
  "logging out ok = \<lparr>kcOutput = (\<lambda>k. out), kcRun = (\<lambda>k args stdin. (ok args, k @ [args]))\<rparr>"

section \<open>Properties\<close>

text \<open>C10: ephemeral injection into a pod sends, when it adds the exporter, one request whose body reads
  as the pod with the exporter appended to its ephemeral containers and nothing else changed, every
  volume the container mounts being one the pod has; a pod that is skipped, and every failure
  before the request, leaves the cluster as it was.\<close>

theorem injectEphemeralInto_sends:
  "case injectEphemeralInto kc opt pod k of
     (Inr True, k') \<Rightarrow> (\<exists>raw p spec body.
         kcOutput kc k (getPodArgs opt pod) = (raw, True) \<and> Unmarshal raw = Some (JObj p)
         \<and> map_of p ''spec'' = Some (JObj spec)
         \<and> kcRun kc k (replaceArgs opt pod) body = (True, k')
         \<and> Unmarshal body = Some (withEphemeral p spec (norm (JObj (EphemeralSidecarSpec (forPod opt spec)))))
         \<and> list_all (\<lambda>m. list_ex (\<lambda>n. named n m \<and> hasNamed (map_of spec ''volumes'') n) [tmstatVolume, DSSMCertVolume])
             (sidecarMounts (forPod opt spec)))
   | (Inr False, k') \<Rightarrow> k' = k
   | (Inl err, k') \<Rightarrow> err = AddFailed \<or> k' = k"
proof -
  obtain r k' where r: "injectEphemeralInto kc opt pod k = (r, k')" by fastforce
  show ?thesis
  proof (cases "r = Inr True")
    case True
    from injectEphemeralInto_added [OF r [unfolded True]] obtain raw p spec
      where 1: "kcOutput kc k (getPodArgs opt pod) = (raw, True)" "Unmarshal raw = Some (JObj p)"
        "map_of p ''spec'' = Some (JObj spec)" and vol: "hasNamed (map_of spec ''volumes'') tmstatVolume"
        and run: "kcRun kc k (replaceArgs opt pod)
           (marshal (withEphemeral p spec (JObj (EphemeralSidecarSpec (forPod opt spec))))) = (True, k')" by blast
    have "json_ok 9997 (JObj (EphemeralSidecarSpec (forPod opt spec)))"
      using Ephemeral_json_ok [of 9992 "forPod opt spec"] by simp
    note body = withEphemeral_body [OF Unmarshal_ok [OF 1(2)] 1(3) this]
    have "list_all (\<lambda>m. list_ex (\<lambda>n. named n m \<and> hasNamed (map_of spec ''volumes'') n) [tmstatVolume, DSSMCertVolume])
        (sidecarMounts (forPod opt spec))"
      using vol by (simp add: sidecarMounts_def forPod_def named_def obj_def mk_def)
    then show ?thesis using r True 1 run body by auto
  next
    case False
    have "r = Inl AddFailed \<or> k' = k"
      using r False by (auto simp: injectEphemeralInto_def Let_def split: prod.splits if_splits option.splits json.splits)
    then show ?thesis using r False by (cases r) auto
  qed
qed

text \<open>What the API server keeps of a replaced \<open>ephemeralcontainers\<close> subresource: when the request
  succeeds, the pod read afterwards is a JSON pod whose ephemeral containers include, by name, those
  that were sent. The server may set defaults in them, change any other field and honour nothing
  else of the body.\<close>

definition keeps_ephemeral :: "'k kubectl \<Rightarrow> options \<Rightarrow> string \<Rightarrow> 'k \<Rightarrow> 'k \<Rightarrow> bool" where
  "keeps_ephemeral kc opt pod k k1 \<longleftrightarrow>
     (\<forall>body p spec xs. kcRun kc k (replaceArgs opt pod) body = (True, k1) \<longrightarrow> Unmarshal body = Some (JObj p) \<longrightarrow>
        map_of p ''spec'' = Some (JObj spec) \<longrightarrow> map_of spec ''ephemeralContainers'' = Some (JArr xs) \<longrightarrow>
        (\<exists>raw p' spec' ys. kcOutput kc k1 (getPodArgs opt pod) = (raw, True) \<and> Unmarshal raw = Some (JObj p')
           \<and> map_of p' ''spec'' = Some (JObj spec') \<and> map_of spec' ''ephemeralContainers'' = Some (JArr ys)
           \<and> (\<forall>name. list_ex (named name) xs \<longrightarrow> list_ex (named name) ys)))"

text \<open>C20: injecting twice is injecting once: when the API server keeps the ephemeral containers it
  accepted, by their names, a second run on the pod skips it and changes nothing.\<close>

theorem injectEphemeral_idempotent:
  assumes "injectEphemeralInto kc opt pod k = (Inr True, k1)" and "keeps_ephemeral kc opt pod k k1"
  shows "injectEphemeralInto kc opt pod k1 = (Inr False, k1)"
proof -
  from injectEphemeralInto_added [OF assms(1)] obtain raw p spec
    where 1: "Unmarshal raw = Some (JObj p)" "map_of p ''spec'' = Some (JObj spec)"
      and run: "kcRun kc k (replaceArgs opt pod)
         (marshal (withEphemeral p spec (JObj (EphemeralSidecarSpec (forPod opt spec))))) = (True, k1)" by blast
  let ?c = "norm (JObj (EphemeralSidecarSpec (forPod opt spec)))"
  let ?xs = "case map_of spec ''ephemeralContainers'' of Some (JArr xs) \<Rightarrow> xs | _ \<Rightarrow> []"
  have "json_ok 9997 (JObj (EphemeralSidecarSpec (forPod opt spec)))"
    using Ephemeral_json_ok [of 9992 "forPod opt spec"] by simp
  note body = withEphemeral_body [OF Unmarshal_ok [OF 1(1)] 1(2) this]
  obtain p' spec' where p': "withEphemeral p spec ?c = JObj p'" "map_of p' ''spec'' = Some (JObj spec')"
    and e: "map_of spec' ''ephemeralContainers'' = Some (JArr (?xs @ [?c]))"
    using withEphemeral_lookup [OF Unmarshal_ok [OF 1(1)] 1(2), of ?c] by fastforce
  have "list_ex (named sidecarName) (?xs @ [?c])" using named_container by simp
  with assms(2) run body [unfolded p'(1)] p'(2) e
  obtain out q qspec ys where q: "kcOutput kc k1 (getPodArgs opt pod) = (out, True)" "Unmarshal out = Some (JObj q)"
    "map_of q ''spec'' = Some (JObj qspec)" "map_of qspec ''ephemeralContainers'' = Some (JArr ys)"
    "list_ex (named sidecarName) ys"
    unfolding keeps_ephemeral_def by blast
  then have "hasNamed (map_of qspec ''ephemeralContainers'') sidecarName" "podMap out = Some q"
    by (simp_all add: hasNamed_def podMap_def)
  then show ?thesis using q by (simp add: injectEphemeralInto_def getPodArgs_def [symmetric])
qed

definition demo_pod :: json where
  "demo_pod = JObj [(''spec'', JObj [(''volumes'', JArr [JObj [(''name'', JStr tmstatVolume)]])])]"

definition demo_opts :: options where
  "demo_opts = \<lparr>oKubeconfig = [], oContext = ''lab'', oNamespace = ''default'', oDeployment = ''f5-tmm'', oResourceKind = [],
     oCluster = ''lab'', oRemoteWriteURL = ''http://10.0.0.1:9491/api/v1/write'', oImage = DefaultImage,
     oWebhookImage = [], oDSSMCert = False\<rparr>"

text \<open>A cluster of one pod, whose server honours only the ephemeral containers of a request and sets
  a default in each of them.\<close>

definition withDefault :: "json \<Rightarrow> json" where
  "withDefault x = (case x of JObj m \<Rightarrow> JObj (ins ''imagePullPolicy'' (JStr ''IfNotPresent'') m) | v \<Rightarrow> v)"

definition podSpec :: "string \<Rightarrow> ((string \<times> json) list \<times> (string \<times> json) list) option" where
  "podSpec s =
     (case Unmarshal s of
        Some (JObj p) \<Rightarrow> (case map_of p ''spec'' of Some (JObj spec) \<Rightarrow> Some (p, spec) | _ \<Rightarrow> None)
      | _ \<Rightarrow> None)"

definition one_pod :: "string kubectl" where
  "one_pod = \<lparr>kcOutput = (\<lambda>k args. (k, True)),
     kcRun = (\<lambda>k args body.
       case (podSpec k, podSpec body) of
         (Some (p, spec), Some (_, new)) \<Rightarrow>
           (case map_of new ''ephemeralContainers'' of
              Some (JArr xs) \<Rightarrow> (True, marshal (JObj (ins ''spec''
                (JObj (ins ''ephemeralContainers'' (JArr (map withDefault xs)) spec)) p)))
            | _ \<Rightarrow> (False, k))
       | _ \<Rightarrow> (False, k))\<rparr>"

lemma withDefault_ok:
  assumes "read_ok d x"
  shows "json_ok d (withDefault x)" and "named name x \<Longrightarrow> named name (norm (withDefault x))"
proof -
  have k: "coerce ''imagePullPolicy'' = ''imagePullPolicy''" by (simp add: coerce_plain)
  show "json_ok d (withDefault x)"
    using assms read_ok_norm [OF assms] read_ok_ins(1) [OF _ k, of d _ "JStr ''IfNotPresent''"]
    by (cases x) (simp_all add: withDefault_def del: read_ok.simps(5))
  assume n: "named name x"
  then obtain m where x: "x = JObj m" by (cases x) (simp_all add: named_def)
  have "keys_sorted m" using assms x by simp
  then show "named name (norm (withDefault x))"
    using n read_ok_ins(2) [OF assms [unfolded x] k, of "JStr ''IfNotPresent''"]
    by (simp add: x withDefault_def named_def map_of_ins del: norm.simps)
qed

lemma one_pod_keeps: "keeps_ephemeral one_pod opt pod k k1"
  unfolding keeps_ephemeral_def
proof (intro allI impI)
  fix body q new xs
  assume run: "kcRun one_pod k (replaceArgs opt pod) body = (True, k1)" and body: "Unmarshal body = Some (JObj q)"
    "map_of q ''spec'' = Some (JObj new)" "map_of new ''ephemeralContainers'' = Some (JArr xs)"
  obtain p spec where k: "podSpec k = Some (p, spec)" using run by (auto simp: one_pod_def split: option.splits)
  then have p: "Unmarshal k = Some (JObj p)" "map_of p ''spec'' = Some (JObj spec)"
    by (auto simp: podSpec_def split: option.splits json.splits)
  have k1: "k1 = marshal (JObj (ins ''spec'' (JObj (ins ''ephemeralContainers'' (JArr (map withDefault xs)) spec)) p))"
    using run k body by (simp add: one_pod_def podSpec_def)
  note pok = Unmarshal_ok [OF p(1)] and qok = Unmarshal_ok [OF body(1)]
  have sok: "read_ok 9999 (JObj spec)" using read_ok_lookup [OF pok p(2)] by simp
  have "read_ok 9999 (JObj new)" using read_ok_lookup [OF qok body(2)] by simp
  from read_ok_lookup [OF this body(3)] have xs: "list_all (read_ok 9997) xs" by simp
  have keys: "coerce ''spec'' = ''spec''" "coerce ''ephemeralContainers'' = ''ephemeralContainers''"
    by (simp_all add: coerce_plain)
  have "json_ok 9998 (JArr (map withDefault xs))"
    using xs withDefault_ok(1) by (simp add: list_all_iff)
  note inner = read_ok_ins [OF sok keys(2), of "JArr (map withDefault xs)"] this
  let ?spec = "ins ''ephemeralContainers'' (norm (JArr (map withDefault xs))) spec"
  note outer = read_ok_ins [OF pok keys(1), of "JObj (ins ''ephemeralContainers'' (JArr (map withDefault xs)) spec)"]
  have "Unmarshal k1 = Some (JObj (ins ''spec'' (JObj ?spec) p))"
    using Unmarshal_marshal [OF outer(1), of "[]"] outer(2) inner by (simp add: k1 del: norm.simps json_ok.simps)
  moreover have "map_of (ins ''spec'' (JObj ?spec) p) ''spec'' = Some (JObj ?spec)"
    "map_of ?spec ''ephemeralContainers'' = Some (JArr (map (norm \<circ> withDefault) xs))"
    using pok sok by (simp_all add: map_of_ins)
  moreover have "list_ex (named name) (map (norm \<circ> withDefault) xs)" if n: "list_ex (named name) xs" for name
  proof -
    obtain x where x: "x \<in> set xs" "named name x" using n by (auto simp: list_ex_iff)
    then have "read_ok 9997 x" using xs by (simp only: list_all_iff)
    from withDefault_ok(2) [OF this x(2)] show ?thesis using x(1) by (auto simp: list_ex_iff)
  qed
  ultimately show "\<exists>raw p' spec' ys. kcOutput one_pod k1 (getPodArgs opt pod) = (raw, True) \<and> Unmarshal raw = Some (JObj p')
      \<and> map_of p' ''spec'' = Some (JObj spec') \<and> map_of spec' ''ephemeralContainers'' = Some (JArr ys)
      \<and> (\<forall>name. list_ex (named name) xs \<longrightarrow> list_ex (named name) ys)"
    by (auto simp: one_pod_def)
qed

lemma demo_pod_read: "Unmarshal (marshal demo_pod) = Some demo_pod"
  by (rule Unmarshal_again) (simp add: demo_pod_def coerce_plain tmstatVolume_def)

lemma demo_pod_added: "fst (injectEphemeralInto one_pod demo_opts ''tmm-0'' (marshal demo_pod)) = Inr True"
proof -
  let ?spec = "[(''volumes'', JArr [JObj [(''name'', JStr tmstatVolume)]])]"
  have spec: "map_of [(''spec'', JObj ?spec)] ''spec'' = Some (JObj ?spec)" by simp
  have ok: "read_ok 10000 (JObj [(''spec'', JObj ?spec)])"
    using Unmarshal_ok [OF demo_pod_read [unfolded demo_pod_def]] .
  have "json_ok 9997 (JObj (EphemeralSidecarSpec opt))" for opt
    using Ephemeral_json_ok [of 9992 opt] by simp
  note body = withEphemeral_body [OF ok spec this]
  have "podSpec (marshal (withEphemeral [(''spec'', JObj ?spec)] ?spec (JObj (EphemeralSidecarSpec opt))))
      = Some ([(''spec'', JObj (ins ''ephemeralContainers'' (JArr [norm (JObj (EphemeralSidecarSpec opt))]) ?spec))],
          ins ''ephemeralContainers'' (JArr [norm (JObj (EphemeralSidecarSpec opt))]) ?spec)" for opt
    unfolding podSpec_def body by (simp add: withEphemeral_def del: norm.simps)
  moreover have "podSpec (marshal demo_pod) = Some ([(''spec'', JObj ?spec)], ?spec)"
    by (simp add: podSpec_def demo_pod_read) (simp add: demo_pod_def)
  ultimately show ?thesis
    by (simp add: injectEphemeralInto_def podMap_def one_pod_def demo_pod_read)
       (simp add: demo_pod_def hasNamed_def named_def sidecarName_def tmstatVolume_def Let_def del: norm.simps)
qed

theorem injectEphemeral_idempotent_witness:
  "case injectEphemeralInto one_pod demo_opts ''tmm-0'' (marshal demo_pod) of
     (Inr added, k1) \<Rightarrow> added \<and> injectEphemeralInto one_pod demo_opts ''tmm-0'' k1 = (Inr False, k1)
   | (Inl err, k1) \<Rightarrow> False"
proof -
  obtain k1 where k1: "injectEphemeralInto one_pod demo_opts ''tmm-0'' (marshal demo_pod) = (Inr True, k1)"
    using demo_pod_added by (metis prod.collapse)
  moreover have "injectEphemeralInto one_pod demo_opts ''tmm-0'' k1 = (Inr False, k1)"
    by (rule injectEphemeral_idempotent [OF k1 one_pod_keeps])
  ultimately show ?thesis by simp
qed

text \<open>A run over all pods that succeeds has visited every pod of the deployment: those it added
  and those that were instrumented already add up.\<close>

theorem InjectEphemeral_counts:
  "case InjectEphemeral kc opt k of
     (Inr (added, skipped), k') \<Rightarrow> map_option length (targetPodNames kc opt k) = Some (added + skipped) \<and> 0 < added + skipped
   | (Inl err, k') \<Rightarrow> err \<in> {ListFailed, NoPods} \<and> k' = k \<or> (\<exists>pod e. err = InPod pod e)"
proof -
  have "\<exists>pod e. err = InPod pod e" if "injectPods kc opt pods a s k = (Inl err, k')" for pods a s k err k'
    using that by (induction pods arbitrary: a s k) (auto split: sum.splits prod.splits bool.splits)
  then show ?thesis
    by (auto simp: InjectEphemeral_def dest: injectPods_total split: option.splits prod.splits sum.splits)
qed

text \<open>C29: a permanent injection sends one strategic merge patch, which reads as the container list
  of the pod template with the exporter, with the DSSM certificate exactly when the template has
  its volume; an ejection sends the delete directive for the same container.\<close>

theorem Inject_patch_sends:
  "(\<exists>body. Inject_patch kc opt k
       = kcRun kc k (kubectlArgs opt [''patch'', resourceKind opt, oDeployment opt, ''--type'', ''strategic'', ''-p'', body]) []
     \<and> Unmarshal body = Some (templatePatch (norm (JObj (SidecarSpec
          (opt\<lparr>oDSSMCert := hasTemplateVolume kc opt k DSSMCertVolume\<rparr>))))))
   \<and> Eject_patch kc opt k
     = kcRun kc k (kubectlArgs opt [''patch'', resourceKind opt, oDeployment opt, ''--type'', ''strategic'', ''-p'', ejectPatch]) []
   \<and> Unmarshal ejectPatch
     = Some (templatePatch (obj [(''name'', JStr sidecarName), (CHR ''$'' # ''patch'', JStr ''delete'')]))"
proof -
  let ?opt = "opt\<lparr>oDSSMCert := hasTemplateVolume kc opt k DSSMCertVolume\<rparr>"
  have tp: "Unmarshal (marshal (templatePatch c)) = Some (templatePatch (norm c))" if "json_ok 9995 c" for c
  proof -
    have "json_ok 10000 (templatePatch c)" using that by (simp add: templatePatch_def obj_def mk_def)
    from Unmarshal_marshal [OF this, of "[]"] show ?thesis
      by (simp add: templatePatch_def obj_def mk_def coerce_plain)
  qed
  have "json_ok 9995 (JObj (SidecarSpec ?opt))" using SidecarSpec_json_ok [of 9990 ?opt] by simp
  from tp [OF this] have 1: "\<exists>body. Inject_patch kc opt k
       = kcRun kc k (kubectlArgs opt [''patch'', resourceKind opt, oDeployment opt, ''--type'', ''strategic'', ''-p'', body]) []
     \<and> Unmarshal body = Some (templatePatch (norm (JObj (SidecarSpec ?opt))))"
    by (auto simp: Inject_patch_def patch_def resourceKind_def kubectlArgs_def Let_def)
  let ?c = "obj [(''name'', JStr sidecarName), (CHR ''$'' # ''patch'', JStr ''delete'')]"
  have "ejectPatch = marshal (templatePatch (JObj [(''name'', JStr sidecarName), (CHR ''$'' # ''patch'', JStr ''delete'')]))"
    by code_simp
  moreover have "norm (JObj [(''name'', JStr sidecarName), (CHR ''$'' # ''patch'', JStr ''delete'')]) = ?c"
    by (simp add: obj_def coerce_plain sidecarName_def)
  ultimately have "Unmarshal ejectPatch = Some (templatePatch ?c)"
    using tp [of "JObj [(''name'', JStr sidecarName), (CHR ''$'' # ''patch'', JStr ''delete'')]"] by simp
  then have "Eject_patch kc opt k
     = kcRun kc k (kubectlArgs opt [''patch'', resourceKind opt, oDeployment opt, ''--type'', ''strategic'', ''-p'', ejectPatch]) []
   \<and> Unmarshal ejectPatch = Some (templatePatch ?c)"
    by (simp add: Eject_patch_def patch_def)
  then show ?thesis using 1 by blast
qed

text \<open>The derived push URL: the gateway is the .1 of the first usable address, the multus interface
  of the pod before the address of its node, and the port is the stack's.\<close>

theorem DeriveRemoteWriteURL_gateway:
  "case DeriveRemoteWriteURL kc opt port k of
     Some url \<Rightarrow> (\<exists>a b c. CHR ''.'' \<notin> set a \<union> set b \<union> set c
         \<and> url = ''http://'' @ (a @ CHR ''.'' # b @ CHR ''.'' # c @ ''.1'') @ '':'' @ FormatInt port @ ''/api/v1/write''
         \<and> (multusGateway kc opt k = Some (a @ CHR ''.'' # b @ CHR ''.'' # c @ ''.1'')
            \<or> multusGateway kc opt k = None \<and> nodeGateway kc opt k = Some (a @ CHR ''.'' # b @ CHR ''.'' # c @ ''.1'')))
   | None \<Rightarrow> multusGateway kc opt k = None \<and> nodeGateway kc opt k = None"
proof -
  have gw: "\<exists>a b c. CHR ''.'' \<notin> set a \<union> set b \<union> set c \<and> gw = a @ CHR ''.'' # b @ CHR ''.'' # c @ ''.1''"
    if "gatewayOf ip = Some gw" for ip gw
  proof -
    let ?ps = "Split CHR ''.'' (TrimSpace ip)"
    have "length ?ps = 4" using that by (auto simp: gatewayOf_def Let_def split: if_splits)
    then have "?ps ! i \<in> set ?ps" if "i < 4" for i using that by simp
    then have "CHR ''.'' \<notin> set (?ps ! i)" if "i < 4" for i using that Split_parts_no_sep by blast
    moreover have "gw = ?ps ! 0 @ CHR ''.'' # ?ps ! 1 @ CHR ''.'' # ?ps ! 2 @ ''.1''"
      using that by (auto simp: gatewayOf_def Let_def split: if_splits)
    ultimately show ?thesis by (intro exI conjI) auto
  qed
  have first: "firstGateway ns = Some gw \<Longrightarrow> \<exists>ip. gatewayOf ip = Some gw" for ns gw
    by (induction ns) (auto split: if_splits option.splits)
  have multus: "\<exists>ip. gatewayOf ip = Some gw" if "multusGateway kc opt k = Some gw" for gw
    using that first by (auto simp: multusGateway_def split: prod.splits if_splits option.splits)
  have node: "\<exists>ip. gatewayOf ip = Some gw" if "nodeGateway kc opt k = Some gw" for gw
    using that by (auto simp: nodeGateway_def Let_def split: prod.splits if_splits list.splits)
  show ?thesis
  proof (cases "multusGateway kc opt k")
    case (Some g)
    then show ?thesis using gw multus by (fastforce simp: DeriveRemoteWriteURL_def)
  next
    case None
    then show ?thesis using gw node by (cases "nodeGateway kc opt k") (fastforce simp: DeriveRemoteWriteURL_def)+
  qed
qed

end
