(* ===== verification/Injected.thy ===== *)
theory Injected
  imports ExpMain Inject
begin

text \<open>
  From the injection to the exporter: the environment that Kubernetes gives to the injected
  container, read from the JSON text that the program sent, and the exporter that starts in it.
\<close>

section \<open>Values in the container\<close>

text \<open>What Kubernetes makes of the references to the two downward variables in a value.\<close>

function expand :: "string \<Rightarrow> string \<Rightarrow> string \<Rightarrow> string" where
  "expand pod node s =
     (if s = [] then []
      else if HasPrefix s ''$(POD_NAME)'' then pod @ expand pod node (drop 11 s)
      else if HasPrefix s ''$(NODE_NAME)'' then node @ expand pod node (drop 12 s)
      else hd s # expand pod node (tl s))"
  by pat_completeness auto
termination
  by (relation "measure (\<lambda>(pod, node, s). length s)") auto

declare expand.simps [simp del]

text \<open>Names as Kubernetes has them: printable ASCII, here without comma and dollar.\<close>

definition plain :: "string \<Rightarrow> bool" where
  "plain s \<longleftrightarrow> s \<noteq> [] \<and> list_all (\<lambda>c. 0x21 \<le> ord c \<and> ord c \<le> 0x7E \<and> c \<noteq> CHR '','' \<and> c \<noteq> CHR ''$'') s"

abbreviation printable :: "char \<Rightarrow> bool" where
  "printable c \<equiv> 0x21 \<le> ord c \<and> ord c \<le> 0x7E"

lemma leading_space_none:
  assumes "\<forall>r \<in> set rs. r \<noteq> [] \<and> \<not> printable (hd r)" and "t = [] \<or> printable (hd t)"
  shows "trim_front rs t = t"
proof (cases t)
  case (Cons c s)
  have "\<not> HasPrefix (c # s) r" if "r \<in> set rs" for r
    using assms that Cons by (cases r) auto
  then have "find (HasPrefix (c # s)) rs = None" by (auto simp: find_None_iff)
  then have "leading_space rs (c # s) = 0" by (simp add: leading_space_def)
  then show ?thesis by (simp add: Cons trim_front.simps)
qed (simp add: trim_front.simps)

lemma space_runes_first: "\<forall>r \<in> set space_runes. r \<noteq> [] \<and> \<not> printable (hd r)"
  "\<forall>r \<in> set (map rev space_runes). r \<noteq> [] \<and> \<not> printable (hd r)"
  by (simp_all add: space_runes_def)

lemma TrimSpace_plain: "list_all printable s \<Longrightarrow> TrimSpace s = s"
proof -
  assume p: "list_all printable s"
  have "s = [] \<or> printable (hd s)" "rev s = [] \<or> printable (hd (rev s))"
    using p by (cases s; simp) (cases s rule: rev_cases; use p in simp)
  then show ?thesis
    using leading_space_none [OF space_runes_first(1)] leading_space_none [OF space_runes_first(2)]
    by (simp add: TrimSpace_def)
qed

lemma expand_plain: "CHR ''$'' \<notin> set s \<Longrightarrow> expand pod node (s @ t) = s @ expand pod node t"
proof (induction s)
  case (Cons c s)
  then have "c \<noteq> CHR ''$''" by auto
  then show ?case using Cons by (simp add: expand.simps [of pod node "c # s @ t"])
qed simp

lemma expand_labels:
  assumes "CHR ''$'' \<notin> set cluster"
  shows "expand pod node (externalLabels cluster) = ''cluster='' @ cluster @ '',pod='' @ pod @ '',node='' @ node"
proof -
  have "expand pod node ('',pod=$(POD_NAME),node=$(NODE_NAME)'') = '',pod='' @ pod @ '',node='' @ node"
    by (simp add: expand.simps)
  then show ?thesis
    using expand_plain [of "''cluster='' @ cluster" pod node "'',pod=$(POD_NAME),node=$(NODE_NAME)''"] assms
    by (simp add: externalLabels_def)
qed

lemma parsed_pair: "plain v \<Longrightarrow> list_all printable k \<Longrightarrow> k \<noteq> [] \<Longrightarrow> CHR ''='' \<notin> set k \<Longrightarrow> sanitize k = k \<Longrightarrow>
  (let kv = TrimSpace (k @ CHR ''='' # v) in
     if kv = [] then []
     else (let (k, v, ok) = Cut CHR ''='' kv in
           if \<not> ok then [] else [\<lparr>lname = sanitize (TrimSpace k), lvalue = TrimSpace v\<rparr>]))
  = [\<lparr>lname = k, lvalue = v\<rparr>]"
proof -
  assume a: "plain v" "list_all printable k" "k \<noteq> []" "CHR ''='' \<notin> set k" "sanitize k = k"
  have v: "list_all printable v" using a(1) by (auto simp: plain_def list_all_iff)
  have "TrimSpace (k @ CHR ''='' # v) = k @ CHR ''='' # v" using a(2) v by (intro TrimSpace_plain) (auto simp: list_all_iff)
  then show ?thesis using a v by (simp add: Cut_found TrimSpace_plain Let_def)
qed

lemma injected_labels_arrive:
  assumes "plain cluster" and "plain pod" and "plain node"
  shows "parseLabels (expand pod node (externalLabels cluster))
     = [\<lparr>lname = ''cluster'', lvalue = cluster\<rparr>, \<lparr>lname = ''pod'', lvalue = pod\<rparr>, \<lparr>lname = ''node'', lvalue = node\<rparr>]
   \<and> dropPerInstance_rw (parseLabels (expand pod node (externalLabels cluster))) = [\<lparr>lname = ''cluster'', lvalue = cluster\<rparr>]"
proof -
  have no: "CHR '','' \<notin> set cluster" "CHR '','' \<notin> set pod" "CHR '','' \<notin> set node" "CHR ''$'' \<notin> set cluster"
    using assms by (auto simp: plain_def list_all_iff)
  have whole: "expand pod node (externalLabels cluster)
      = (''cluster'' @ CHR ''='' # cluster) @ CHR '','' # ((''pod'' @ CHR ''='' # pod) @ CHR '','' # (''node'' @ CHR ''='' # node))"
    using expand_labels [OF no(4)] by simp
  have "Split CHR '','' (expand pod node (externalLabels cluster))
      = [''cluster'' @ CHR ''='' # cluster, ''pod'' @ CHR ''='' # pod, ''node'' @ CHR ''='' # node]"
    unfolding whole using no by (subst Split_append_sep, simp)+ (simp add: Split_no_sep)
  moreover have names: "sanitize ''cluster'' = ''cluster''" "sanitize ''pod'' = ''pod''" "sanitize ''node'' = ''node''"
    by (simp_all add: sanitize_id name_start_def is_lower_def is_upper_def)
  ultimately have "parseLabels (expand pod node (externalLabels cluster))
     = [\<lparr>lname = ''cluster'', lvalue = cluster\<rparr>, \<lparr>lname = ''pod'', lvalue = pod\<rparr>, \<lparr>lname = ''node'', lvalue = node\<rparr>]"
    using parsed_pair [OF assms(1), of "''cluster''"] parsed_pair [OF assms(2), of "''pod''"]
      parsed_pair [OF assms(3), of "''node''"]
    by (simp add: parseLabels_def)
  then show ?thesis by (simp add: dropPerInstance_rw_def)
qed

section \<open>The environment of the container\<close>

text \<open>An entry of the container's env list: a value with its references expanded, or a field of the
  pod.\<close>

definition envEntry :: "string \<Rightarrow> string \<Rightarrow> json \<Rightarrow> (string \<times> string) option" where
  "envEntry pod node v =
     (case v of
        JObj m \<Rightarrow>
          (case (map_of m ''name'', map_of m ''value'', map_of m ''valueFrom'') of
             (Some (JStr n), Some (JStr s), None) \<Rightarrow> Some (n, expand pod node s)
           | (Some (JStr n), None, Some src) \<Rightarrow>
               if src = obj [(''fieldRef'', obj [(''fieldPath'', JStr ''metadata.name'')])] then Some (n, pod)
               else if src = obj [(''fieldRef'', obj [(''fieldPath'', JStr ''spec.nodeName'')])] then Some (n, node)
               else None
           | _ \<Rightarrow> None)
      | _ \<Rightarrow> None)"

definition containerEnv :: "string \<Rightarrow> string \<Rightarrow> json \<Rightarrow> string \<rightharpoonup> string" where
  "containerEnv pod node c =
     (case c of
        JObj m \<Rightarrow> (case map_of m ''env'' of Some (JArr es) \<Rightarrow> map_of (List.map_filter (envEntry pod node) es) | _ \<Rightarrow> Map.empty)
      | _ \<Rightarrow> Map.empty)"

definition injectedSpec :: "bool \<Rightarrow> options \<Rightarrow> json" where
  "injectedSpec ephemeral opt = JObj (if ephemeral then EphemeralSidecarSpec opt else SidecarSpec opt)"

lemma containerEnv_injected:
  assumes "coerce (oRemoteWriteURL opt) = oRemoteWriteURL opt"
    and "coerce (externalLabels (oCluster opt)) = externalLabels (oCluster opt)"
  shows "containerEnv pod node (norm (injectedSpec ephemeral opt))
     = [''TMSTAT_EXTERNAL_LABELS'' \<mapsto> expand pod node (externalLabels (oCluster opt)),
        ''TMSTAT_REMOTE_WRITE_URL'' \<mapsto> expand pod node (oRemoteWriteURL opt), ''NODE_NAME'' \<mapsto> node, ''POD_NAME'' \<mapsto> pod]"
proof -
  let ?es = "[downward ''POD_NAME'' ''metadata.name'', downward ''NODE_NAME'' ''spec.nodeName'',
    obj [(''name'', JStr ''TMSTAT_REMOTE_WRITE_URL''), (''value'', JStr (oRemoteWriteURL opt))],
    obj [(''name'', JStr ''TMSTAT_EXTERNAL_LABELS''), (''value'', JStr (externalLabels (oCluster opt)))]]"
  have "\<exists>m. norm (injectedSpec ephemeral opt) = JObj m \<and> map_of m ''env'' = Some (JArr ?es)"
    by (simp add: injectedSpec_def EphemeralSidecarSpec_def del_def SidecarSpec_sorted mk_def coerce_plain assms downward_def obj_def)
  moreover have "map_of (List.map_filter (envEntry pod node) ?es)
      = [''TMSTAT_EXTERNAL_LABELS'' \<mapsto> expand pod node (externalLabels (oCluster opt)),
        ''TMSTAT_REMOTE_WRITE_URL'' \<mapsto> expand pod node (oRemoteWriteURL opt), ''NODE_NAME'' \<mapsto> node, ''POD_NAME'' \<mapsto> pod]"
    by (simp add: List.map_filter_simps envEntry_def downward_def obj_def mk_def)
  ultimately show ?thesis by (auto simp: containerEnv_def)
qed

lemma injectedSpec_reads: "Unmarshal (marshal (injectedSpec ephemeral opt)) = Some (norm (injectedSpec ephemeral opt))"
proof -
  have "json_ok 10000 (injectedSpec ephemeral opt)"
    using SidecarSpec_json_ok [of 9995 opt] Ephemeral_json_ok [of 9995 opt] by (simp add: injectedSpec_def)
  from Unmarshal_marshal [OF this, of "[]"] show ?thesis by (simp add: ends_def)
qed

text \<open>Started in that environment without arguments.\<close>

lemma main_exporter_env:
  "main_exporter env [] = Serve \<lparr>svListen = envOr env ''TMSTAT_LISTEN'' '':9099'',
     svInterval = envParsed ParseDuration env ''TMSTAT_PUSH_INTERVAL'' 2000000000,
     svExporter = configure (exporterDefaults env)\<rparr>"
  by (simp add: main_exporter_def exporterDefaults_def var_defs)

lemma configured:
  "erwURL (configure vs) = strVar vs ''remote-write''" "eextra (configure vs) = parseLabels (strVar vs ''labels'')"
  "esegments (configure vs) = splitKeepOrder (strVar vs ''segment'')"
  "dcertDir (edssm (configure vs)) = strVar vs ''dssm-cert-dir''"
  by (simp_all add: configure_def)

lemma exporterDefault_vars:
  "strVar (exporterDefaults env) ''remote-write'' = Getenv env ''TMSTAT_REMOTE_WRITE_URL''"
  "strVar (exporterDefaults env) ''labels'' = Getenv env ''TMSTAT_EXTERNAL_LABELS''"
  "strVar (exporterDefaults env) ''segment'' = envOr env ''TMSTAT_SEGMENT'' ''/var/tmstat/blade/tmm0''"
  "strVar (exporterDefaults env) ''dssm-cert-dir'' = envOr env ''TMMTOK_DSSM_CERT_DIR'' ''/tls/tmm/mds/clt''"
  by (simp_all add: exporterDefaults_def strVar_def)

section \<open>Properties\<close>

text \<open>C12: when cluster, pod and node are non-empty printable ASCII without comma, space or dollar, and
  the URL is non-empty printable ASCII without dollar, the container that inject sends, read from its
  JSON text and started by Kubernetes, runs an exporter that pushes to the URL of the injection, with the cluster, pod and node as external
  labels, of which a global sample keeps the cluster only, reads the mounted tmstat segment, and
  looks for the DSSM certificate where the certificate volume is mounted.\<close>

theorem injected_exporter_starts:
  assumes "plain (oCluster opt)" and "plain pod" and "plain node"
    and "oRemoteWriteURL opt \<noteq> []" and "list_all printable (oRemoteWriteURL opt)" and "CHR ''$'' \<notin> set (oRemoteWriteURL opt)"
  shows "case Unmarshal (marshal (injectedSpec ephemeral opt)) of
     None \<Rightarrow> False
   | Some c \<Rightarrow>
       (case main_exporter (containerEnv pod node c) [] of
          Serve sv \<Rightarrow>
            (let e = svExporter sv in
             erwURL e = oRemoteWriteURL opt
             \<and> eextra e = [\<lparr>lname = ''cluster'', lvalue = oCluster opt\<rparr>, \<lparr>lname = ''pod'', lvalue = pod\<rparr>, \<lparr>lname = ''node'', lvalue = node\<rparr>]
             \<and> dropPerInstance_rw (eextra e) = [\<lparr>lname = ''cluster'', lvalue = oCluster opt\<rparr>]
             \<and> esegments e = [''/var/tmstat/blade/tmm0''] \<and> dcertDir (edssm e) = DSSMCertMount
             \<and> startPush snappy ticks sv = pushLoop snappy ticks e)
        | _ \<Rightarrow> False)"
proof -
  let ?env = "[''TMSTAT_EXTERNAL_LABELS'' \<mapsto> expand pod node (externalLabels (oCluster opt)),
        ''TMSTAT_REMOTE_WRITE_URL'' \<mapsto> expand pod node (oRemoteWriteURL opt), ''NODE_NAME'' \<mapsto> node, ''POD_NAME'' \<mapsto> pod]"
  have "list_all (\<lambda>c. ord c < 0x80) (oRemoteWriteURL opt)"
    using assms(5) by (rule list.pred_mono_strong) linarith
  moreover have "list_all (\<lambda>c. ord c < 0x80) (oCluster opt)"
    using assms(1) [unfolded plain_def, THEN conjunct2] by (rule list.pred_mono_strong) linarith
  then have "list_all (\<lambda>c. ord c < 0x80) (externalLabels (oCluster opt))" by (simp add: externalLabels_def)
  ultimately have c: "containerEnv pod node (norm (injectedSpec ephemeral opt)) = ?env"
    by (intro containerEnv_injected coerce_plain)
  have url: "expand pod node (oRemoteWriteURL opt) = oRemoteWriteURL opt"
    using expand_plain [OF assms(6), of pod node "[]"] by (simp add: expand.simps [of _ _ "[]"])
  have e: "envOr ?env ''TMSTAT_LISTEN'' d = d" "envOr ?env ''TMSTAT_SEGMENT'' d = d"
    "Getenv ?env ''TMSTAT_REMOTE_WRITE_URL'' = oRemoteWriteURL opt"
    "Getenv ?env ''TMSTAT_EXTERNAL_LABELS'' = expand pod node (externalLabels (oCluster opt))"
    "envOr ?env ''TMMTOK_DSSM_CERT_DIR'' d = d" "envParsed ParseDuration ?env ''TMSTAT_PUSH_INTERVAL'' n = n" for d n
    by (simp_all add: envOr_def envParsed_def Getenv_def url)
  let ?sv = "\<lparr>svListen = '':9099'', svInterval = 2000000000, svExporter = configure (exporterDefaults ?env)\<rparr>"
  have sv: "main_exporter ?env [] = Serve ?sv" by (simp only: main_exporter_env e)
  have "erwURL (svExporter ?sv) = oRemoteWriteURL opt"
    "eextra (svExporter ?sv) = parseLabels (expand pod node (externalLabels (oCluster opt)))"
    "esegments (svExporter ?sv) = [''/var/tmstat/blade/tmm0'']" "dcertDir (edssm (svExporter ?sv)) = DSSMCertMount"
    by (simp_all only: configured exporterDefault_vars e splitKeepOrder_default DSSMCertMount_def server.simps)
  then show ?thesis
    unfolding injectedSpec_reads option.case c sv startup.case Let_def
    using injected_labels_arrive [OF assms(1-3)] assms(4) by (simp add: startPush_def dropPerInstance_rw_def)
qed

theorem injected_exporter_starts_witness:
  "case Unmarshal (marshal (injectedSpec True demo_opts)) of
     None \<Rightarrow> False
   | Some c \<Rightarrow>
       (case main_exporter (containerEnv ''f5-tmm-0'' ''worker1'' c) [] of
          Serve sv \<Rightarrow>
            (let e = svExporter sv in
             erwURL e = oRemoteWriteURL demo_opts
             \<and> eextra e = [\<lparr>lname = ''cluster'', lvalue = oCluster demo_opts\<rparr>, \<lparr>lname = ''pod'', lvalue = ''f5-tmm-0''\<rparr>,
                 \<lparr>lname = ''node'', lvalue = ''worker1''\<rparr>]
             \<and> dropPerInstance_rw (eextra e) = [\<lparr>lname = ''cluster'', lvalue = oCluster demo_opts\<rparr>]
             \<and> esegments e = [''/var/tmstat/blade/tmm0''] \<and> dcertDir (edssm e) = DSSMCertMount
             \<and> startPush id [] sv = pushLoop id [] e)
        | _ \<Rightarrow> False)"
  by (rule injected_exporter_starts) (simp_all add: demo_opts_def plain_def)

end
