(* ===== verification/Ovs.thy ===== *)
theory Ovs
  imports Promwrite GoJson
begin

text \<open>
  The OVS-DOCA exporter, cmd/ovs-doca-exporter/main.go: flow lines are picked apart by regular
  expressions, each flow's counters are compared with the previous dump, and the differences are
  added to long-lived totals per tenant and port. The unixctl transport is outside the model: a
  scrape is given the reply of the daemon. Go iterates over a map in any order, so \<open>samples\<close> is
  given the order in which it meets the totals.
\<close>

section \<open>State\<close>

record key =
  ktenant :: string
  kport :: string

record acc =
  accBytes :: f64
  accPackets :: f64

record flowCounter =
  fcBytes :: f64
  fcPackets :: f64

record rule =
  rulePattern :: string
  ruleTenant :: string

record ovsExporter =
  octl :: string
  orwURL :: string
  oextra :: "label list"
  orules :: "rule list"
  oseen :: "string \<rightharpoonup> flowCounter"
  ototals :: "key \<rightharpoonup> acc"
  oflows :: nat
  ooffl :: nat
  oup :: f64

section \<open>The daemon's reply\<close>

text \<open>The connection to a socket: the error of the dial or of the write, or what the daemon sends back
  until it stops, and the error text that reading or decoding ends with when no value comes out.\<close>

datatype exchange = DialError string | WriteError string | Replied string string

datatype ovs_error = NoSocket | Transport string | OvsError json | TooLong

text \<open>The request.\<close>

definition unixctlRequest :: "string \<Rightarrow> string list \<Rightarrow> string" where
  "unixctlRequest method params =
     marshal (JObj (mk [(''method'', JStr method), (''params'', JArr (map JStr params)), (''id'', JNum 0)]))"

text \<open>The reply is the first JSON value of the stream; a result that is no string reads as the empty
  string. An object is decoded into the two members, null into none.\<close>

definition decodeRpc :: "string \<Rightarrow> (json \<times> json) option" where
  "decodeRpc stream =
     (case pval (2 * length stream + 2) 10000 stream of
        Some (JObj m, _) \<Rightarrow>
          Some (case member m ''result'' of Some v \<Rightarrow> v | None \<Rightarrow> JNull, case member m ''error'' of Some v \<Rightarrow> v | None \<Rightarrow> JNull)
      | Some (JNull, _) \<Rightarrow> Some (JNull, JNull)
      | _ \<Rightarrow> None)"

text \<open>\<open>glob\<close> are the sockets found, in order; \<open>call\<close> is one exchange with a socket.\<close>

definition unixctl :: "string list \<Rightarrow> (string \<Rightarrow> string \<Rightarrow> exchange) \<Rightarrow> string \<Rightarrow> string \<Rightarrow> string list \<Rightarrow> ovs_error + string" where
  "unixctl glob call ctl method params =
     (if ctl = [] \<and> glob = [] then Inl NoSocket
      else (let path = (if ctl = [] then last glob else ctl) in
            case call path (unixctlRequest method params) of
              DialError err \<Rightarrow> Inl (Transport err)
            | WriteError err \<Rightarrow> Inl (Transport err)
            | Replied stream err \<Rightarrow>
                (case decodeRpc stream of
                   None \<Rightarrow> Inl (Transport err)
                 | Some (result, error) \<Rightarrow>
                     if error \<noteq> JNull then Inl (OvsError error)
                     else Inr (case result of JStr s \<Rightarrow> s | _ \<Rightarrow> []))))"

section \<open>Regular expressions\<close>

text \<open>A literal followed by one or more characters of a class: the leftmost match, the run as long
  as possible, which is the captured group.\<close>

fun findRun :: "string \<Rightarrow> (char \<Rightarrow> bool) \<Rightarrow> string \<Rightarrow> string option" where
  "findRun lit cls [] = None"
| "findRun lit cls (c # cs) =
     (let r = drop (length lit) (c # cs) in
      if HasPrefix (c # cs) lit \<and> r \<noteq> [] \<and> cls (hd r) then Some (takeWhile cls r)
      else findRun lit cls cs)"

definition hexdash :: "char \<Rightarrow> bool" where
  "hexdash c \<longleftrightarrow> is_digit c \<or> (97 \<le> (of_char c :: nat) \<and> (of_char c :: nat) \<le> 102) \<or> c = CHR ''-''"

definition reUfid :: "string \<Rightarrow> string option" where
  "reUfid line = findRun ''ufid:'' hexdash line"

definition rePackets :: "string \<Rightarrow> string option" where
  "rePackets line = findRun ''packets:'' is_digit line"

definition reBytes :: "string \<Rightarrow> string option" where
  "reBytes line = findRun ''bytes:'' is_digit line"

text \<open>\<open>in_port\(([^)]+)\)\<close>: the run must be closed by a parenthesis.\<close>

fun rePort :: "string \<Rightarrow> string option" where
  "rePort [] = None"
| "rePort (c # cs) =
     (let r = drop (length ''in_port('') (c # cs); run = takeWhile (\<lambda>d. d \<noteq> CHR '')'') r in
      if HasPrefix (c # cs) ''in_port('' \<and> run \<noteq> [] \<and> length run < length r then Some run
      else rePort cs)"

definition reOffl :: "string \<Rightarrow> bool" where
  "reOffl line = Contains line ''offloaded:yes''"

definition num :: "(string \<Rightarrow> string option) \<Rightarrow> string \<Rightarrow> f64" where
  "num re s = (case re s of Some ds \<Rightarrow> ParseFloat_digits ds | None \<Rightarrow> FInt 0)"

section \<open>Tenants\<close>

fun tenantFor :: "rule list \<Rightarrow> string \<Rightarrow> string" where
  "tenantFor [] line = ''other''"
| "tenantFor (r # rs) line = (if Contains line (rulePattern r) then ruleTenant r else tenantFor rs line)"

text \<open>\<open>strings.LastIndex\<close> of one byte.\<close>

definition LastIndex :: "string \<Rightarrow> char \<Rightarrow> nat option" where
  "LastIndex s c = (if c \<in> set s then Some (length s - Suc (length (takeWhile (\<lambda>d. d \<noteq> c) (rev s)))) else None)"

definition parseRules :: "string \<Rightarrow> rule list" where
  "parseRules s = concat (map (\<lambda>kv.
     let kv = TrimSpace kv in
     case LastIndex kv CHR ''='' of
       None \<Rightarrow> []
     | Some i \<Rightarrow> if i = 0 then [] else [\<lparr>rulePattern = take i kv, ruleTenant = drop (Suc i) kv\<rparr>])
     (Split CHR '','' s))"

definition parseLabels_ovs :: "string \<Rightarrow> label list" where
  "parseLabels_ovs s = concat (map (\<lambda>kv.
     let (a, b, ok) = Cut CHR ''='' (TrimSpace kv) in
     if ok \<and> a \<noteq> [] then [\<lparr>lblName = a, lblValue = b\<rparr>] else [])
     (Split CHR '','' s))"

section \<open>Scrape\<close>

text \<open>\<open>bufio.Scanner\<close> over lines with a buffer of 8 MiB: a carriage return at the end of a line is
  dropped, an empty last line is none, and a line that does not fit ends the scan with an error.\<close>

definition maxLine :: nat where
  "maxLine = 8 * 1024 * 1024"

definition dropCR :: "string \<Rightarrow> string" where
  "dropCR l = (if l \<noteq> [] \<and> last l = CHR 0x0D then butlast l else l)"

definition scanLines :: "string \<Rightarrow> string list \<times> bool" where
  "scanLines out =
     (let ls = Split CHR 0x0A out; ls = (if last ls = [] then butlast ls else ls);
          fit = takeWhile (\<lambda>l. length l < maxLine) ls
      in (map dropCR fit, length fit < length ls))"

definition noCounter :: flowCounter where
  "noCounter = \<lparr>fcBytes = FInt 0, fcPackets = FInt 0\<rparr>"

text \<open>The increments of a flow; the whole counters when one of them went backwards.\<close>

definition flowDelta :: "flowCounter option \<Rightarrow> f64 \<Rightarrow> f64 \<Rightarrow> f64 \<times> f64" where
  "flowDelta seen bytes packets =
     (let prev = (case seen of Some c \<Rightarrow> c | None \<Rightarrow> noCounter);
          db = fsub bytes (fcBytes prev); dp = fsub packets (fcPackets prev)
      in if fneg_p db \<or> fneg_p dp then (bytes, packets) else (db, dp))"

definition addTotal :: "(key \<rightharpoonup> acc) \<Rightarrow> key \<Rightarrow> f64 \<times> f64 \<Rightarrow> key \<rightharpoonup> acc" where
  "addTotal totals k d =
     (let a = (case totals k of Some a \<Rightarrow> a | None \<Rightarrow> \<lparr>accBytes = FInt 0, accPackets = FInt 0\<rparr>)
      in totals(k \<mapsto> \<lparr>accBytes = fadd (accBytes a) (fst d), accPackets = fadd (accPackets a) (snd d)\<rparr>))"

definition flowKey :: "rule list \<Rightarrow> string \<Rightarrow> key" where
  "flowKey rules line = \<lparr>ktenant = tenantFor rules line,
     kport = (case rePort line of Some p \<Rightarrow> p | None \<Rightarrow> ''unknown'')\<rparr>"

text \<open>One line of the dump, on the counters of this dump and the exporter.\<close>

definition scrapeLine :: "string \<Rightarrow> (string \<rightharpoonup> flowCounter) \<times> ovsExporter \<Rightarrow> (string \<rightharpoonup> flowCounter) \<times> ovsExporter" where
  "scrapeLine line st =
     (case reUfid line of
        None \<Rightarrow> st
      | Some ufid \<Rightarrow>
          (let (live, e) = st; pk = num rePackets line; by = num reBytes line
           in (live(ufid \<mapsto> \<lparr>fcBytes = by, fcPackets = pk\<rparr>),
               e\<lparr>oflows := Suc (oflows e),
                 ooffl := (if reOffl line then Suc (ooffl e) else ooffl e),
                 ototals := addTotal (ototals e) (flowKey (orules e) line) (flowDelta (oseen e ufid) by pk)\<rparr>)))"

definition scrape :: "ovs_error + string \<Rightarrow> ovsExporter \<Rightarrow> ovs_error option \<times> ovsExporter" where
  "scrape dump e =
     (case dump of
        Inl err \<Rightarrow> (Some err, e\<lparr>oup := FInt 0\<rparr>)
      | Inr out \<Rightarrow>
          (let (lines, tooLong) = scanLines out;
               (live, e') = fold scrapeLine lines (Map.empty, e\<lparr>oup := FInt 1, oflows := 0, ooffl := 0\<rparr>)
           in (if tooLong then Some TooLong else None, e'\<lparr>oseen := live\<rparr>)))"

section \<open>Samples and push\<close>

definition gauge :: "string \<Rightarrow> label list \<Rightarrow> f64 \<Rightarrow> sample" where
  "gauge m ls v = \<lparr>Metric = m, Labels = ls, SValue = v, Global = False\<rparr>"

definition keySamples :: "key \<Rightarrow> acc \<Rightarrow> sample list" where
  "keySamples k a =
     (let l = [\<lparr>lblName = ''tenant'', lblValue = ktenant k\<rparr>, \<lparr>lblName = ''port'', lblValue = kport k\<rparr>]
      in [gauge ''ovs_doca_datapath_bytes'' l (accBytes a), gauge ''ovs_doca_datapath_packets'' l (accPackets a)])"

definition samples_ovs :: "key list \<Rightarrow> ovsExporter \<Rightarrow> sample list" where
  "samples_ovs order e =
     [gauge ''ovs_doca_up'' [] (oup e), gauge ''ovs_doca_flows'' [] (to_f64 (int (oflows e))),
      gauge ''ovs_doca_flows_offloaded'' [] (to_f64 (int (ooffl e)))]
     @ concat (map (\<lambda>k. case ototals e k of None \<Rightarrow> [] | Some a \<Rightarrow> keySamples k a) order)"

datatype ovs_response = OvsNoRequest string | OvsNoResponse string | OvsStatus nat

text \<open>\<open>push\<close>: whether it succeeded, and the body sent.\<close>

definition push_ovs :: "(bytes \<Rightarrow> bytes) \<Rightarrow> (string \<Rightarrow> bytes \<Rightarrow> ovs_response) \<Rightarrow> int \<Rightarrow> key list \<Rightarrow> ovsExporter
    \<Rightarrow> bool \<times> bytes" where
  "push_ovs snappy post tsMillis order e =
     (let body = BuildWriteRequest snappy (samples_ovs order e) (oextra e) tsMillis
      in (case post (orwURL e) body of OvsStatus code \<Rightarrow> code div 100 = 2 | _ \<Rightarrow> False, body))"

section \<open>The program\<close>

text \<open>The exporter \<open>main\<close> builds from its flags, and the ticker loop: a scrape and a push per tick; an
  error of either is logged (the result lists the log and the bodies) and the loop goes on.\<close>

definition newExporter :: "string \<Rightarrow> string \<Rightarrow> string \<Rightarrow> string \<Rightarrow> ovsExporter" where
  "newExporter ctl rw extLabels rules =
     \<lparr>octl = ctl, orwURL = rw, oextra = parseLabels_ovs extLabels, orules = parseRules rules,
      oseen = Map.empty, ototals = Map.empty, oflows = 0, ooffl = 0, oup = FInt 0\<rparr>"

record ovsTick =
  tkDump :: "ovs_error + string"
  tkPost :: "string \<Rightarrow> bytes \<Rightarrow> ovs_response"
  tkMillis :: int
  tkOrder :: "ovsExporter \<Rightarrow> key list"

fun ovsLoop :: "(bytes \<Rightarrow> bytes) \<Rightarrow> ovsTick list \<Rightarrow> ovsExporter
    \<Rightarrow> (ovs_error option \<times> bool \<times> bytes) list \<times> ovsExporter" where
  "ovsLoop snappy [] e = ([], e)"
| "ovsLoop snappy (t # ts) e =
     (let (err, e1) = scrape (tkDump t) e;
          (ok, body) = push_ovs snappy (tkPost t) (tkMillis t) (tkOrder t e1) e1;
          (sent, e2) = ovsLoop snappy ts e1
      in ((err, ok, body) # sent, e2))"

text \<open>The exporter after some dumps.\<close>

fun scrapes :: "(ovs_error + string) list \<Rightarrow> ovsExporter \<Rightarrow> ovsExporter" where
  "scrapes [] e = e"
| "scrapes (d # ds) e = scrapes ds (snd (scrape d e))"

section \<open>Totals never go down\<close>

text \<open>The comparison \<open>a <= b\<close>, and what it means for a counter to have grown: NaN, which only the
  difference of two infinite readings gives, stays.\<close>

fun fle :: "f64 \<Rightarrow> f64 \<Rightarrow> bool" where
  "fle FNaN _ = False"
| "fle _ FNaN = False"
| "fle FNInf _ = True"
| "fle _ FPInf = True"
| "fle (FInt a) (FInt b) = (a \<le> b)"
| "fle _ _ = False"

definition grows :: "f64 \<Rightarrow> f64 \<Rightarrow> bool" where
  "grows a b \<longleftrightarrow> b = FNaN \<or> fle a b"

definition total_ok :: "f64 \<Rightarrow> bool" where
  "total_ok x \<longleftrightarrow> valid_f64 x \<and> (case x of FInt a \<Rightarrow> 0 \<le> a | FNInf \<Rightarrow> False | _ \<Rightarrow> True)"

lemma grows_refl [simp]: "grows a a"
  by (cases a) (auto simp: grows_def)

lemma grows_trans: "grows a b \<Longrightarrow> grows b c \<Longrightarrow> grows a c"
  by (cases a; cases b; cases c) (auto simp: grows_def)

lemma round53_0 [simp]: "round53 0 = 0"
  by (simp add: round53_def)

lemma holds53_0 [simp]: "holds53 0"
  by (auto simp: holds53_def intro: exI [of _ 0])

lemma to_f64_nonneg:
  assumes "0 \<le> x"
  shows "to_f64 x = (if 2 ^ 1024 \<le> round53 (nat x) then FPInf else FInt (int (round53 (nat x))))"
proof (cases "x = 0")
  case True
  have "\<not> (2 :: nat) ^ 1024 \<le> 0" by (simp del: power_numeral)
  then show ?thesis using True by (simp add: to_f64_def del: power_numeral)
qed (use assms in \<open>simp add: to_f64_def Let_def del: power_numeral\<close>)

lemma to_f64_total_ok: "0 \<le> x \<Longrightarrow> total_ok (to_f64 x)"
  using to_f64_valid [of x] by (simp add: to_f64_nonneg total_ok_def del: power_numeral split: if_splits)

lemma to_f64_ge: "0 \<le> a \<Longrightarrow> round53 (nat a) = nat a \<Longrightarrow> a \<le> x \<Longrightarrow> fle (FInt a) (to_f64 x)"
  using round53_ge [of "nat a" "nat x"] holds53_round53 [of "nat a"] by (simp add: to_f64_nonneg nat_le_iff del: power_numeral)

lemma fadd_grows: "total_ok a \<Longrightarrow> \<not> fneg_p d \<Longrightarrow> grows a (fadd a d) \<and> total_ok (fadd a d)"
  by (cases a; cases d)
     (auto simp: grows_def total_ok_def [of FPInf] total_ok_def [of FNaN] total_ok_def [of FNInf]
        total_ok_def [of "FInt _"] intro: to_f64_total_ok to_f64_ge)

lemma num_nonneg: "\<not> fneg_p (num re line)"
proof -
  have "\<not> fneg_p (to_f64 (int n))" for n
    using to_f64_total_ok [of "int n"] by (cases "to_f64 (int n)") (auto simp: total_ok_def)
  then show ?thesis by (auto simp: num_def ParseFloat_digits_def split: option.split)
qed

lemma flowDelta_nonneg:
  assumes "\<not> fneg_p by" and "\<not> fneg_p pk"
  shows "\<not> fneg_p (fst (flowDelta seen by pk)) \<and> \<not> fneg_p (snd (flowDelta seen by pk))"
  using assms by (auto simp: flowDelta_def Let_def)

definition totals_ok :: "(key \<rightharpoonup> acc) \<Rightarrow> bool" where
  "totals_ok t \<longleftrightarrow> (\<forall>a \<in> ran t. total_ok (accBytes a) \<and> total_ok (accPackets a))"

text \<open>No key is lost and no counter of a key goes down.\<close>

definition totals_grow :: "(key \<rightharpoonup> acc) \<Rightarrow> (key \<rightharpoonup> acc) \<Rightarrow> bool" where
  "totals_grow t t' \<longleftrightarrow> (\<forall>k a. t k = Some a \<longrightarrow>
     (\<exists>a'. t' k = Some a' \<and> grows (accBytes a) (accBytes a') \<and> grows (accPackets a) (accPackets a')))"

lemma totals_grow_refl [simp]: "totals_grow t t"
  by (simp add: totals_grow_def)

lemma totals_grow_trans: "totals_grow a b \<Longrightarrow> totals_grow b c \<Longrightarrow> totals_grow a c"
  unfolding totals_grow_def by (blast intro: grows_trans)

lemma addTotal_grow:
  assumes "totals_ok t" and "\<not> fneg_p (fst d)" and "\<not> fneg_p (snd d)"
  shows "totals_grow t (addTotal t k d) \<and> totals_ok (addTotal t k d)"
proof -
  define a where "a = (case t k of Some a \<Rightarrow> a | None \<Rightarrow> \<lparr>accBytes = FInt 0, accPackets = FInt 0\<rparr>)"
  have z: "total_ok (FInt 0)" by (simp add: total_ok_def)
  have "total_ok (accBytes a) \<and> total_ok (accPackets a)"
    using assms(1) z by (auto simp: a_def totals_ok_def ran_def split: option.split)
  then have g: "grows (accBytes a) (fadd (accBytes a) (fst d))" "total_ok (fadd (accBytes a) (fst d))"
    "grows (accPackets a) (fadd (accPackets a) (snd d))" "total_ok (fadd (accPackets a) (snd d))"
    using fadd_grows assms(2,3) by blast+
  have t: "addTotal t k d = t(k \<mapsto> \<lparr>accBytes = fadd (accBytes a) (fst d), accPackets = fadd (accPackets a) (snd d)\<rparr>)"
    by (simp add: addTotal_def a_def Let_def)
  show ?thesis
    using assms(1) g unfolding t totals_grow_def totals_ok_def ran_def
    by (auto simp: a_def split: option.splits)
qed

lemma scrapeLine_cases:
  "(reUfid line = None \<and> scrapeLine line (live, e) = (live, e))
   \<or> (\<exists>ufid. reUfid line = Some ufid
        \<and> ototals (snd (scrapeLine line (live, e)))
          = addTotal (ototals e) (flowKey (orules e) line) (flowDelta (oseen e ufid) (num reBytes line) (num rePackets line)))"
  by (cases "reUfid line") (auto simp: scrapeLine_def Let_def)

lemma scrapeLine_grow:
  assumes "totals_ok (ototals e)"
  shows "totals_grow (ototals e) (ototals (snd (scrapeLine line (live, e))))
   \<and> totals_ok (ototals (snd (scrapeLine line (live, e))))"
  using scrapeLine_cases [of line live e]
proof (elim disjE conjE exE)
  fix ufid
  assume t: "ototals (snd (scrapeLine line (live, e)))
      = addTotal (ototals e) (flowKey (orules e) line) (flowDelta (oseen e ufid) (num reBytes line) (num rePackets line))"
  show ?thesis
    unfolding t using assms flowDelta_nonneg [OF num_nonneg num_nonneg] by (intro addTotal_grow) blast+
qed (use assms in simp)

lemma fold_scrapeLine_grow:
  "totals_ok (ototals e) \<Longrightarrow>
   totals_grow (ototals e) (ototals (snd (fold scrapeLine ls (live, e))))
   \<and> totals_ok (ototals (snd (fold scrapeLine ls (live, e))))"
proof (induction ls arbitrary: live e)
  case (Cons l ls)
  obtain live1 e1 where s: "scrapeLine l (live, e) = (live1, e1)" by fastforce
  then show ?case
    using scrapeLine_grow [OF Cons.prems, of l live] Cons.IH [of e1 live1] totals_grow_trans by fastforce
qed simp

lemma scrape_grow:
  assumes "totals_ok (ototals e)"
  shows "totals_grow (ototals e) (ototals (snd (scrape d e))) \<and> totals_ok (ototals (snd (scrape d e)))"
proof (cases d)
  case (Inr out)
  obtain ls b where s: "scanLines out = (ls, b)" by fastforce
  obtain live e' where f: "fold scrapeLine ls (Map.empty, e\<lparr>oup := FInt 1, oflows := 0, ooffl := 0\<rparr>) = (live, e')"
    by fastforce
  show ?thesis
    using fold_scrapeLine_grow [of "e\<lparr>oup := FInt 1, oflows := 0, ooffl := 0\<rparr>" ls Map.empty] assms f s
    by (simp add: scrape_def Inr)
qed (use assms in \<open>simp add: scrape_def\<close>)

lemma scrapes_grow:
  "totals_ok (ototals e) \<Longrightarrow>
   totals_grow (ototals e) (ototals (scrapes ds e)) \<and> totals_ok (ototals (scrapes ds e))"
proof (induction ds arbitrary: e)
  case (Cons d ds)
  then show ?case using scrape_grow [OF Cons.prems, of d] totals_grow_trans by fastforce
qed simp

lemma scrapes_append: "scrapes (ds @ ds') e = scrapes ds' (scrapes ds e)"
  by (induction ds arbitrary: e) auto

lemma newExporter_totals [simp]: "ototals (newExporter ctl rw l r) = Map.empty" "oseen (newExporter ctl rw l r) = Map.empty"
  by (simp_all add: newExporter_def)

lemma fold_scrapeLine_fields:
  "fold scrapeLine ls (live, e) = (live', e') \<Longrightarrow>
   oup e' = oup e \<and> orules e' = orules e \<and> oextra e' = oextra e
   \<and> oflows e' = oflows e + length (filter (\<lambda>l. reUfid l \<noteq> None) ls)
   \<and> ooffl e' = ooffl e + length (filter reOffl (filter (\<lambda>l. reUfid l \<noteq> None) ls))
   \<and> dom live' = dom live \<union> set (map (the \<circ> reUfid) (filter (\<lambda>l. reUfid l \<noteq> None) ls))"
proof (induction ls arbitrary: live e)
  case (Cons l ls)
  obtain live1 e1 where s: "scrapeLine l (live, e) = (live1, e1)" by fastforce
  have "fold scrapeLine ls (live1, e1) = (live', e')" using Cons.prems s by simp
  note ih = Cons.IH [OF this]
  show ?case
  proof (cases "reUfid l")
    case (Some u)
    then show ?thesis using ih s by (auto simp: scrapeLine_def Let_def)
  qed (use ih s in \<open>simp add: scrapeLine_def\<close>)
qed simp

lemma scrape_up: "oup (snd (scrape d e)) \<in> {FInt 0, FInt 1}"
  by (auto simp: scrape_def fold_scrapeLine_fields split: sum.splits prod.splits)

lemma scrapes_up: "valid_f64 (oup e) \<Longrightarrow> valid_f64 (oup (scrapes ds e))"
proof (induction ds arbitrary: e)
  case (Cons d ds)
  have "valid_f64 (oup (snd (scrape d e)))"
    using scrape_up [of d e] to_f64_valid [of 0] to_f64_valid [of 1] by (auto simp: to_f64_small)
  then show ?case by (simp add: Cons.IH)
qed simp

definition ruleText :: "rule \<Rightarrow> string" where
  "ruleText r = rulePattern r @ CHR ''='' # ruleTenant r"

lemma concat_map_single: "concat (map (\<lambda>x. [f x]) xs) = map f xs"
  by (induction xs) auto

section \<open>Properties\<close>

text \<open>The published totals are monotonic: over any dumps and failures no key of tenant and port
  is lost and no byte or packet total ever becomes smaller (a total can only turn into NaN, when
  a flow reports more than a float can hold twice).\<close>

theorem totals_never_decrease:
  "totals_grow (ototals (scrapes ds (newExporter ctl rw labels rules)))
     (ototals (scrapes (ds @ ds') (newExporter ctl rw labels rules)))"
proof -
  have "totals_ok (ototals (newExporter ctl rw labels rules))" by (simp add: totals_ok_def)
  then show ?thesis using scrapes_grow by (simp add: scrapes_append)
qed

text \<open>A failed dump only clears the up gauge: totals, flows and the last counters stay, so the
  traffic of the gap is counted by the next dump. A dump that is read sets up, counts the lines
  with a flow identifier and those that are offloaded, and remembers exactly the flows it shows.\<close>

theorem scrape_outcome:
  "case dump of
     Inl err \<Rightarrow> scrape dump e = (Some err, e\<lparr>oup := FInt 0\<rparr>)
   | Inr out \<Rightarrow>
       (let flowLines = filter (\<lambda>l. reUfid l \<noteq> None) (fst (scanLines out)); e' = snd (scrape dump e)
        in fst (scrape dump e) = (if snd (scanLines out) then Some TooLong else None)
           \<and> oup e' = FInt 1 \<and> oflows e' = length flowLines \<and> ooffl e' = length (filter reOffl flowLines)
           \<and> dom (oseen e') = set (map (the \<circ> reUfid) flowLines)
           \<and> orules e' = orules e \<and> oextra e' = oextra e)"
proof (cases dump)
  case (Inr out)
  obtain ls b where s: "scanLines out = (ls, b)" by fastforce
  obtain live e' where f: "fold scrapeLine ls (Map.empty, e\<lparr>oup := FInt 1, oflows := 0, ooffl := 0\<rparr>) = (live, e')"
    by fastforce
  show ?thesis
    using fold_scrapeLine_fields [OF f] by (simp add: Inr scrape_def s f Let_def)
qed (simp add: scrape_def)

text \<open>The push body decodes to the three gauges and a byte and a packet series per key, with the
  tenant and port labels and the external ones.\<close>

theorem push_ovs_decodes:
  assumes "\<forall>b. unsnappy (snappy b) = Some b" and "int64 t"
    and "length (writeRequest (samples_ovs order e) (oextra e) t) < 2 ^ 64"
    and "e = scrapes ds (newExporter ctl rw labels rules)"
  shows "Option.bind (unsnappy (snd (push_ovs snappy post t order e))) decodeRequest
    = Some (map (\<lambda>s. (sampleLabels (oextra e) s, [(SValue s, t)])) (samples_ovs order e))"
proof -
  have "totals_ok (ototals e)" "valid_f64 (oup e)"
    using scrapes_grow [of "newExporter ctl rw labels rules" ds] scrapes_up [of "newExporter ctl rw labels rules" ds]
    by (simp_all add: totals_ok_def newExporter_def assms(4))
  moreover have "a \<in> ran (ototals e)" if "Some a = ototals e k" for k a
    using that by (rule ranI [where m = "ototals e", OF sym])
  ultimately have valid: "valid_f64 (oup e)"
    "\<And>k a. Some a = ototals e k \<Longrightarrow> valid_f64 (accBytes a) \<and> valid_f64 (accPackets a)"
    by (simp_all add: totals_ok_def total_ok_def)
  then have "\<forall>s \<in> set (samples_ovs order e). valid_f64 (SValue s)"
    by (auto simp: samples_ovs_def gauge_def keySamples_def to_f64_valid Let_def split: option.splits)
  then show ?thesis
    using assms(1-3) by (simp add: push_ovs_def BuildWriteRequest_def Let_def decodeRequest_writeRequest)
qed

text \<open>The rules flag: a list of pattern=tenant rules reads back as it was written, also when a
  pattern holds equal signs, because the tenant is what follows the last one.\<close>

theorem parseRules_roundtrip:
  assumes "rs \<noteq> []"
    and "\<forall>r \<in> set rs. rulePattern r \<noteq> [] \<and> CHR ''='' \<notin> set (ruleTenant r) \<and> CHR '','' \<notin> set (ruleText r)
      \<and> TrimSpace (ruleText r) = ruleText r"
  shows "parseRules (Join CHR '','' (map ruleText rs)) = rs"
proof -
  have last: "LastIndex (p @ CHR ''='' # t) CHR ''='' = Some (length p)" if "CHR ''='' \<notin> set t" for p t :: string
  proof -
    have "takeWhile (\<lambda>d. d \<noteq> CHR ''='') (rev t @ CHR ''='' # rev p) = rev t"
      using that by (subst takeWhile_append2) auto
    then show ?thesis by (simp add: LastIndex_def)
  qed
  have "Split CHR '','' (Join CHR '','' (map ruleText rs)) = map ruleText rs"
    using assms by (intro Split_Join) auto
  moreover have "(let kv = TrimSpace (ruleText r) in
      case LastIndex kv CHR ''='' of
        None \<Rightarrow> []
      | Some i \<Rightarrow> if i = 0 then [] else [\<lparr>rulePattern = take i kv, ruleTenant = drop (Suc i) kv\<rparr>]) = [r]"
    if "r \<in> set rs" for r
    using that assms(2) by (simp add: Let_def last ruleText_def)
  ultimately show ?thesis by (simp add: parseRules_def comp_def concat_map_single cong: map_cong)
qed

theorem parseRules_roundtrip_witness:
  "parseRules (Join CHR '','' (map ruleText
     [\<lparr>rulePattern = ''vni=0x186a1'', ruleTenant = ''acme''\<rparr>, \<lparr>rulePattern = ''10.0.122.'', ruleTenant = ''bravo''\<rparr>]))
   = [\<lparr>rulePattern = ''vni=0x186a1'', ruleTenant = ''acme''\<rparr>, \<lparr>rulePattern = ''10.0.122.'', ruleTenant = ''bravo''\<rparr>]"
proof (rule parseRules_roundtrip)
  have "TrimSpace ''vni=0x186a1=acme'' = ''vni=0x186a1=acme''" by code_simp
  moreover have "TrimSpace ''10.0.122.=bravo'' = ''10.0.122.=bravo''" by code_simp
  ultimately show "\<forall>r \<in> set [\<lparr>rulePattern = ''vni=0x186a1'', ruleTenant = ''acme''\<rparr>, \<lparr>rulePattern = ''10.0.122.'', ruleTenant = ''bravo''\<rparr>].
      rulePattern r \<noteq> [] \<and> CHR ''='' \<notin> set (ruleTenant r) \<and> CHR '','' \<notin> set (ruleText r)
      \<and> TrimSpace (ruleText r) = ruleText r" by (simp add: ruleText_def)
qed simp

end
