(* ===== verification/OvsLedger.thy ===== *)
theory OvsLedger
  imports Ovs
begin

text \<open>
  What the totals of the OVS exporter mean. The abstract account of a sequence of dumps is a ledger
  of natural numbers: one entry per flow line, with the flow, its tenant and port, and what the
  line adds. The float totals of \<open>scrape\<close> implement the ledger exactly while its sums stay below
  2^53, and the entries of one flow add up to the last counters of each of its lifetimes.
\<close>

section \<open>The ledger\<close>

type_synonym flow = "string \<times> key \<times> nat \<times> nat"

definition numN :: "(string \<Rightarrow> string option) \<Rightarrow> string \<Rightarrow> nat" where
  "numN re line = (case re line of Some ds \<Rightarrow> digits_val ds | None \<Rightarrow> 0)"

definition flowOf :: "rule list \<Rightarrow> string \<Rightarrow> flow list" where
  "flowOf rules line =
     (case reUfid line of None \<Rightarrow> [] | Some u \<Rightarrow> [(u, flowKey rules line, numN reBytes line, numN rePackets line)])"

definition flowsOf :: "rule list \<Rightarrow> string list \<Rightarrow> flow list" where
  "flowsOf rules ls = concat (map (flowOf rules) ls)"

text \<open>The difference to the last counters, or the counters themselves when one went backwards.\<close>

fun backwards :: "nat \<times> nat \<Rightarrow> nat \<times> nat \<Rightarrow> bool" where
  "backwards (pb, pp) (b, p) \<longleftrightarrow> b < pb \<or> p < pp"

fun delta :: "(nat \<times> nat) option \<Rightarrow> nat \<times> nat \<Rightarrow> nat \<times> nat" where
  "delta None c = c"
| "delta (Some d) c = (if backwards d c then c else (fst c - fst d, snd c - snd d))"

definition increments :: "(string \<rightharpoonup> nat \<times> nat) \<Rightarrow> flow list \<Rightarrow> flow list" where
  "increments s fs = map (\<lambda>(u, k, c). (u, k, delta (s u) c)) fs"

definition seenAfter :: "flow list \<Rightarrow> string \<rightharpoonup> nat \<times> nat" where
  "seenAfter fs = map_of (rev (map (\<lambda>(u, k, c). (u, c)) fs))"

fun ledger :: "rule list \<Rightarrow> (ovs_error + string) list \<Rightarrow> (string \<rightharpoonup> nat \<times> nat) \<Rightarrow> flow list" where
  "ledger rules [] s = []"
| "ledger rules (Inl err # ds) s = ledger rules ds s"
| "ledger rules (Inr out # ds) s =
     (let fs = flowsOf rules (fst (scanLines out)) in increments s fs @ ledger rules ds (seenAfter fs))"

definition bsum :: "flow list \<Rightarrow> nat" where
  "bsum L = sum_list (map (\<lambda>(u, k, c). fst c) L)"

definition psum :: "flow list \<Rightarrow> nat" where
  "psum L = sum_list (map (\<lambda>(u, k, c). snd c) L)"

text \<open>The totals a ledger stands for.\<close>

definition accountOf :: "flow list \<Rightarrow> key \<rightharpoonup> acc" where
  "accountOf L k =
     (let Lk = filter (\<lambda>(u, k', c). k' = k) L
      in if Lk = [] then None else Some \<lparr>accBytes = FInt (int (bsum Lk)), accPackets = FInt (int (psum Lk))\<rparr>)"

lemma bsum_append [simp]: "bsum (L @ M) = bsum L + bsum M" "bsum [] = 0" "bsum ((u, k, c) # L) = fst c + bsum L"
  and psum_append [simp]: "psum (L @ M) = psum L + psum M" "psum [] = 0" "psum ((u, k, c) # L) = snd c + psum L"
  by (simp_all add: bsum_def psum_def)

lemma bsum_filter: "bsum (filter P L) \<le> bsum L" "psum (filter P L) \<le> psum L"
  by (induction L) (auto intro: le_SucI trans_le_add2)

lemma flowsOf_simps [simp]: "flowsOf rules [] = []" "flowsOf rules (l # ls) = flowOf rules l @ flowsOf rules ls"
  by (simp_all add: flowsOf_def)

lemma increments_append [simp]: "increments s (fs @ gs) = increments s fs @ increments s gs"
  by (simp add: increments_def)

section \<open>The floats implement the ledger\<close>

definition float_counter :: "nat \<times> nat \<Rightarrow> flowCounter" where
  "float_counter c = \<lparr>fcBytes = FInt (int (fst c)), fcPackets = FInt (int (snd c))\<rparr>"

definition seen_le :: "(string \<rightharpoonup> nat \<times> nat) \<Rightarrow> flow list \<Rightarrow> bool" where
  "seen_le s L \<longleftrightarrow> (\<forall>u c. s u = Some c \<longrightarrow> fst c \<le> bsum L \<and> snd c \<le> psum L)"

lemma fsub_FInt: "a < 2 ^ 53 \<Longrightarrow> b < 2 ^ 53 \<Longrightarrow> fsub (FInt (int a)) (FInt (int b)) = FInt (int a - int b)"
  by (simp add: fsub_def to_f64_small)

lemma fadd_FInt: "a + b < 2 ^ 53 \<Longrightarrow> fadd (FInt (int a)) (FInt (int b)) = FInt (int (a + b))"
  by (simp add: to_f64_small)

lemma counter_le:
  "seen_le s L \<Longrightarrow> fst c \<le> bsum L + fst (delta (s u) c) \<and> snd c \<le> psum L + snd (delta (s u) c)"
  by (cases "s u"; cases c) (fastforce simp: seen_le_def)+

lemma flowDelta_delta:
  assumes "fst c < 2 ^ 53" and "snd c < 2 ^ 53" and "\<forall>d. s u = Some d \<longrightarrow> fst d < 2 ^ 53 \<and> snd d < 2 ^ 53"
  shows "flowDelta (map_option float_counter (s u)) (FInt (int (fst c))) (FInt (int (snd c)))
    = (FInt (int (fst (delta (s u) c))), FInt (int (snd (delta (s u) c))))"
proof (cases "s u")
  case None
  then show ?thesis
    using assms fsub_FInt [of _ 0] by (auto simp: flowDelta_def Let_def noCounter_def)
next
  case (Some d)
  then show ?thesis
    using assms by (cases c; cases d) (auto simp: flowDelta_def Let_def float_counter_def fsub_FInt)
qed

lemma addTotal_accountOf:
  assumes "bsum (L @ [(u, k, c)]) < 2 ^ 53" and "psum (L @ [(u, k, c)]) < 2 ^ 53"
  shows "addTotal (accountOf L) k (FInt (int (fst c)), FInt (int (snd c))) = accountOf (L @ [(u, k, c)])"
proof -
  let ?Lk = "filter (\<lambda>(u, k', c). k' = k) L"
  have s: "bsum ?Lk + fst c < 2 ^ 53" "psum ?Lk + snd c < 2 ^ 53"
    using assms bsum_filter [of "\<lambda>(u, k', c). k' = k" L] by auto
  have "fadd (FInt 0) (FInt (int n)) = FInt (int n)" if "n < 2 ^ 53" for n
    using fadd_FInt [of 0 n] that by simp
  then have "addTotal (accountOf L) k (FInt (int (fst c)), FInt (int (snd c)))
     = (accountOf L)(k \<mapsto> \<lparr>accBytes = FInt (int (bsum ?Lk + fst c)), accPackets = FInt (int (psum ?Lk + snd c))\<rparr>)"
    using s fadd_FInt [OF s(1)] fadd_FInt [OF s(2)] by (auto simp: addTotal_def accountOf_def Let_def)
  then show ?thesis by (auto simp: accountOf_def Let_def fun_eq_iff)
qed

lemma num_small: "numN re line < 2 ^ 53 \<Longrightarrow> num re line = FInt (int (numN re line))"
  by (auto simp: num_def numN_def ParseFloat_digits_def to_f64_small split: option.split)

lemma seenAfter_Cons: "seenAfter ((u, k, c) # fs) = [u \<mapsto> c] ++ seenAfter fs"
  by (simp add: seenAfter_def)

lemma seenAfter_Nil [simp]: "seenAfter [] = Map.empty"
  by (simp add: seenAfter_def)

definition float_seen :: "(string \<rightharpoonup> nat \<times> nat) \<Rightarrow> string \<rightharpoonup> flowCounter" where
  "float_seen s = (\<lambda>u. map_option float_counter (s u))"

lemma seen_le_append: "seen_le s L \<Longrightarrow> seen_le s (L @ M)"
  by (auto simp: seen_le_def trans_le_add1)

lemma fold_scrapeLine_ledger:
  assumes "oseen e = float_seen s" and "ototals e = accountOf L" and "seen_le s L"
    and "bsum (L @ increments s (flowsOf (orules e) ls)) < 2 ^ 53"
    and "psum (L @ increments s (flowsOf (orules e) ls)) < 2 ^ 53"
  shows "\<exists>e'. fold scrapeLine ls (live, e) = (live ++ float_seen (seenAfter (flowsOf (orules e) ls)), e')
    \<and> ototals e' = accountOf (L @ increments s (flowsOf (orules e) ls)) \<and> orules e' = orules e"
  using assms
proof (induction ls arbitrary: live e L)
  case Nil
  then show ?case by (simp add: increments_def float_seen_def map_add_def)
next
  case (Cons l ls)
  show ?case
  proof (cases "reUfid l")
    case None
    then have "flowOf (orules e) l = []" "scrapeLine l (live, e) = (live, e)"
      by (simp_all add: flowOf_def scrapeLine_def)
    then show ?thesis using Cons.IH [OF Cons.prems(1-3), of live] Cons.prems(4,5) by simp
  next
    case (Some u)
    define c where "c = (numN reBytes l, numN rePackets l)"
    define k where "k = flowKey (orules e) l"
    have f: "flowOf (orules e) l = [(u, k, c)]" by (simp add: flowOf_def Some c_def k_def)
    let ?L = "L @ [(u, k, delta (s u) c)]"
    have sum: "bsum ?L < 2 ^ 53" "psum ?L < 2 ^ 53" using Cons.prems(4,5) by (auto simp: f increments_def)
    have c: "fst c < 2 ^ 53" "snd c < 2 ^ 53" using sum counter_le [OF Cons.prems(3), of c u] by auto
    have d: "\<forall>d. s u = Some d \<longrightarrow> fst d < 2 ^ 53 \<and> snd d < 2 ^ 53"
      using Cons.prems(3) sum by (fastforce simp: seen_le_def)
    define e1 where "e1 = snd (scrapeLine l (live, e))"
    have n: "num reBytes l = FInt (int (fst c))" "num rePackets l = FInt (int (snd c))"
      using c by (simp_all add: c_def num_small)
    have e1: "scrapeLine l (live, e) = (live(u \<mapsto> float_counter c), e1)" "oseen e1 = oseen e" "orules e1 = orules e"
      by (simp_all add: e1_def scrapeLine_def Some Let_def n float_counter_def)
    have "ototals e1 = addTotal (ototals e) k (flowDelta (oseen e u) (num reBytes l) (num rePackets l))"
      by (simp add: e1_def scrapeLine_def Some Let_def k_def)
    then have t: "ototals e1 = accountOf ?L"
      by (simp only: n Cons.prems(1,2) float_seen_def flowDelta_delta [where c = c and s = s and u = u, OF c d] addTotal_accountOf [OF sum])
    have live: "live(u \<mapsto> float_counter c) ++ float_seen (seenAfter (flowsOf (orules e) ls))
        = live ++ float_seen (seenAfter (flowsOf (orules e) (l # ls)))"
      by (simp add: f seenAfter_Cons) (auto simp: float_seen_def map_add_def fun_eq_iff split: option.split)
    have inc: "L @ increments s (flowsOf (orules e) (l # ls)) = ?L @ increments s (flowsOf (orules e) ls)"
      by (simp add: f increments_def)
    have "\<exists>e'. fold scrapeLine ls (live(u \<mapsto> float_counter c), e1)
          = (live(u \<mapsto> float_counter c) ++ float_seen (seenAfter (flowsOf (orules e1) ls)), e')
        \<and> ototals e' = accountOf (?L @ increments s (flowsOf (orules e1) ls)) \<and> orules e' = orules e1"
      using Cons.prems(4,5) unfolding inc
      by (intro Cons.IH) (simp_all only: e1 Cons.prems(1) t seen_le_append [OF Cons.prems(3)])
    then show ?thesis unfolding fold.simps comp_def e1 live inc .
  qed
qed

lemma seenAfter_le:
  assumes "seen_le s L"
  shows "seen_le (seenAfter fs) (L @ increments s fs)"
proof -
  have "fst c \<le> bsum L + bsum (increments s fs) \<and> snd c \<le> psum L + psum (increments s fs)"
    if mem: "(u, k, c) \<in> set fs" for u k c
  proof -
    obtain as bs where fs: "fs = as @ (u, k, c) # bs" using split_list [OF mem] by blast
    show ?thesis using counter_le [OF assms, of c u] by (auto simp: fs increments_def)
  qed
  then show ?thesis by (auto simp: seen_le_def seenAfter_def dest!: map_of_SomeD)
qed

lemma scrapes_ledger:
  assumes "oseen e = float_seen s" and "ototals e = accountOf L" and "seen_le s L"
    and "bsum (L @ ledger (orules e) ds s) < 2 ^ 53" and "psum (L @ ledger (orules e) ds s) < 2 ^ 53"
  shows "ototals (scrapes ds e) = accountOf (L @ ledger (orules e) ds s)"
  using assms
proof (induction ds arbitrary: e s L)
  case (Cons d ds)
  show ?case
  proof (cases d)
    case (Inl err)
    then show ?thesis using Cons.IH [of "e\<lparr>oup := FInt 0\<rparr>" s L] Cons.prems by (simp add: scrape_def)
  next
    case (Inr out)
    let ?e0 = "e\<lparr>oup := FInt 1, oflows := 0, ooffl := 0\<rparr>"
    obtain ls b where sc: "scanLines out = (ls, b)" by fastforce
    let ?fs = "flowsOf (orules e) ls"
    have led: "ledger (orules e) (d # ds) s = increments s ?fs @ ledger (orules e) ds (seenAfter ?fs)"
      by (simp add: Inr sc Let_def)
    obtain e' where e': "fold scrapeLine ls (Map.empty, ?e0) = (float_seen (seenAfter ?fs), e')"
      "ototals e' = accountOf (L @ increments s ?fs)" "orules e' = orules e"
      using fold_scrapeLine_ledger [of ?e0 s L ls Map.empty] Cons.prems led by auto
    have "ototals (scrapes ds (e'\<lparr>oseen := float_seen (seenAfter ?fs)\<rparr>))
        = accountOf ((L @ increments s ?fs) @ ledger (orules e) ds (seenAfter ?fs))"
      using Cons.IH [of "e'\<lparr>oseen := float_seen (seenAfter ?fs)\<rparr>" "seenAfter ?fs" "L @ increments s ?fs"]
        e' seenAfter_le [OF Cons.prems(3)] Cons.prems(4,5) led by simp
    then show ?thesis by (simp add: scrape_def Inr sc e' Let_def)
  qed
qed simp

section \<open>Lifetimes of a flow\<close>

text \<open>The readings of one flow, one per dump (\<open>None\<close> when the dump does not have it), and the last
  reading of each of its lifetimes: a lifetime ends when the flow is gone from a dump, or when a
  counter goes backwards, which means the identifier was used again.\<close>

fun readings :: "rule list \<Rightarrow> string \<Rightarrow> (ovs_error + string) list \<Rightarrow> (nat \<times> nat) option list" where
  "readings rules u [] = []"
| "readings rules u (Inl err # ds) = readings rules u ds"
| "readings rules u (Inr out # ds) = seenAfter (flowsOf rules (fst (scanLines out))) u # readings rules u ds"

fun lives :: "(nat \<times> nat) option list \<Rightarrow> (nat \<times> nat) list" where
  "lives [] = []"
| "lives (None # rs) = lives rs"
| "lives [Some c] = [c]"
| "lives (Some c # None # rs) = c # lives rs"
| "lives (Some c # Some d # rs) = (if backwards c d then c # lives (Some d # rs) else lives (Some d # rs))"

definition bytesOf :: "(nat \<times> nat) list \<Rightarrow> nat" where
  "bytesOf cs = sum_list (map fst cs)"

definition packetsOf :: "(nat \<times> nat) list \<Rightarrow> nat" where
  "packetsOf cs = sum_list (map snd cs)"

text \<open>What is added for the readings of one flow.\<close>

fun addedFor :: "(nat \<times> nat) option \<Rightarrow> (nat \<times> nat) option list \<Rightarrow> (nat \<times> nat) list" where
  "addedFor prev [] = []"
| "addedFor prev (None # rs) = addedFor None rs"
| "addedFor prev (Some c # rs) = delta prev c # addedFor (Some c) rs"

lemma addedFor_after:
  "bytesOf (lives (Some c # rs)) = fst c + bytesOf (addedFor (Some c) rs)
   \<and> packetsOf (lives (Some c # rs)) = snd c + packetsOf (addedFor (Some c) rs)"
  and addedFor_fresh:
  "bytesOf (lives rs) = bytesOf (addedFor None rs) \<and> packetsOf (lives rs) = packetsOf (addedFor None rs)"
proof (induction rs arbitrary: c)
  case (Cons r rs)
  {
    case 1
    show ?case using Cons by (cases r; cases c) (auto simp: bytesOf_def packetsOf_def)
  next
    case 2
    show ?case using Cons by (cases r) (auto simp: bytesOf_def packetsOf_def)
  }
qed (simp_all add: bytesOf_def packetsOf_def)

lemma delta_sum: "\<not> backwards c d \<Longrightarrow> fst c + fst (delta (Some c) d) = fst d \<and> snd c + snd (delta (Some c) d) = snd d"
  by (cases c; cases d) auto

lemma distinct_filter_fst:
  "distinct (map fst fs) \<Longrightarrow>
   map (\<lambda>(u, k, c). c) (filter (\<lambda>x. fst x = u) (increments s fs))
     = (case seenAfter fs u of None \<Rightarrow> [] | Some c \<Rightarrow> [delta (s u) c])"
proof (induction fs)
  case (Cons f fs)
  obtain u' k c where f: "f = (u', k, c)" by (metis prod.exhaust)
  have none: "seenAfter fs u' = None"
    using Cons.prems by (force simp: f seenAfter_def map_of_eq_None_iff image_iff)
  show ?case
    using Cons none by (auto simp: f seenAfter_Cons increments_def map_add_def split: option.splits)
qed (simp add: increments_def)

definition once_per_dump :: "rule list \<Rightarrow> (ovs_error + string) list \<Rightarrow> bool" where
  "once_per_dump rules ds \<longleftrightarrow> list_all (\<lambda>d. case d of Inl _ \<Rightarrow> True
     | Inr out \<Rightarrow> distinct (map fst (flowsOf rules (fst (scanLines out))))) ds"

lemma ledger_of_flow:
  "once_per_dump rules ds \<Longrightarrow>
   map (\<lambda>(u, k, c). c) (filter (\<lambda>x. fst x = u) (ledger rules ds s)) = addedFor (s u) (readings rules u ds)"
proof (induction rules ds s rule: ledger.induct)
  case (3 rules out ds s)
  then show ?case
    using distinct_filter_fst [of "flowsOf rules (fst (scanLines out))" u s]
    by (simp add: once_per_dump_def Let_def split: option.split)
qed (simp_all add: once_per_dump_def)

text \<open>Sums grouped by flow.\<close>

lemma sum_by_flow:
  fixes f :: "flow \<Rightarrow> nat"
  shows "distinct us \<Longrightarrow> fst ` set L \<subseteq> set us \<Longrightarrow>
   sum_list (map f L) = sum_list (map (\<lambda>u. sum_list (map f (filter (\<lambda>x. fst x = u) L))) us)"
proof (induction L)
  case (Cons x L)
  have "sum_list (map (\<lambda>u. if fst x = u then f x else 0) us) = f x"
    using Cons.prems by (simp add: sum_list_distinct_conv_sum_set)
  then have "sum_list (map f (x # L))
      = sum_list (map (\<lambda>u. (if fst x = u then f x else 0) + sum_list (map f (filter (\<lambda>x. fst x = u) L))) us)"
    using Cons by (simp add: sum_list_addf)
  also have "\<dots> = sum_list (map (\<lambda>u. sum_list (map f (filter (\<lambda>x. fst x = u) (x # L)))) us)"
    by (intro arg_cong [of _ _ sum_list] map_cong) auto
  finally show ?case .
qed simp

lemma sum_concat: "sum_list (concat xss) = sum_list (map sum_list xss)" for xss :: "nat list list"
  by (induction xss) auto

lemma totals_ledger:
  assumes "bsum (ledger (parseRules rules) ds Map.empty) < 2 ^ 53"
    and "psum (ledger (parseRules rules) ds Map.empty) < 2 ^ 53"
  shows "ototals (scrapes ds (newExporter ctl rw labels rules)) = accountOf (ledger (parseRules rules) ds Map.empty)"
proof -
  let ?e = "newExporter ctl rw labels rules"
  have "orules ?e = parseRules rules" by (simp add: newExporter_def)
  moreover have "ototals ?e = accountOf []" by (simp add: accountOf_def fun_eq_iff)
  ultimately show ?thesis
    using scrapes_ledger [of ?e Map.empty "[]" ds] assms
    by (simp add: float_seen_def seen_le_def)
qed

section \<open>Properties\<close>

text \<open>C16: refinement: the float totals after any dumps and failures are the ledger's sums per tenant
  and port, exactly, as long as the sums stay below 2^53.\<close>

theorem totals_refine_ledger:
  assumes "bsum (ledger (parseRules rules) ds Map.empty) < 2 ^ 53"
    and "psum (ledger (parseRules rules) ds Map.empty) < 2 ^ 53"
  shows "ototals (scrapes ds (newExporter ctl rw labels rules)) = accountOf (ledger (parseRules rules) ds Map.empty)"
  using assms by (rule totals_ledger)

definition ufids :: "rule list \<Rightarrow> (ovs_error + string) list \<Rightarrow> string list" where
  "ufids rules ds = remdups (map fst (ledger rules ds Map.empty))"

text \<open>C8: what a total holds: while the sums are below 2^53, when no dump shows a flow twice and a flow
  keeps its tenant and port, the total of a key is the sum, over its flows, of the last counters
  read in each of their lifetimes, whenever the dumps were taken and however many failed. A lifetime
  ends when a read dump lacks the flow or its counters go down.\<close>

theorem flows_counted_once:
  assumes "bsum (ledger (parseRules rules) ds Map.empty) < 2 ^ 53"
    and "psum (ledger (parseRules rules) ds Map.empty) < 2 ^ 53"
    and "once_per_dump (parseRules rules) ds"
    and "list_all (\<lambda>(u, k, c). k = keyOf u) (ledger (parseRules rules) ds Map.empty)"
  shows "ototals (scrapes ds (newExporter ctl rw labels rules)) k =
     (let us = filter (\<lambda>u. keyOf u = k) (ufids (parseRules rules) ds);
          ends = concat (map (\<lambda>u. lives (readings (parseRules rules) u ds)) us)
      in if us = [] then None
         else Some \<lparr>accBytes = FInt (int (bytesOf ends)), accPackets = FInt (int (packetsOf ends))\<rparr>)"
proof -
  let ?r = "parseRules rules"
  let ?L = "ledger ?r ds Map.empty"
  let ?us = "filter (\<lambda>u. keyOf u = k) (ufids ?r ds)"
  let ?Lk = "filter (\<lambda>(u, k', c). k' = k) ?L"
  have Lk: "?Lk = filter (\<lambda>x. keyOf (fst x) = k) ?L"
    using assms(4) by (intro filter_cong) (auto simp: list_all_iff)
  have flow: "filter (\<lambda>x. fst x = u) ?Lk = filter (\<lambda>x. fst x = u) ?L" if "u \<in> set ?us" for u
    using that unfolding Lk filter_filter by (intro filter_cong) auto
  have us: "distinct ?us" "fst ` set ?Lk \<subseteq> set ?us" unfolding Lk by (auto simp: ufids_def)
  have empty: "?Lk = [] \<longleftrightarrow> ?us = []"
    unfolding Lk by (auto simp: ufids_def filter_empty_conv)
  have one: "map (\<lambda>(u, k, c). c) (filter (\<lambda>x. fst x = u) ?L) = addedFor None (readings ?r u ds)" for u
    using ledger_of_flow [OF assms(3), of u Map.empty] by simp
  have split_map: "map (\<lambda>(u, k, c). g c) xs = map g (map (\<lambda>(u, k, c). c) xs)"
    for g :: "nat \<times> nat \<Rightarrow> nat" and xs :: "flow list" by auto
  have per: "sum_list (map (\<lambda>(u, k, c). g c) ?Lk)
      = sum_list (map (\<lambda>u. sum_list (map g (addedFor None (readings ?r u ds)))) ?us)" for g :: "nat \<times> nat \<Rightarrow> nat"
    unfolding sum_by_flow [OF us, of "\<lambda>(u, k, c). g c"]
    by (intro arg_cong [of _ _ sum_list] map_cong refl) (simp only: flow split_map one)
  have "bsum ?Lk = bytesOf (concat (map (\<lambda>u. lives (readings ?r u ds)) ?us))"
    "psum ?Lk = packetsOf (concat (map (\<lambda>u. lives (readings ?r u ds)) ?us))"
    unfolding bsum_def psum_def per
    by (simp_all add: bytesOf_def packetsOf_def map_concat sum_concat comp_def
        addedFor_fresh [unfolded bytesOf_def packetsOf_def])
  then show ?thesis
    using totals_ledger [OF assms(1,2)] empty by (simp add: accountOf_def Let_def)
qed

text \<open>Dumps for the witnesses: a flow counts twice, is gone, and comes back with fresh counters.\<close>

definition demo_line :: "string \<Rightarrow> string \<Rightarrow> string \<Rightarrow> string" where
  "demo_line u p b = ''ufid:'' @ u @ '', in_port(p0), packets:'' @ p @ '', bytes:'' @ b"

definition demo_dumps :: "(ovs_error + string) list" where
  "demo_dumps = [Inr (demo_line ''a1'' ''2'' ''100''), Inr (demo_line ''a1'' ''5'' ''300''), Inl NoSocket,
     Inr (demo_line ''b2'' ''1'' ''7''), Inr (demo_line ''a1'' ''1'' ''10'')]"

definition demo_key :: key where
  "demo_key = \<lparr>ktenant = ''other'', kport = ''p0''\<rparr>"

lemma demo_scan: "scanLines (demo_line ''a1'' ''2'' ''100'') = ([demo_line ''a1'' ''2'' ''100''], False)"
  "scanLines (demo_line ''a1'' ''5'' ''300'') = ([demo_line ''a1'' ''5'' ''300''], False)"
  "scanLines (demo_line ''b2'' ''1'' ''7'') = ([demo_line ''b2'' ''1'' ''7''], False)"
  "scanLines (demo_line ''a1'' ''1'' ''10'') = ([demo_line ''a1'' ''1'' ''10''], False)"
  by (simp_all add: scanLines_def demo_line_def dropCR_def maxLine_def Let_def)

lemma demo_flows: "flowOf [] (demo_line ''a1'' ''2'' ''100'') = [(''a1'', demo_key, 100, 2)]"
  "flowOf [] (demo_line ''a1'' ''5'' ''300'') = [(''a1'', demo_key, 300, 5)]"
  "flowOf [] (demo_line ''b2'' ''1'' ''7'') = [(''b2'', demo_key, 7, 1)]"
  "flowOf [] (demo_line ''a1'' ''1'' ''10'') = [(''a1'', demo_key, 10, 1)]"
  by (simp_all add: flowOf_def demo_line_def demo_key_def reUfid_def reBytes_def rePackets_def numN_def flowKey_def
      hexdash_def is_digit_def digits_val_def digit_val_def)

lemma demo_ledger: "ledger [] demo_dumps Map.empty
   = [(''a1'', demo_key, 100, 2), (''a1'', demo_key, 200, 3), (''b2'', demo_key, 7, 1), (''a1'', demo_key, 10, 1)]"
  by (simp add: demo_dumps_def demo_scan demo_flows increments_def seenAfter_def)

lemma demo_once: "once_per_dump [] demo_dumps"
  by (simp add: once_per_dump_def demo_dumps_def demo_scan demo_flows)

lemma demo_rules: "parseRules [] = []"
  by code_simp

theorem totals_refine_ledger_witness:
  "ototals (scrapes demo_dumps (newExporter [] [] [] [])) demo_key
     = Some \<lparr>accBytes = FInt 317, accPackets = FInt 7\<rparr>"
proof -
  have "ototals (scrapes demo_dumps (newExporter [] [] [] [])) = accountOf (ledger (parseRules []) demo_dumps Map.empty)"
    by (rule totals_refine_ledger) (simp_all add: demo_rules demo_ledger)
  then show ?thesis by (simp add: demo_rules demo_ledger accountOf_def)
qed

theorem flows_counted_once_witness:
  "ototals (scrapes demo_dumps (newExporter [] [] [] [])) demo_key
     = (let ends = [(300, 5), (10, 1), (7, 1)]
        in Some \<lparr>accBytes = FInt (int (bytesOf ends)), accPackets = FInt (int (packetsOf ends))\<rparr>)"
proof -
  have us: "ufids [] demo_dumps = [''b2'', ''a1'']" by (simp add: ufids_def demo_ledger)
  have r: "readings [] ''a1'' demo_dumps = [Some (100, 2), Some (300, 5), None, Some (10, 1)]"
    "readings [] ''b2'' demo_dumps = [None, None, Some (7, 1), None]"
    by (simp_all add: demo_dumps_def demo_scan demo_flows seenAfter_def)
  show ?thesis
    by (subst flows_counted_once [where keyOf = "\<lambda>_. demo_key"])
       (simp_all add: demo_rules demo_ledger demo_once us r bytesOf_def packetsOf_def)
qed

definition demo_after :: ovsExporter where
  "demo_after = scrapes demo_dumps (newExporter [] [] ''pod=d1'' [])"

lemma demo_samples_after: "samples_ovs [demo_key] demo_after =
    [gauge ''ovs_doca_up'' [] (oup demo_after), gauge ''ovs_doca_flows'' [] (to_f64 (int (oflows demo_after))),
     gauge ''ovs_doca_flows_offloaded'' [] (to_f64 (int (ooffl demo_after)))]
    @ keySamples demo_key \<lparr>accBytes = FInt 317, accPackets = FInt 7\<rparr>"
proof -
  have "ototals demo_after = accountOf (ledger (parseRules []) demo_dumps Map.empty)"
    unfolding demo_after_def by (rule totals_ledger) (simp_all add: demo_rules demo_ledger)
  then show ?thesis by (simp add: samples_ovs_def demo_rules demo_ledger accountOf_def)
qed

lemma demo_extra_after: "oextra demo_after = [\<lparr>lblName = ''pod'', lblValue = ''d1''\<rparr>]"
proof -
  have "oextra (scrapes ds e) = oextra e" for ds e
  proof (induction ds arbitrary: e)
    case (Cons d ds)
    then show ?case
      by (auto simp: scrape_def fold_scrapeLine_fields split: sum.split prod.split)
  qed simp
  moreover have "parseLabels_ovs ''pod=d1'' = [\<lparr>lblName = ''pod'', lblValue = ''d1''\<rparr>]" by code_simp
  ultimately show ?thesis by (simp add: demo_after_def newExporter_def)
qed

theorem push_ovs_decodes_witness:
  "Option.bind ((\<lambda>b. case b of [] \<Rightarrow> None | _ # r \<Rightarrow> Some r)
      (snd (push_ovs (\<lambda>b. 0xFF # b) (\<lambda>_ _. OvsStatus 200) 1000 [demo_key] demo_after))) decodeRequest
   = Some (map (\<lambda>s. (sampleLabels (oextra demo_after) s, [(SValue s, 1000)])) (samples_ovs [demo_key] demo_after))"
proof (rule push_ovs_decodes [OF _ _ _ demo_after_def])
  have "length (writeRequest (samples_ovs [demo_key] demo_after) (oextra demo_after) 1000) \<le>
      sum_list (map (\<lambda>s. 100 + sum_list (map labelSize (sampleLabels (oextra demo_after) s))) (samples_ovs [demo_key] demo_after))"
    by (rule length_writeRequest_le)
  also have "\<dots> < 2 ^ 64"
    unfolding demo_samples_after demo_extra_after
    by (simp add: gauge_def keySamples_def sampleLabels_def dropPerInstance_def
        labelSize_def demo_key_def Let_def)
  finally show "length (writeRequest (samples_ovs [demo_key] demo_after) (oextra demo_after) 1000) < 2 ^ 64" .
qed (simp_all add: int64_def)

end
