(* ===== verification/GoQuote.thy ===== *)
theory GoQuote
  imports GoJson
begin

text \<open>
  \<open>strconv.Quote\<close>, the verb %q of package fmt: a Go string literal. Which runes beyond ASCII are
  printable is a table of package unicode; it is the parameter \<open>isPrint\<close>, on the bytes of a rune.
\<close>

definition rune_of :: "string \<Rightarrow> nat" where
  "rune_of r =
     (case r of
        [a] \<Rightarrow> ord a
      | [a, b] \<Rightarrow> (ord a - 0xC0) * 64 + (ord b - 0x80)
      | [a, b, c] \<Rightarrow> (ord a - 0xE0) * 4096 + (ord b - 0x80) * 64 + (ord c - 0x80)
      | [a, b, c, d] \<Rightarrow> (ord a - 0xF0) * 262144 + (ord b - 0x80) * 4096 + (ord c - 0x80) * 64 + (ord d - 0x80)
      | _ \<Rightarrow> 0)"

fun hexs :: "nat \<Rightarrow> nat \<Rightarrow> string" where
  "hexs 0 n = []"
| "hexs (Suc k) n = hexs k (n div 16) @ [hex_digit (n mod 16)]"

definition quote_byte :: "char \<Rightarrow> string" where
  "quote_byte c =
     (if c = CHR 0x22 \<or> c = CHR 0x5C then [CHR 0x5C, c]
      else if 0x20 \<le> ord c \<and> ord c < 0x7F then [c]
      else if ord c = 7 then [CHR 0x5C, CHR ''a''] else if ord c = 8 then [CHR 0x5C, CHR ''b'']
      else if ord c = 12 then [CHR 0x5C, CHR ''f''] else if ord c = 10 then [CHR 0x5C, CHR ''n'']
      else if ord c = 13 then [CHR 0x5C, CHR ''r''] else if ord c = 9 then [CHR 0x5C, CHR ''t'']
      else if ord c = 11 then [CHR 0x5C, CHR ''v''] else CHR 0x5C # CHR ''x'' # hexs 2 (ord c))"

definition quote_rune :: "(string \<Rightarrow> bool) \<Rightarrow> string \<Rightarrow> string" where
  "quote_rune isPrint r =
     (if isPrint r then r
      else if rune_of r < 0x10000 then CHR 0x5C # CHR ''u'' # hexs 4 (rune_of r)
      else CHR 0x5C # CHR ''U'' # hexs 8 (rune_of r))"

function Quote_loop :: "(string \<Rightarrow> bool) \<Rightarrow> string \<Rightarrow> string" where
  "Quote_loop isPrint s =
     (if s = [] then []
      else if utf8_len s = 0 then quote_byte (hd s) @ Quote_loop isPrint (tl s)
      else quote_rune isPrint (take (utf8_len s) s) @ Quote_loop isPrint (drop (utf8_len s) s))"
  by pat_completeness auto
termination
  by (relation "measure (\<lambda>(p, s). length s)") auto

declare Quote_loop.simps [simp del]

definition Quote :: "(string \<Rightarrow> bool) \<Rightarrow> string \<Rightarrow> string" where
  "Quote isPrint s = CHR 0x22 # Quote_loop isPrint s @ [CHR 0x22]"

lemma Quote_loop_ascii: "ord c < 0x80 \<Longrightarrow> Quote_loop p (c # s) = quote_byte c @ Quote_loop p s"
  using utf8_len_high [of c s] by (subst Quote_loop.simps) auto

text \<open>Printable ASCII without quote and backslash stands as it is.\<close>

definition graphic :: "char \<Rightarrow> bool" where
  "graphic c \<longleftrightarrow> 0x20 \<le> ord c \<and> ord c < 0x7F \<and> c \<noteq> CHR 0x22 \<and> c \<noteq> CHR 0x5C"

lemma Quote_graphic: "list_all graphic s \<Longrightarrow> Quote p s = CHR 0x22 # s @ [CHR 0x22]"
proof -
  have "list_all graphic s \<Longrightarrow> Quote_loop p s = s"
  proof (induction s)
    case Nil
    then show ?case by (simp add: Quote_loop.simps)
  next
    case (Cons c s)
    have "graphic c" using Cons.prems by simp
    then have "quote_byte c = [c]" "ord c < 0x80" by (auto simp: graphic_def quote_byte_def)
    then show ?case using Cons by (simp add: Quote_loop_ascii)
  qed
  then show "list_all graphic s \<Longrightarrow> Quote p s = CHR 0x22 # s @ [CHR 0x22]" by (simp add: Quote_def)
qed

end
