(* ===== verification/OvsMain.thy ===== *)
theory OvsMain
  imports Ovs GoFlag GoQuote
begin

text \<open>
  The program of cmd/ovs-doca-exporter/main.go around the exporter: the exchange with the daemon over
  JSON, the flags, the text of \<open>-once\<close>, and the ticker loop.
\<close>

section \<open>Flags\<close>

definition envOr_ovs :: "(string \<rightharpoonup> string) \<Rightarrow> string \<Rightarrow> string \<Rightarrow> string" where
  "envOr_ovs env k d = (let v = Getenv env k in if v \<noteq> [] then v else d)"

definition envDur :: "(string \<rightharpoonup> string) \<Rightarrow> string \<Rightarrow> int \<Rightarrow> int" where
  "envDur env k d =
     (let v = Getenv env k in if v \<noteq> [] then (case ParseDuration v of Some p \<Rightarrow> p | None \<Rightarrow> d) else d)"

lemma envDur_range: "in_int64 d \<Longrightarrow> in_int64 (envDur env k d)"
  by (auto simp: envDur_def Let_def ParseDuration_range split: option.split)

definition defaultRules :: string where
  "defaultRules = ''vni=0x186a1=acme,tun_id=0x186a1=acme,192.168.100.=acme,10.0.121.=acme,''
     @ ''vni=0x186a2=bravo,tun_id=0x186a2=bravo,192.168.200.=bravo,10.0.122.=bravo''"

definition ovsFlags :: "formal list" where
  "ovsFlags = [stringFlag ''ctl'', stringFlag ''remote-write'', durationFlag ''interval'', stringFlag ''labels'',
     stringFlag ''tenant-rules'', boolFlag ''once'']"

definition ovsDefaults :: "(string \<rightharpoonup> string) \<Rightarrow> vars" where
  "ovsDefaults env =
     [''ctl'' \<mapsto> FString (envOr_ovs env ''OVS_CTL'' []), ''remote-write'' \<mapsto> FString (Getenv env ''TMSTAT_REMOTE_WRITE_URL''),
      ''interval'' \<mapsto> FDuration (envDur env ''PUSH_INTERVAL'' 5000000000),
      ''labels'' \<mapsto> FString (Getenv env ''TMSTAT_EXTERNAL_LABELS''),
      ''tenant-rules'' \<mapsto> FString (envOr_ovs env ''TENANT_RULES'' defaultRules), ''once'' \<mapsto> FBool False]"

definition ovsConfigure :: "vars \<Rightarrow> ovsExporter" where
  "ovsConfigure vs = newExporter (strVar vs ''ctl'') (strVar vs ''remote-write'') (strVar vs ''labels'') (strVar vs ''tenant-rules'')"

section \<open>The text of one scrape\<close>

definition fmtLabels :: "(string \<Rightarrow> bool) \<Rightarrow> label list \<Rightarrow> string" where
  "fmtLabels isPrint ls =
     (if ls = [] then []
      else CHR 0x7B # Join CHR '','' (map (\<lambda>l. lblName l @ CHR ''='' # Quote isPrint (lblValue l)) ls) @ [CHR 0x7D])"

definition printSample :: "(string \<Rightarrow> bool) \<Rightarrow> sample \<Rightarrow> string" where
  "printSample isPrint s = Metric s @ fmtLabels isPrint (Labels s) @ CHR '' '' # FormatG (SValue s) @ [CHR 0x0A]"

section \<open>The program\<close>

text \<open>With \<open>-once\<close> one scrape is printed; without a push URL the program stops; the ticker panics for an
  interval that is not positive.\<close>

datatype ovs_exit = Usage nat | Fatal ovs_error | NoURL | Panic | Printed string
  | Looped "(ovs_error option \<times> bool \<times> bytes) list"

definition main_ovs :: "(bytes \<Rightarrow> bytes) \<Rightarrow> (string \<Rightarrow> bool) \<Rightarrow> (string \<rightharpoonup> string) \<Rightarrow> string list \<Rightarrow> (ovs_error + string)
    \<Rightarrow> (ovsExporter \<Rightarrow> key list) \<Rightarrow> ovsTick list \<Rightarrow> ovs_exit" where
  "main_ovs snappy isPrint env args dump order ticks =
     (case parseFlags ovsFlags (ovsDefaults env) args of
        Inl err \<Rightarrow> Usage (flagExit err)
      | Inr (vs, _) \<Rightarrow>
          (let e = ovsConfigure vs in
           if boolVar vs ''once'' then
             (case scrape dump e of
                (Some err, _) \<Rightarrow> Fatal err
              | (None, e1) \<Rightarrow> Printed (concat (map (printSample isPrint) (samples_ovs (order e1) e1))))
           else if orwURL e = [] then NoURL
           else if intVar vs ''interval'' \<le> 0 then Panic
           else Looped (fst (ovsLoop snappy ticks e))))"

section \<open>The exchange with the daemon\<close>






section \<open>Properties\<close>



end
