(* ===== verification/Base64.thy ===== *)
theory Base64
  imports GoJson
begin

text \<open>
  Standard base64 and PEM, as encoding/base64 and encoding/pem write them: encoding/json writes a
  byte slice in base64, the webhook's certificates are base64 texts of PEM blocks.
\<close>

section \<open>Base64\<close>

text \<open>encoding/json writes a byte slice as its standard base64 text.\<close>

definition b64_char :: "nat \<Rightarrow> char" where
  "b64_char n = char_of (if n < 26 then 65 + n else if n < 52 then 71 + n else if n < 62 then n - 4
     else if n = 62 then 43 else 47)"

fun base64 :: "string \<Rightarrow> string" where
  "base64 [] = []"
| "base64 [a] = [b64_char (ord a div 4), b64_char (ord a mod 4 * 16), CHR ''='', CHR ''='']"
| "base64 [a, b] = [b64_char (ord a div 4), b64_char (ord a mod 4 * 16 + ord b div 16),
     b64_char (ord b mod 16 * 4), CHR ''='']"
| "base64 (a # b # c # s) = b64_char (ord a div 4) # b64_char (ord a mod 4 * 16 + ord b div 16)
     # b64_char (ord b mod 16 * 4 + ord c div 64) # b64_char (ord c mod 64) # base64 s"

text \<open>The reader at the other side.\<close>

definition b64_val :: "char \<Rightarrow> nat option" where
  "b64_val c = (let n = ord c in
     if 65 \<le> n \<and> n \<le> 90 then Some (n - 65) else if 97 \<le> n \<and> n \<le> 122 then Some (n - 71)
     else if 48 \<le> n \<and> n \<le> 57 then Some (n + 4) else if n = 43 then Some 62 else if n = 47 then Some 63 else None)"

fun unbase64 :: "string \<Rightarrow> string option" where
  "unbase64 [] = Some []"
| "unbase64 (p # q # r # t # s) =
     (case (b64_val p, b64_val q) of
        (Some w, Some x) \<Rightarrow>
          if r = CHR ''='' then (if t = CHR ''='' \<and> s = [] then Some [char_of (4 * w + x div 16)] else None)
          else (case b64_val r of
            None \<Rightarrow> None
          | Some y \<Rightarrow>
              if t = CHR ''='' then
                (if s = [] then Some [char_of (4 * w + x div 16), char_of (x mod 16 * 16 + y div 4)] else None)
              else (case b64_val t of
                None \<Rightarrow> None
              | Some z \<Rightarrow> map_option (\<lambda>u. char_of (4 * w + x div 16) # char_of (x mod 16 * 16 + y div 4)
                    # char_of (y mod 4 * 64 + z) # u) (unbase64 s)))
      | _ \<Rightarrow> None)"
| "unbase64 _ = None"

lemma b64_val_char: "n < 64 \<Longrightarrow> b64_val (b64_char n) = Some n"
  by (auto simp: b64_val_def b64_char_def Let_def)

lemma b64_char_not_pad: "n < 64 \<Longrightarrow> b64_char n \<noteq> CHR ''=''"
  using b64_val_char [of n] by (auto simp: b64_val_def)

lemma ord_less: "ord c < 256"
  by (cases c) simp

lemma sextets:
  "ord a div 4 < 64" "ord a mod 4 * 16 + ord b div 16 < 64" "ord b mod 16 * 4 + ord c div 64 < 64"
  "ord a mod 4 * 16 < 64" "ord b mod 16 * 4 < 64"
proof -
  have d: "ord a div 4 < 64" "ord b div 16 < 16" "ord c div 64 < 4"
    using ord_less [of a] ord_less [of b] ord_less [of c] by (simp_all add: less_mult_imp_div_less)
  have m: "ord a mod 4 < 4" "ord b mod 16 < 16" by simp_all
  show "ord a div 4 < 64" "ord a mod 4 * 16 + ord b div 16 < 64" "ord b mod 16 * 4 + ord c div 64 < 64"
    "ord a mod 4 * 16 < 64" "ord b mod 16 * 4 < 64"
    using d m by linarith+
qed

lemma unbase64_base64: "unbase64 (base64 s) = Some s"
proof -
  have j: "ord b div 16 mod 16 = ord b div 16" "ord b div 16 div 16 = 0" "ord c div 64 mod 4 = ord c div 64"
    "ord c div 64 div 4 = 0" for b c
    using ord_less [of b] ord_less [of c] by (simp_all add: less_mult_imp_div_less)
  show ?thesis
    by (induction s rule: base64.induct) (simp_all add: sextets j b64_val_char b64_char_not_pad)
qed

lemma base64_ascii: "list_all (\<lambda>c. ord c < 0x80) (base64 s)"
proof -
  have c: "ord (b64_char n) < 128" if "n < 64" for n
  proof -
    have "(if n < 26 then 65 + n else if n < 52 then 71 + n else if n < 62 then n - 4
      else if n = 62 then 43 else 47) < 128" using that by auto
    then show ?thesis by (simp add: b64_char_def)
  qed
  show ?thesis by (induction s rule: base64.induct) (simp_all add: sextets c)
qed

text \<open>The texts contain no line end and no dash.\<close>

lemma base64_chars: "c \<in> set (base64 s) \<Longrightarrow> 0x20 < ord c \<and> c \<noteq> CHR ''-''"
proof -
  have c: "0x20 < ord (b64_char n) \<and> b64_char n \<noteq> CHR ''-''" if "n < 64" for n
  proof -
    have "0x20 < (if n < 26 then 65 + n else if n < 52 then 71 + n else if n < 62 then n - 4
      else if n = 62 then 43 else 47)" using that by auto
    moreover have "b64_val (CHR ''-'') = None" by (simp add: b64_val_def)
    ultimately show ?thesis using that b64_val_char [OF that] by (auto simp: b64_char_def)
  qed
  show "c \<in> set (base64 s) \<Longrightarrow> 0x20 < ord c \<and> c \<noteq> CHR ''-''"
    by (induction s rule: base64.induct) (auto simp: sextets c)
qed

section \<open>PEM\<close>

text \<open>A block without headers; the base64 text is broken into lines of 64.\<close>

function lines64 :: "string \<Rightarrow> string" where
  "lines64 s = (if s = [] then [] else take 64 s @ CHR 0x0A # lines64 (drop 64 s))"
  by pat_completeness auto
termination
  by (relation "measure length") auto

declare lines64.simps [simp del]

definition EncodeToMemory :: "string \<Rightarrow> string \<Rightarrow> string" where
  "EncodeToMemory typ bytes =
     ''-----BEGIN '' @ typ @ ''-----'' @ CHR 0x0A # lines64 (base64 bytes) @ ''-----END '' @ typ @ ''-----'' @ [CHR 0x0A]"

text \<open>A reader of one block: the type, and the base64 text without its line ends.\<close>

definition pemBlock :: "string \<Rightarrow> (string \<times> string) option" where
  "pemBlock s =
     (case Split CHR 0x0A s of
        [] \<Rightarrow> None
      | first # rest \<Rightarrow>
          if HasPrefix first ''-----BEGIN '' \<and> HasSuffix first ''-----'' \<and> 16 \<le> length first
          then (let typ = take (length first - 16) (drop 11 first);
                    body = takeWhile (\<lambda>l. \<not> HasPrefix l ''-----END '') rest;
                    after = dropWhile (\<lambda>l. \<not> HasPrefix l ''-----END '') rest
                in if after \<noteq> [] \<and> hd after = ''-----END '' @ typ @ ''-----''
                   then map_option (Pair typ) (unbase64 (concat body)) else None)
          else None)"

text \<open>The lines of a broken text.\<close>

function chunks :: "string \<Rightarrow> string list" where
  "chunks s = (if s = [] then [] else take 64 s # chunks (drop 64 s))"
  by pat_completeness auto
termination
  by (relation "measure length") auto

declare chunks.simps [simp del]

lemma concat_chunks: "concat (chunks s) = s"
  by (induction s rule: chunks.induct) (subst chunks.simps, auto)

lemma lines64_chunks: "lines64 s = concat (map (\<lambda>l. l @ [CHR 0x0A]) (chunks s))"
  by (induction s rule: chunks.induct) (subst lines64.simps, subst chunks.simps, auto)

lemma chunks_set: "l \<in> set (chunks s) \<Longrightarrow> set l \<subseteq> set s \<and> l \<noteq> []"
proof (induction s rule: chunks.induct)
  case (1 s)
  then show ?case
    by (subst (asm) (2) chunks.simps) (auto split: if_splits dest: in_set_takeD in_set_dropD)
qed

lemma Split_lines:
  "list_all (\<lambda>l. CHR 0x0A \<notin> set l) ls \<Longrightarrow> Split CHR 0x0A (concat (map (\<lambda>l. l @ [CHR 0x0A]) ls) @ t) = ls @ Split CHR 0x0A t"
  by (induction ls) (simp_all add: Split_append_sep)

lemma pemBlock_EncodeToMemory:
  assumes "CHR 0x0A \<notin> set typ"
  shows "pemBlock (EncodeToMemory typ bytes) = Some (typ, bytes)"
proof -
  let ?first = "''-----BEGIN '' @ typ @ ''-----''" and ?stop = "''-----END '' @ typ @ ''-----''"
  let ?ls = "chunks (base64 bytes)"
  have l: "CHR 0x0A \<notin> set l \<and> \<not> HasPrefix l ''-----END ''" if "l \<in> set ?ls" for l
  proof -
    have s: "set l \<subseteq> set (base64 bytes)" "l \<noteq> []" using chunks_set [OF that] by auto
    have "CHR 0x0A \<notin> set (base64 bytes)" using base64_chars [of "CHR 0x0A" bytes] by auto
    moreover have "hd l \<noteq> CHR ''-''" using s base64_chars [of "hd l" bytes] by (cases l) auto
    ultimately show ?thesis using s by (cases l) auto
  qed
  have nl: "list_all (\<lambda>l. CHR 0x0A \<notin> set l) (?first # ?ls @ [?stop])"
    using l assms by (auto simp: list_all_iff)
  have "EncodeToMemory typ bytes = concat (map (\<lambda>l. l @ [CHR 0x0A]) (?first # ?ls @ [?stop])) @ []"
    by (simp add: EncodeToMemory_def lines64_chunks)
  then have split: "Split CHR 0x0A (EncodeToMemory typ bytes) = ?first # ?ls @ [?stop, []]"
    using Split_lines [OF nl, of "[]"] by simp
  have e: "HasPrefix ?stop ''-----END ''" by simp
  have tw: "takeWhile (\<lambda>l. \<not> HasPrefix l ''-----END '') (?ls @ [?stop, []]) = ?ls"
    "dropWhile (\<lambda>l. \<not> HasPrefix l ''-----END '') (?ls @ [?stop, []]) = [?stop, []]"
    using l e by (simp_all add: takeWhile_append2 dropWhile_append2 del: HasPrefix.simps)
  have "HasSuffix ?first ''-----''" by (simp add: HasSuffix_def)
  then show ?thesis
    unfolding pemBlock_def split list.case Let_def tw
    by (simp add: concat_chunks unbase64_base64)
qed

end
