(* ===== verification/Certs.thy ===== *)
theory Certs
  imports Base64
begin

text \<open>
  The webhook's certificates, internal/inject/cert.go: a self-signed CA and a serving certificate for
  the DNS names of the webhook's service. The cryptography is package crypto/x509 over the random
  source of the system; here it is the record \<open>crypto\<close>: the n-th key that is generated (or the error),
  and the results of signing, parsing and key encoding. Keys are known by their number. Errors are
  their texts; times are nanoseconds.
\<close>

section \<open>Templates\<close>

datatype keyUsage = KeyUsageCertSign | KeyUsageDigitalSignature

datatype extKeyUsage = ExtKeyUsageServerAuth

record x509 =
  xSerialNumber :: int
  xCommonName :: string
  xDNSNames :: "string list"
  xNotBefore :: int
  xNotAfter :: int
  xIsCA :: bool
  xKeyUsage :: "keyUsage list"
  xExtKeyUsage :: "extKeyUsage list"
  xBasicConstraintsValid :: bool

text \<open>\<open>crCreate template parent pub signer\<close> gives the DER bytes.\<close>

record crypto =
  crKey :: "nat \<Rightarrow> string option"
  crCreate :: "x509 \<Rightarrow> x509 \<Rightarrow> nat \<Rightarrow> nat \<Rightarrow> string + string"
  crParse :: "string \<Rightarrow> string + x509"
  crPKCS8 :: "nat \<Rightarrow> string + string"

record webhookCerts =
  CABundleB64 :: string
  ServerCertB64 :: string
  ServerKeyB64 :: string

definition hour :: int where
  "hour = 3600000000000"

definition caTemplate :: "int \<times> int \<Rightarrow> x509" where
  "caTemplate clock =
     \<lparr>xSerialNumber = 1, xCommonName = ''tmmscope-webhook-ca'', xDNSNames = [],
      xNotBefore = fst clock - hour, xNotAfter = snd clock + 10 * 365 * 24 * hour, xIsCA = True,
      xKeyUsage = [KeyUsageCertSign, KeyUsageDigitalSignature], xExtKeyUsage = [], xBasicConstraintsValid = True\<rparr>"

definition dnsNames :: "string \<Rightarrow> string \<Rightarrow> string list" where
  "dnsNames service namespace =
     [service @ CHR ''.'' # namespace @ ''.svc'', service @ CHR ''.'' # namespace @ ''.svc.cluster.local'']"

definition serverTemplate :: "string list \<Rightarrow> int \<times> int \<Rightarrow> x509" where
  "serverTemplate dns clock =
     \<lparr>xSerialNumber = 2, xCommonName = dns ! 0, xDNSNames = dns,
      xNotBefore = fst clock - hour, xNotAfter = snd clock + 10 * 365 * 24 * hour, xIsCA = False,
      xKeyUsage = [KeyUsageDigitalSignature], xExtKeyUsage = [ExtKeyUsageServerAuth], xBasicConstraintsValid = False\<rparr>"

section \<open>Generation\<close>

text \<open>\<open>clock\<close> holds the two readings of the clock, for the start and for the end of the validity. The CA's key is the first key that is generated, the server's the second.\<close>

definition generateWebhookCerts :: "crypto \<Rightarrow> int \<times> int \<Rightarrow> string \<Rightarrow> string \<Rightarrow> string + webhookCerts" where
  "generateWebhookCerts cr clock service namespace =
     (case crKey cr 0 of
        Some err \<Rightarrow> Inl err
      | None \<Rightarrow>
        (case crCreate cr (caTemplate clock) (caTemplate clock) 0 0 of
           Inl err \<Rightarrow> Inl err
         | Inr caDER \<Rightarrow>
           (case crParse cr caDER of
              Inl err \<Rightarrow> Inl err
            | Inr caCert \<Rightarrow>
              (case crKey cr 1 of
                 Some err \<Rightarrow> Inl err
               | None \<Rightarrow>
                 (case crCreate cr (serverTemplate (dnsNames service namespace) clock) caCert 1 0 of
                    Inl err \<Rightarrow> Inl err
                  | Inr srvDER \<Rightarrow>
                    (case crPKCS8 cr 1 of
                       Inl err \<Rightarrow> Inl err
                     | Inr srvKeyDER \<Rightarrow>
                         Inr \<lparr>CABundleB64 = base64 (EncodeToMemory ''CERTIFICATE'' caDER),
                              ServerCertB64 = base64 (EncodeToMemory ''CERTIFICATE'' srvDER),
                              ServerKeyB64 = base64 (EncodeToMemory ''PRIVATE KEY'' srvKeyDER)\<rparr>))))))"

section \<open>Properties\<close>

text \<open>What a reader of one of the texts finds: base64, then one PEM block.\<close>

definition pemOf :: "string \<Rightarrow> (string \<times> string) option" where
  "pemOf s = Option.bind (unbase64 s) pemBlock"

lemma pemOf_encoded: "CHR 0x0A \<notin> set typ \<Longrightarrow> pemOf (base64 (EncodeToMemory typ bytes)) = Some (typ, bytes)"
  by (simp add: pemOf_def unbase64_base64 pemBlock_EncodeToMemory)

text \<open>C28: the generated texts decode to one PEM block each: the CA certificate that the CA key signed
  for itself, the serving certificate that the same key signed, with the parsed CA as its issuer, for
  the two DNS names of the service, and the key that the serving certificate is for; otherwise the
  error is the one of the first step that failed.\<close>

theorem webhook_certs:
  "case generateWebhookCerts cr clock service namespace of
     Inr certs \<Rightarrow>
       (\<exists>caDER caCert srvDER keyDER.
          crCreate cr (caTemplate clock) (caTemplate clock) 0 0 = Inr caDER \<and> crParse cr caDER = Inr caCert
          \<and> crCreate cr (serverTemplate [service @ ''.'' @ namespace @ ''.svc'', service @ ''.'' @ namespace @ ''.svc.cluster.local''] clock)
              caCert 1 0 = Inr srvDER
          \<and> crPKCS8 cr 1 = Inr keyDER
          \<and> pemOf (CABundleB64 certs) = Some (''CERTIFICATE'', caDER)
          \<and> pemOf (ServerCertB64 certs) = Some (''CERTIFICATE'', srvDER)
          \<and> pemOf (ServerKeyB64 certs) = Some (''PRIVATE KEY'', keyDER))
   | Inl err \<Rightarrow>
       err \<in> set (concat (map (\<lambda>n. case crKey cr n of None \<Rightarrow> [] | Some e \<Rightarrow> [e]) [0, 1]))
       \<or> crCreate cr (caTemplate clock) (caTemplate clock) 0 0 = Inl err \<or> (\<exists>der. crParse cr der = Inl err)
       \<or> (\<exists>ca. crCreate cr (serverTemplate (dnsNames service namespace) clock) ca 1 0 = Inl err) \<or> crPKCS8 cr 1 = Inl err"
  by (auto simp: generateWebhookCerts_def dnsNames_def pemOf_encoded split: option.splits sum.splits)

text \<open>Cryptography for the witnesses: certificates are their common names, and one that always fails.\<close>

definition demo_crypto :: crypto where
  "demo_crypto = \<lparr>crKey = (\<lambda>_. None), crCreate = (\<lambda>t p k s. Inr (xCommonName t)), crParse = (\<lambda>_. Inr (caTemplate (0, 0))),
     crPKCS8 = (\<lambda>_. Inr ''key'')\<rparr>"

definition no_crypto :: crypto where
  "no_crypto = demo_crypto\<lparr>crKey := \<lambda>_. Some ''no entropy''\<rparr>"

end
