(* ===== verification/Template.thy ===== *)
theory Template
  imports GoBase
begin

text \<open>
  The part of text/template that the two templates of the program use: text, and actions that print
  a field chain of the data. Parsing answers \<open>None\<close> for every other action (among them those that
  text/template rejects), and execution for a chain that the data does not have.
\<close>

section \<open>Parsing\<close>

datatype piece = Literal string | Field "string list"

definition blank :: "char \<Rightarrow> bool" where
  "blank c \<longleftrightarrow> c \<in> {CHR 0x20, CHR 0x09, CHR 0x0A, CHR 0x0D}"

definition ident :: "string \<Rightarrow> bool" where
  "ident s \<longleftrightarrow> s \<noteq> [] \<and> \<not> is_digit (hd s)
     \<and> list_all (\<lambda>c. is_digit c \<or> c = CHR ''_'' \<or> (CHR ''a'' \<le> c \<and> c \<le> CHR ''z'') \<or> (CHR ''A'' \<le> c \<and> c \<le> CHR ''Z'')) s"

text \<open>An action: blanks, a dot, names separated by dots, blanks.\<close>

definition fieldChain :: "string \<Rightarrow> string list option" where
  "fieldChain s =
     (let t = rev (dropWhile blank (rev (dropWhile blank s))) in
      case t of
        [] \<Rightarrow> None
      | c # cs \<Rightarrow> (let names = Split CHR ''.'' cs in if c = CHR ''.'' \<and> list_all ident names then Some names else None))"

definition cons_text :: "char \<Rightarrow> piece list \<Rightarrow> piece list" where
  "cons_text c ps = (case ps of Literal t # qs \<Rightarrow> Literal (c # t) # qs | _ \<Rightarrow> Literal [c] # ps)"

text \<open>\<open>act\<close> is the action read so far, or \<open>None\<close> in the text.\<close>

fun parsePieces :: "string option \<Rightarrow> string \<Rightarrow> piece list option" where
  "parsePieces None [] = Some []"
| "parsePieces None (c # cs) =
     (if c = CHR 0x7B \<and> cs \<noteq> [] \<and> hd cs = CHR 0x7B then parsePieces (Some []) (tl cs)
      else map_option (cons_text c) (parsePieces None cs))"
| "parsePieces (Some act) [] = None"
| "parsePieces (Some act) (c # cs) =
     (if c = CHR 0x7D \<and> cs \<noteq> [] \<and> hd cs = CHR 0x7D
      then (case fieldChain act of None \<Rightarrow> None | Some ns \<Rightarrow> map_option (Cons (Field ns)) (parsePieces None (tl cs)))
      else parsePieces (Some (act @ [c])) cs)"

definition parseTemplate :: "string \<Rightarrow> piece list option" where
  "parseTemplate s = parsePieces None s"

section \<open>Execution\<close>

datatype tdata = TString string | TInt int | TMap "(string \<times> tdata) list"

fun chainValue :: "tdata \<Rightarrow> string list \<Rightarrow> tdata option" where
  "chainValue d [] = Some d"
| "chainValue (TMap m) (n # ns) = (case map_of m n of None \<Rightarrow> None | Some d \<Rightarrow> chainValue d ns)"
| "chainValue d (n # ns) = None"

definition printValue :: "tdata \<Rightarrow> string option" where
  "printValue d = (case d of TString s \<Rightarrow> Some s | TInt n \<Rightarrow> Some (FormatInt n) | TMap _ \<Rightarrow> None)"

fun Execute :: "tdata \<Rightarrow> piece list \<Rightarrow> string option" where
  "Execute d [] = Some []"
| "Execute d (Literal t # ps) = map_option (append t) (Execute d ps)"
| "Execute d (Field ns # ps) =
     (case Option.bind (chainValue d ns) printValue of
        None \<Rightarrow> None
      | Some s \<Rightarrow> map_option (append s) (Execute d ps))"

definition Render :: "string \<Rightarrow> tdata \<Rightarrow> string option" where
  "Render s d = Option.bind (parseTemplate s) (Execute d)"

text \<open>A template kept as its lines.\<close>

definition unlines :: "string list \<Rightarrow> string" where
  "unlines ls = concat (map (\<lambda>l. l @ [CHR 0x0A]) ls)"

section \<open>Rendering by lines\<close>

lemma Execute_cons_text: "Execute d (cons_text c ps) = map_option (Cons c) (Execute d ps)"
proof -
  have a: "append (c # x) = Cons c \<circ> append x" "append [c] = Cons c" for x by (simp_all add: fun_eq_iff)
  show ?thesis
  proof (cases ps)
    case (Cons p qs)
    then show ?thesis by (cases p) (simp_all add: cons_text_def a option.map_comp comp_def)
  qed (simp add: cons_text_def)
qed

text \<open>A text that parses on its own and does not end in an open brace renders to what it renders to
  on its own, whatever follows.\<close>

definition closed :: "string \<Rightarrow> bool" where
  "closed s \<longleftrightarrow> s = [] \<or> last s \<noteq> CHR 0x7B"

lemma bind_map: "Option.bind x (\<lambda>q. map_option f (g q)) = map_option f (Option.bind x g)"
  by (cases x) simp_all

lemma parsePieces_append:
  "parsePieces st s = Some ps \<Longrightarrow> closed s \<Longrightarrow> Execute d ps = Some t \<Longrightarrow>
   Option.bind (parsePieces st (s @ rest)) (Execute d) = map_option (append t) (Option.bind (parsePieces None rest) (Execute d))"
proof (induction st s arbitrary: ps t rule: parsePieces.induct)
  case 1
  then show ?case by (simp add: option.map_ident)
next
  case (2 c cs)
  show ?case
  proof (cases "c = CHR 0x7B \<and> cs \<noteq> [] \<and> hd cs = CHR 0x7B")
    case True
    then obtain cs' where cs: "cs = CHR 0x7B # cs'" by (cases cs) auto
    have "closed cs'" using 2(4) by (cases cs') (simp_all add: closed_def cs)
    then show ?thesis using 2(1) [OF True, of ps t] 2(3,5) True cs by simp
  next
    case False
    have "(c = CHR 0x7B \<and> cs @ rest \<noteq> [] \<and> hd (cs @ rest) = CHR 0x7B) = False"
      using False 2(4) by (cases cs) (auto simp: closed_def)
    then have go: "parsePieces None ((c # cs) @ rest) = map_option (cons_text c) (parsePieces None (cs @ rest))"
      by (simp only: append_Cons parsePieces.simps if_False)
    obtain qs where qs: "parsePieces None cs = Some qs" "ps = cons_text c qs" using 2(3) False by auto
    obtain u where u: "Execute d qs = Some u" "t = c # u" using 2(5) qs(2) by (auto simp: Execute_cons_text)
    have "closed cs" using 2(4) by (cases cs) (simp_all add: closed_def)
    from 2(2) [OF False qs(1) this u(1)] show ?thesis
      unfolding go by (simp add: u(2) bind_map_option comp_def Execute_cons_text bind_map option.map_comp)
  qed
next
  case (3 act)
  then show ?case by simp
next
  case (4 act c cs)
  have cl: "closed cs" using 4(4) by (cases cs) (simp_all add: closed_def)
  show ?case
  proof (cases "c = CHR 0x7D \<and> cs \<noteq> [] \<and> hd cs = CHR 0x7D")
    case True
    then obtain cs' where cs: "cs = CHR 0x7D # cs'" by (cases cs) auto
    have cl: "closed cs'" using cl by (cases cs') (simp_all add: closed_def cs)
    obtain ns qs where f: "fieldChain act = Some ns" "parsePieces None cs' = Some qs" "ps = Field ns # qs"
      using 4(3) True cs by (auto split: option.splits)
    obtain v u where v: "Option.bind (chainValue d ns) printValue = Some v" "Execute d qs = Some u" "t = v @ u"
      using 4(5) f(3) by (auto split: option.splits)
    show ?thesis
      using 4(1) [OF True f(1), of qs u] f v cl True cs
      by (simp add: bind_map_option comp_def option.map_comp bind_map)
  next
    case False
    have "cs \<noteq> []" using 4(3) False by auto
    then have "(c = CHR 0x7D \<and> cs @ rest \<noteq> [] \<and> hd (cs @ rest) = CHR 0x7D) = False" using False by auto
    then have go: "parsePieces (Some act) ((c # cs) @ rest) = parsePieces (Some (act @ [c])) (cs @ rest)"
      by (simp only: append_Cons parsePieces.simps if_False)
    have "parsePieces (Some (act @ [c])) cs = Some ps" using 4(3) False by auto
    from 4(2) [OF False this cl 4(5)] show ?thesis unfolding go .
  qed
qed

lemma render_append:
  assumes "Render s d = Some t" and "closed s"
  shows "Render (s @ rest) d = map_option (append t) (Render rest d)"
proof -
  obtain ps where "parsePieces None s = Some ps" "Execute d ps = Some t"
    using assms(1) by (auto simp: Render_def parseTemplate_def bind_eq_Some_conv)
  from parsePieces_append [OF this(1) assms(2) this(2), of rest] show ?thesis by (simp add: Render_def parseTemplate_def)
qed

lemma render_unlines:
  assumes "list_all2 (\<lambda>l t. closed l \<and> Render l d = Some t) ls ts"
  shows "Render (unlines ls) d = Some (unlines ts)"
  using assms
proof (induction rule: list_all2_induct)
  case Nil
  then show ?case by (simp add: unlines_def Render_def parseTemplate_def)
next
  case (Cons l ls t ts)
  have nl: "Render ([CHR 0x0A] @ rest) d = map_option (append [CHR 0x0A]) (Render rest d)" for rest
    by (rule render_append) (simp_all add: Render_def parseTemplate_def cons_text_def closed_def)
  have "Render (l @ [CHR 0x0A] @ unlines ls) d = Some (t @ [CHR 0x0A] @ unlines ts)"
    using render_append [of l d t] Cons by (simp add: nl [of "unlines ls", simplified])
  then show ?case by (simp add: unlines_def)
qed

lemma render_plain: "CHR 0x7B \<notin> set l \<Longrightarrow> Render l d = Some l"
  by (induction l) (auto simp: Render_def parseTemplate_def Execute_cons_text split: bind_splits)

text \<open>A template whose lines Render one by one.\<close>

definition fill :: "string list \<Rightarrow> tdata \<Rightarrow> string list" where
  "fill ls d = map (\<lambda>l. case Render l d of Some t \<Rightarrow> t | None \<Rightarrow> []) ls"

lemma render_fill:
  assumes "list_all (\<lambda>l. closed l \<and> Render l d \<noteq> None) ls"
  shows "Render (unlines ls) d = Some (unlines (fill ls d))"
  using assms by (intro render_unlines) (auto simp: fill_def list_all2_conv_all_nth list_all_length)

lemma Split_unlines: "list_all (\<lambda>l. CHR 0x0A \<notin> set l) ls \<Longrightarrow> Split CHR 0x0A (unlines ls) = ls @ [[]]"
  by (induction ls) (simp_all add: unlines_def Split_append_sep Split_no_sep)

end
