(* ===== verification/WebhookDeploy.thy ===== *)
theory WebhookDeploy
  imports Inject Certs Template GoFlag
begin

text \<open>
  The deployment of the admission webhook, internal/inject/webhook.go: the certificates and the
  options fill the manifest template, kubectl applies the result, the rollout is awaited, and the
  tmm pods are deleted last. The template is webhook.tmpl.yaml, line by line.
\<close>

definition DefaultWebhookImage :: string where
  "DefaultWebhookImage = ''ghcr.io/mwiget/tmm-stat-webhook:latest''"

section \<open>The manifest\<close>

definition webhookLines :: "string list" where
  "webhookLines =
     [''# tmmscope '' @ [CHR 0xE2, CHR 0x80, CHR 0x94] @ '' mutating admission webhook that injects the tmm-stat-exporter'',
      ''# sidecar into operator-managed f5-tmm pods at admission (a direct Deployment'',
      ''# patch would be reconciled away). Self-signed serving cert + caBundle, so no'',
      ''# cert-manager dependency. failurePolicy: Ignore '' @ [CHR 0xE2, CHR 0x80, CHR 0x94] @ '' telemetry must never wedge tmm'',
      ''# pod creation.'',
      ''apiVersion: v1'',
      ''kind: Secret'',
      ''metadata:'',
      ''  name: tmm-stat-webhook-tls'',
      ''  namespace: {{ .Namespace }}'',
      ''type: kubernetes.io/tls'',
      ''data:'',
      ''  tls.crt: {{ .Certs.ServerCertB64 }}'',
      ''  tls.key: {{ .Certs.ServerKeyB64 }}'',
      ''---'',
      ''apiVersion: apps/v1'',
      ''kind: Deployment'',
      ''metadata:'',
      ''  name: tmm-stat-webhook'',
      ''  namespace: {{ .Namespace }}'',
      ''  labels:'',
      ''    app: tmm-stat-webhook'',
      ''spec:'',
      ''  replicas: 1'',
      ''  selector:'',
      ''    matchLabels:'',
      ''      app: tmm-stat-webhook'',
      ''  template:'',
      ''    metadata:'',
      ''      labels:'',
      ''        app: tmm-stat-webhook'',
      ''    spec:'',
      ''      tolerations:'',
      ''        - key: node-role.kubernetes.io/control-plane'',
      ''          operator: Exists'',
      ''          effect: NoSchedule'',
      ''      containers:'',
      ''        - name: webhook'',
      ''          image: {{ .WebhookImage }}'',
      ''          imagePullPolicy: Always'',
      ''          args:'',
      ''            - --remote-write-url={{ .RemoteWriteURL }}'',
      ''            - --cluster={{ .ClusterName }}'',
      ''            - --exporter-image={{ .ExporterImage }}'',
      ''          ports:'',
      ''            - containerPort: 8443'',
      ''          readinessProbe:'',
      ''            tcpSocket:'',
      ''              port: 8443'',
      ''            initialDelaySeconds: 2'',
      ''            periodSeconds: 5'',
      ''          securityContext:'',
      ''            runAsNonRoot: true'',
      ''            runAsUser: 65532'',
      ''            readOnlyRootFilesystem: true'',
      ''            allowPrivilegeEscalation: false'',
      ''            capabilities:'',
      ''              drop: ['' @ [CHR 0x22] @ ''ALL'' @ [CHR 0x22] @ '']'',
      ''          resources:'',
      ''            requests: {cpu: 25m, memory: 32Mi}'',
      ''            limits: {cpu: 50m, memory: 64Mi}'',
      ''          volumeMounts:'',
      ''            - name: tls'',
      ''              mountPath: /tls'',
      ''              readOnly: true'',
      ''      volumes:'',
      ''        - name: tls'',
      ''          secret:'',
      ''            secretName: tmm-stat-webhook-tls'',
      ''---'',
      ''apiVersion: v1'',
      ''kind: Service'',
      ''metadata:'',
      ''  name: tmm-stat-webhook'',
      ''  namespace: {{ .Namespace }}'',
      ''spec:'',
      ''  selector:'',
      ''    app: tmm-stat-webhook'',
      ''  ports:'',
      ''    - port: 443'',
      ''      targetPort: 8443'',
      ''---'',
      ''apiVersion: admissionregistration.k8s.io/v1'',
      ''kind: MutatingWebhookConfiguration'',
      ''metadata:'',
      ''  name: tmm-stat-webhook-{{ .Namespace }}'',
      ''webhooks:'',
      ''  - name: tmm-stat.tmmscope.io'',
      ''    clientConfig:'',
      ''      service:'',
      ''        name: tmm-stat-webhook'',
      ''        namespace: {{ .Namespace }}'',
      ''        path: /mutate'',
      ''        port: 443'',
      ''      caBundle: {{ .Certs.CABundleB64 }}'',
      ''    rules:'',
      ''      - operations: ['' @ [CHR 0x22] @ ''CREATE'' @ [CHR 0x22] @ '']'',
      ''        apiGroups: ['' @ [CHR 0x22, CHR 0x22] @ '']'',
      ''        apiVersions: ['' @ [CHR 0x22] @ ''v1'' @ [CHR 0x22] @ '']'',
      ''        resources: ['' @ [CHR 0x22] @ ''pods'' @ [CHR 0x22] @ '']'',
      ''        scope: Namespaced'',
      ''    objectSelector:'',
      ''      matchLabels:'',
      ''        {{ .TargetLabelKey }}: {{ .TargetLabelValue }}'',
      ''    namespaceSelector:'',
      ''      matchLabels:'',
      ''        kubernetes.io/metadata.name: {{ .Namespace }}'',
      ''    failurePolicy: Ignore'',
      ''    sideEffects: None'',
      ''    admissionReviewVersions: ['' @ [CHR 0x22] @ ''v1'' @ [CHR 0x22] @ '']'']"

definition webhookManifest :: string where
  "webhookManifest = unlines webhookLines"

text \<open>The values the template is executed with.\<close>

definition webhookData :: "options \<Rightarrow> webhookCerts \<Rightarrow> tdata" where
  "webhookData opt certs =
     (case targetLabel opt of (key, val) \<Rightarrow>
        TMap [(''Namespace'', TString (oNamespace opt)), (''WebhookImage'', TString (oWebhookImage opt)),
              (''ExporterImage'', TString (oImage opt)), (''ClusterName'', TString (oCluster opt)),
              (''RemoteWriteURL'', TString (oRemoteWriteURL opt)), (''TargetLabelKey'', TString key),
              (''TargetLabelValue'', TString val),
              (''Certs'', TMap [(''CABundleB64'', TString (CABundleB64 certs)), (''ServerCertB64'', TString (ServerCertB64 certs)),
                 (''ServerKeyB64'', TString (ServerKeyB64 certs))])])"

definition renderWebhook :: "tdata \<Rightarrow> string option" where
  "renderWebhook d = Render webhookManifest d"

section \<open>Deployment and removal\<close>

datatype webhook_error = CertsFailed string | RenderFailed | ApplyFailed | NotReady | RollFailed

definition InjectWebhook :: "crypto \<Rightarrow> int \<times> int \<Rightarrow> 'k kubectl \<Rightarrow> options \<Rightarrow> 'k \<Rightarrow> webhook_error option \<times> 'k" where
  "InjectWebhook cr clock kc opt k =
     (case generateWebhookCerts cr clock ''tmm-stat-webhook'' (oNamespace opt) of
        Inl err \<Rightarrow> (Some (CertsFailed err), k)
      | Inr certs \<Rightarrow>
        (case renderWebhook (webhookData opt certs) of
           None \<Rightarrow> (Some RenderFailed, k)
         | Some manifest \<Rightarrow>
           (let (ok, k1) = kubectlApply kc opt manifest k in
            if \<not> ok then (Some ApplyFailed, k1)
            else
              (let (ok, k2) = kubectl_run kc opt
                     [''rollout'', ''status'', ''deployment/tmm-stat-webhook'', ''--timeout=120s''] k1
               in if \<not> ok then (Some NotReady, k2)
                  else (let (ok, k3) = deleteTargetPods kc opt k2
                        in (if ok then None else Some RollFailed, k3))))))"

definition EjectWebhook :: "'k kubectl \<Rightarrow> options \<Rightarrow> 'k \<Rightarrow> bool \<times> 'k" where
  "EjectWebhook kc opt k =
     (let k1 = snd (kubectlClusterScoped kc opt [''delete'', ''mutatingwebhookconfiguration'',
                      ''tmm-stat-webhook-'' @ oNamespace opt, ''--ignore-not-found''] k);
          k2 = snd (kubectl_run kc opt [''delete'', ''deployment,service,secret'', ''-l'', ''app=tmm-stat-webhook'',
                      ''--ignore-not-found''] k1);
          k3 = snd (kubectl_run kc opt [''delete'', ''secret'', ''tmm-stat-webhook-tls'', ''--ignore-not-found''] k2)
      in deleteTargetPods kc opt k3)"

section \<open>The rendered lines\<close>

lemma targetLabel_app: "targetLabel opt = (''app'', oDeployment opt)"
  by (simp add: targetLabel_def)

lemmas eval_template = Render_def parseTemplate_def fieldChain_def cons_text_def blank_def ident_def is_digit_def
  printValue_def webhookData_def targetLabel_app Let_def

lemma hole_lines:
  "Render ''  namespace: {{ .Namespace }}'' (webhookData opt certs) = Some (''  namespace: '' @ oNamespace opt)"
  "Render ''  tls.crt: {{ .Certs.ServerCertB64 }}'' (webhookData opt certs) = Some (''  tls.crt: '' @ ServerCertB64 certs)"
  "Render ''  tls.key: {{ .Certs.ServerKeyB64 }}'' (webhookData opt certs) = Some (''  tls.key: '' @ ServerKeyB64 certs)"
  "Render ''          image: {{ .WebhookImage }}'' (webhookData opt certs) = Some (''          image: '' @ oWebhookImage opt)"
  "Render ''            - --remote-write-url={{ .RemoteWriteURL }}'' (webhookData opt certs) = Some (''            - --remote-write-url='' @ oRemoteWriteURL opt)"
  "Render ''            - --cluster={{ .ClusterName }}'' (webhookData opt certs) = Some (''            - --cluster='' @ oCluster opt)"
  "Render ''            - --exporter-image={{ .ExporterImage }}'' (webhookData opt certs) = Some (''            - --exporter-image='' @ oImage opt)"
  "Render ''            requests: {cpu: 25m, memory: 32Mi}'' (webhookData opt certs) = Some (''            requests: {cpu: 25m, memory: 32Mi}'')"
  "Render ''            limits: {cpu: 50m, memory: 64Mi}'' (webhookData opt certs) = Some (''            limits: {cpu: 50m, memory: 64Mi}'')"
  "Render ''  name: tmm-stat-webhook-{{ .Namespace }}'' (webhookData opt certs) = Some (''  name: tmm-stat-webhook-'' @ oNamespace opt)"
  "Render ''        namespace: {{ .Namespace }}'' (webhookData opt certs) = Some (''        namespace: '' @ oNamespace opt)"
  "Render ''      caBundle: {{ .Certs.CABundleB64 }}'' (webhookData opt certs) = Some (''      caBundle: '' @ CABundleB64 certs)"
  "Render ''        {{ .TargetLabelKey }}: {{ .TargetLabelValue }}'' (webhookData opt certs) = Some (''        '' @ ''app'' @ '': '' @ oDeployment opt)"
  "Render ''        kubernetes.io/metadata.name: {{ .Namespace }}'' (webhookData opt certs) = Some (''        kubernetes.io/metadata.name: '' @ oNamespace opt)"
  by (simp_all add: eval_template)

text \<open>The manifest with the values of the options, by lines.\<close>

definition filled :: "options \<Rightarrow> webhookCerts \<Rightarrow> string list" where
  "filled opt certs = fill webhookLines (webhookData opt certs)"

lemma webhookLines_render: "list_all (\<lambda>l. closed l \<and> Render l (webhookData opt certs) \<noteq> None) webhookLines"
  by (simp add: webhookLines_def closed_def hole_lines render_plain)

lemma renderWebhook_filled: "renderWebhook (webhookData opt certs) = Some (unlines (filled opt certs))"
  unfolding renderWebhook_def webhookManifest_def filled_def by (rule render_fill [OF webhookLines_render])

definition one_line :: "options \<Rightarrow> bool" where
  "one_line opt \<longleftrightarrow> list_all (\<lambda>s. CHR 0x0A \<notin> set s)
     [oNamespace opt, oWebhookImage opt, oImage opt, oCluster opt, oRemoteWriteURL opt, oDeployment opt]"

lemma filled_one_line:
  assumes "one_line opt" and "list_all (\<lambda>s. CHR 0x0A \<notin> set s) [CABundleB64 certs, ServerCertB64 certs, ServerKeyB64 certs]"
  shows "list_all (\<lambda>l. CHR 0x0A \<notin> set l) (filled opt certs)"
  using assms by (simp add: filled_def fill_def webhookLines_def hole_lines render_plain one_line_def)

text \<open>The arguments of the webhook container: the plain scalars of the sequence under args.\<close>

definition manifestArgs :: "string \<Rightarrow> string list" where
  "manifestArgs m = map (drop 14) (filter (\<lambda>l. HasPrefix l ''            - --'') (Split CHR 0x0A m))"

lemma filled_args:
  "map (drop 14) (filter (\<lambda>l. HasPrefix l ''            - --'') (filled opt certs @ [[]]))
   = map flagArg [(''remote-write-url'', oRemoteWriteURL opt), (''cluster'', oCluster opt), (''exporter-image'', oImage opt)]"
  by (simp add: filled_def fill_def webhookLines_def hole_lines render_plain flagArg_def)

text \<open>The lines that carry the certificates.\<close>

lemma filled_certs:
  "list_all (\<lambda>l. l \<in> set (filled opt certs))
     [''  tls.crt: '' @ ServerCertB64 certs, ''  tls.key: '' @ ServerKeyB64 certs, ''      caBundle: '' @ CABundleB64 certs,
      ''        name: tmm-stat-webhook'', ''        namespace: '' @ oNamespace opt]"
  by (simp add: filled_def fill_def webhookLines_def hole_lines render_plain)

lemma certs_one_line:
  assumes "generateWebhookCerts cr clock service ns = Inr certs"
  shows "list_all (\<lambda>s. CHR 0x0A \<notin> set s) [CABundleB64 certs, ServerCertB64 certs, ServerKeyB64 certs]"
proof -
  have "CHR 0x0A \<notin> set (base64 s)" for s using base64_chars [of "CHR 0x0A" s] by auto
  then show ?thesis using assms by (auto simp: generateWebhookCerts_def split: option.splits sum.splits)
qed

section \<open>Properties\<close>

text \<open>C27: the webhook deployment rolls the tmm pods last, and only when the manifests were applied and
  the webhook became ready; an earlier failure stops the run with the pods untouched.\<close>

theorem InjectWebhook_order:
  "let applied = kubectlArgs opt [''apply'', ''-f'', ''-''];
       ready = kubectlArgs opt [''rollout'', ''status'', ''deployment/tmm-stat-webhook'', ''--timeout=120s''];
       roll = kubectlArgs opt [''delete'', ''pod'', ''-l'', selector opt, ''--wait=false'']
   in case InjectWebhook cr clock (logging out ok) opt log of
        (None, log') \<Rightarrow> log' = log @ [applied, ready, roll] \<and> ok applied \<and> ok ready \<and> ok roll
      | (Some RollFailed, log') \<Rightarrow> log' = log @ [applied, ready, roll] \<and> ok applied \<and> ok ready
      | (Some NotReady, log') \<Rightarrow> log' = log @ [applied, ready] \<and> ok applied \<and> \<not> ok ready
      | (Some ApplyFailed, log') \<Rightarrow> log' = log @ [applied] \<and> \<not> ok applied
      | (Some _, log') \<Rightarrow> log' = log"
  by (auto simp: InjectWebhook_def kubectlApply_def kubectl_run_def deleteTargetPods_def logging_def Let_def
      split: option.split sum.split)

end
