(* ===== verification/Webhook.thy ===== *)
theory Webhook
  imports WebhookDeploy
begin

text \<open>
  The admission webhook, cmd/tmm-stat-webhook/main.go: an AdmissionReview with a pod comes in, and
  the answer allows it, with a JSON patch that adds the exporter container when the pod is a tmm
  pod that has none. The HTTP and TLS server are outside the model: \<open>handle\<close> maps the body of a
  request to the status and body of the answer.
\<close>

section \<open>The review\<close>

text \<open>The fields of a pod that \<open>patchFor\<close> reads: the names of its containers and volumes.\<close>

definition nameElem :: "json \<Rightarrow> string option" where
  "nameElem v = (case v of JNull \<Rightarrow> Some [] | JObj m \<Rightarrow> strField m ''name'' | _ \<Rightarrow> None)"

definition podNames :: "json \<Rightarrow> (string list \<times> string list) option" where
  "podNames v =
     (case v of
        JNull \<Rightarrow> Some ([], [])
      | JObj m \<Rightarrow>
          (case member m ''spec'' of
             None \<Rightarrow> Some ([], [])
           | Some JNull \<Rightarrow> Some ([], [])
           | Some (JObj spec) \<Rightarrow>
               (case (sliceField nameElem spec ''containers'', sliceField nameElem spec ''volumes'') of
                  (Some cs, Some vs) \<Rightarrow> Some (cs, vs) | _ \<Rightarrow> None)
           | _ \<Rightarrow> None)
      | _ \<Rightarrow> None)"

text \<open>The wire types. An empty patch, an absent patch type and an absent value are left out.\<close>

record admissionResponse =
  rsUID :: string
  rsAllowed :: bool
  rsPatch :: string
  rsPatchType :: "string option"

record admissionReview =
  arAPIVersion :: string
  arKind :: string
  arRequest :: "(string \<times> json option) option"
  arResponse :: "admissionResponse option"

record patchOp =
  opOp :: string
  opPath :: string
  opValue :: "json option"

definition patchJson :: "patchOp \<Rightarrow> json" where
  "patchJson p =
     JObj ([(''op'', JStr (opOp p)), (''path'', JStr (opPath p))]
       @ (case opValue p of None \<Rightarrow> [] | Some v \<Rightarrow> [(''value'', v)]))"

definition responseJson :: "admissionResponse \<Rightarrow> json" where
  "responseJson r =
     JObj ([(''uid'', JStr (rsUID r)), (''allowed'', JBool (rsAllowed r))]
       @ (if rsPatch r = [] then [] else [(''patch'', JStr (base64 (rsPatch r)))])
       @ (case rsPatchType r of None \<Rightarrow> [] | Some t \<Rightarrow> [(''patchType'', JStr t)]))"

definition reviewJson :: "admissionReview \<Rightarrow> json" where
  "reviewJson rv =
     JObj ([(''apiVersion'', JStr (arAPIVersion rv)), (''kind'', JStr (arKind rv))]
       @ (case arRequest rv of None \<Rightarrow> []
          | Some (uid, object) \<Rightarrow> [(''request'', JObj [(''uid'', JStr uid),
               (''object'', case object of None \<Rightarrow> JNull | Some v \<Rightarrow> v)])])
       @ (case arResponse rv of None \<Rightarrow> [] | Some r \<Rightarrow> [(''response'', responseJson r)]))"

text \<open>The members of a body. The object of the request stays as it is; the byte slice of a patch comes
  as base64, in which line breaks are skipped, or as an array of small numbers.\<close>

definition decodeRequestField :: "(string \<times> json) list \<Rightarrow> (string \<times> json option) option option" where
  "decodeRequestField m =
     (case member m ''request'' of
        None \<Rightarrow> Some None
      | Some JNull \<Rightarrow> Some None
      | Some (JObj r) \<Rightarrow> map_option (\<lambda>uid. Some (uid, member r ''object'')) (strField r ''uid'')
      | _ \<Rightarrow> None)"

definition byteElem :: "json \<Rightarrow> char option" where
  "byteElem v = (case v of JNull \<Rightarrow> Some (char_of (0 :: nat))
     | JNum n \<Rightarrow> if 0 \<le> n \<and> n < 256 then Some (char_of (nat n)) else None | _ \<Rightarrow> None)"

definition bytesField :: "(string \<times> json) list \<Rightarrow> string \<Rightarrow> string option" where
  "bytesField m f =
     (case member m f of
        None \<Rightarrow> Some []
      | Some JNull \<Rightarrow> Some []
      | Some (JStr s) \<Rightarrow> unbase64 (filter (\<lambda>c. c \<noteq> CHR 0x0A \<and> c \<noteq> CHR 0x0D) s)
      | Some (JArr xs) \<Rightarrow> those (map byteElem xs)
      | _ \<Rightarrow> None)"

definition ptrField :: "(string \<times> json) list \<Rightarrow> string \<Rightarrow> string option option" where
  "ptrField m f = (case member m f of None \<Rightarrow> Some None | Some JNull \<Rightarrow> Some None | Some (JStr s) \<Rightarrow> Some (Some s) | _ \<Rightarrow> None)"

definition decodeResponseField :: "(string \<times> json) list \<Rightarrow> admissionResponse option option" where
  "decodeResponseField m =
     (case member m ''response'' of
        None \<Rightarrow> Some None
      | Some JNull \<Rightarrow> Some None
      | Some (JObj r) \<Rightarrow>
          (case (strField r ''uid'', boolField r ''allowed'', bytesField r ''patch'', ptrField r ''patchType'') of
             (Some u, Some a, Some p, Some t) \<Rightarrow> Some (Some \<lparr>rsUID = u, rsAllowed = a, rsPatch = p, rsPatchType = t\<rparr>)
           | _ \<Rightarrow> None)
      | _ \<Rightarrow> None)"

definition decodeReview :: "string \<Rightarrow> admissionReview option" where
  "decodeReview body =
     (case Unmarshal body of
        Some JNull \<Rightarrow> Some \<lparr>arAPIVersion = [], arKind = [], arRequest = None, arResponse = None\<rparr>
      | Some (JObj m) \<Rightarrow>
          (case (strField m ''apiVersion'', strField m ''kind'', decodeRequestField m, decodeResponseField m) of
             (Some a, Some k, Some r, Some p) \<Rightarrow> Some \<lparr>arAPIVersion = a, arKind = k, arRequest = r, arResponse = p\<rparr>
           | _ \<Rightarrow> None)
      | _ \<Rightarrow> None)"

text \<open>\<open>patchFor\<close> on the object of the review (\<open>None\<close> when the review has none); the result \<open>None\<close> is
  the nil patch.\<close>

definition patchFor :: "options \<Rightarrow> json option \<Rightarrow> string option" where
  "patchFor opts raw =
     (case Option.bind raw podNames of
        None \<Rightarrow> None
      | Some (cs, vs) \<Rightarrow>
          if sidecarName \<in> set cs then None
          else if tmstatVolume \<notin> set vs then None
          else (let opts' = opts\<lparr>oDSSMCert := DSSMCertVolume \<in> set vs\<rparr>
                in Some (marshal (JArr [patchJson \<lparr>opOp = ''add'', opPath = ''/spec/containers/-'',
                     opValue = Some (JObj (SidecarSpec opts'))\<rparr>]))))"

text \<open>\<open>handle\<close>: the status and the body of the answer to a request whose body was read (or not).\<close>

definition handle_review :: "options \<Rightarrow> string + string \<Rightarrow> nat \<times> string" where
  "handle_review opts request =
     (case request of
        Inl err \<Rightarrow> (400, err @ [CHR 0x0A])
      | Inr body \<Rightarrow>
          (case decodeReview body of
             None \<Rightarrow> (400, ''bad AdmissionReview'' @ [CHR 0x0A])
           | Some review \<Rightarrow>
               (case arRequest review of
                  None \<Rightarrow> (400, ''bad AdmissionReview'' @ [CHR 0x0A])
                | Some (uid, object) \<Rightarrow>
                    (let resp = \<lparr>rsUID = uid, rsAllowed = True, rsPatch = [], rsPatchType = None\<rparr>;
                         resp = (case patchFor opts object of
                                   None \<Rightarrow> resp
                                 | Some jsonPatch \<Rightarrow> resp\<lparr>rsPatch := jsonPatch, rsPatchType := Some ''JSONPatch''\<rparr>)
                     in (200, marshal (reviewJson \<lparr>arAPIVersion = arAPIVersion review, arKind = arKind review,
                          arRequest = None, arResponse = Some resp\<rparr>) @ [CHR 0x0A])))))"

section \<open>The program\<close>

text \<open>\<open>main\<close>: the flags give the options of the mutator, the TLS files and the address; \<open>Inl\<close> is the exit
  code. The HTTPS server routes by the path.\<close>

record webhookServer =
  whListen :: string
  whCert :: string
  whKey :: string
  whOptions :: options

definition webhookFlags :: "formal list" where
  "webhookFlags = map stringFlag [''listen'', ''tls-cert'', ''tls-key'', ''exporter-image'', ''remote-write-url'', ''cluster'']"

definition webhookDefaults :: vars where
  "webhookDefaults =
     [''listen'' \<mapsto> FString '':8443'', ''tls-cert'' \<mapsto> FString ''/tls/tls.crt'', ''tls-key'' \<mapsto> FString ''/tls/tls.key'',
      ''exporter-image'' \<mapsto> FString DefaultImage, ''remote-write-url'' \<mapsto> FString [], ''cluster'' \<mapsto> FString []]"

definition noOptions :: options where
  "noOptions = \<lparr>oKubeconfig = [], oContext = [], oNamespace = [], oDeployment = [], oResourceKind = [], oCluster = [],
     oRemoteWriteURL = [], oImage = [], oWebhookImage = [], oDSSMCert = False\<rparr>"

definition main_webhook :: "string list \<Rightarrow> nat + webhookServer" where
  "main_webhook args =
     (case parseFlags webhookFlags webhookDefaults args of
        Inl err \<Rightarrow> Inl (flagExit err)
      | Inr (vs, _) \<Rightarrow>
          Inr \<lparr>whListen = strVar vs ''listen'', whCert = strVar vs ''tls-cert'', whKey = strVar vs ''tls-key'',
               whOptions = noOptions\<lparr>oImage := strVar vs ''exporter-image'', oRemoteWriteURL := strVar vs ''remote-write-url'',
                 oCluster := strVar vs ''cluster''\<rparr>\<rparr>)"

definition serve_webhook :: "webhookServer \<Rightarrow> string \<Rightarrow> string + string \<Rightarrow> nat \<times> string" where
  "serve_webhook sv path request =
     (if path = ''/mutate'' then handle_review (whOptions sv) request
      else if path = ''/healthz'' then (200, ''ok'' @ [CHR 0x0A])
      else (404, ''404 page not found'' @ [CHR 0x0A]))"

section \<open>Reading the answer\<close>

text \<open>How the API server reads the answer, and RFC 6902 for the one operation the patch holds.\<close>

definition decodeResponse :: "string \<Rightarrow> (string \<times> bool \<times> string option) option" where
  "decodeResponse answer =
     (case Unmarshal answer of
        Some (JObj m) \<Rightarrow>
          (case map_of m ''response'' of
             Some (JObj r) \<Rightarrow>
               (case (map_of r ''uid'', map_of r ''allowed'') of
                  (Some (JStr uid), Some (JBool allowed)) \<Rightarrow>
                    Some (uid, allowed, case map_of r ''patch'' of Some (JStr p) \<Rightarrow> unbase64 p | _ \<Rightarrow> None)
                | _ \<Rightarrow> None)
           | _ \<Rightarrow> None)
      | _ \<Rightarrow> None)"

definition containersAt :: "json \<Rightarrow> json list option" where
  "containersAt pod =
     (case pod of
        JObj m \<Rightarrow> (case map_of m ''spec'' of
             Some (JObj spec) \<Rightarrow> (case map_of spec ''containers'' of Some (JArr xs) \<Rightarrow> Some xs | _ \<Rightarrow> None)
           | _ \<Rightarrow> None)
      | _ \<Rightarrow> None)"

definition addContainer :: "json \<Rightarrow> json \<Rightarrow> json option" where
  "addContainer pod c =
     (case pod of
        JObj m \<Rightarrow>
          (case map_of m ''spec'' of
             Some (JObj spec) \<Rightarrow>
               (case map_of spec ''containers'' of
                  Some (JArr xs) \<Rightarrow> Some (JObj (ins ''spec'' (JObj (ins ''containers'' (JArr (xs @ [c])) spec)) m))
                | _ \<Rightarrow> None)
           | _ \<Rightarrow> None)
      | _ \<Rightarrow> None)"

definition applyPatch :: "json \<Rightarrow> string \<Rightarrow> json option" where
  "applyPatch pod text =
     (case Unmarshal text of
        Some (JArr [JObj r]) \<Rightarrow>
          if map_of r ''op'' = Some (JStr ''add'') \<and> map_of r ''path'' = Some (JStr ''/spec/containers/-'')
          then Option.bind (map_of r ''value'') (addContainer pod) else None
      | _ \<Rightarrow> None)"

lemma patch_reads:
  "Unmarshal (marshal (JArr [patchJson \<lparr>opOp = ''add'', opPath = ''/spec/containers/-'', opValue = Some (JObj (SidecarSpec opts))\<rparr>]))
   = Some (JArr [JObj [(''op'', JStr ''add''), (''path'', JStr ''/spec/containers/-''), (''value'', norm (JObj (SidecarSpec opts)))]])"
proof -
  let ?v = "JArr [JObj [(''op'', JStr ''add''), (''path'', JStr ''/spec/containers/-''), (''value'', JObj (SidecarSpec opts))]]"
  have "json_ok 10000 ?v" using SidecarSpec_json_ok [of 9993 opts] by simp
  from Unmarshal_marshal [OF this, of "[]"] show ?thesis by (simp add: patchJson_def coerce_plain mk_def)
qed

lemma decodeReview_uid:
  assumes "decodeReview body = Some review" and "arRequest review = Some (uid, object)"
  shows "coerce uid = uid"
proof -
  obtain m where m: "Unmarshal body = Some (JObj m)" and f: "decodeRequestField m = Some (arRequest review)"
    using assms by (auto simp: decodeReview_def split: option.splits json.splits)
  obtain r where r: "member m ''request'' = Some (JObj r)" "strField r ''uid'' = Some uid"
    using f assms(2) by (auto simp: decodeRequestField_def split: option.splits json.splits)
  have "read_ok 9999 (JObj r)" using read_ok_member [OF Unmarshal_ok [OF m] r(1)] by simp
  then have "member r ''uid'' = Some (JStr uid) \<Longrightarrow> coerce uid = uid" using read_ok_member [of 9999 r "''uid''" "JStr uid"] by simp
  moreover have "coerce [] = []" by (simp add: coerce.simps)
  ultimately show ?thesis using r(2) by (auto simp: strField_def split: option.splits json.splits)
qed

lemma patchFor_nonempty: "patchFor opts object \<noteq> Some []"
  by (auto simp: patchFor_def Let_def split: option.splits)

lemma response_reads:
  assumes "coerce uid = uid" and "p \<noteq> Some []"
    and "resp = (let resp = \<lparr>rsUID = uid, rsAllowed = True, rsPatch = [], rsPatchType = None\<rparr> in
        case p of None \<Rightarrow> resp | Some jsonPatch \<Rightarrow> resp\<lparr>rsPatch := jsonPatch, rsPatchType := Some ''JSONPatch''\<rparr>)"
  shows "decodeResponse (marshal (reviewJson \<lparr>arAPIVersion = a, arKind = k, arRequest = None, arResponse = Some resp\<rparr>) @ [CHR 0x0A])
     = Some (uid, True, p)"
proof -
  let ?v = "reviewJson \<lparr>arAPIVersion = a, arKind = k, arRequest = None, arResponse = Some resp\<rparr>"
  have "json_ok 10000 ?v"
    using assms(3) by (auto simp: reviewJson_def responseJson_def split: option.split)
  moreover have "skip_ws [CHR 0x0A] = []" "ends [CHR 0x0A]" by (simp_all add: skip_ws_def ends_def is_digit_def)
  ultimately have "Unmarshal (marshal ?v @ [CHR 0x0A]) = Some (norm ?v)"
    by (rule Unmarshal_marshal)
  then show ?thesis
    using assms
    by (cases p) (auto simp: decodeResponse_def reviewJson_def responseJson_def coerce_plain coerce_plain [OF base64_ascii] mk_def
        unbase64_base64)
qed

lemma those_append_Some: "those (map f (xs @ [c])) = (case those (map f xs) of None \<Rightarrow> None
     | Some ys \<Rightarrow> map_option (\<lambda>y. ys @ [y]) (f c))"
  by (cases "f c"; induction xs) (auto split: option.splits)

lemma addContainer_names:
  assumes "read_ok 10000 pod" and "podNames pod = Some (cs, vs)"
  shows "case addContainer pod (norm (JObj (SidecarSpec opts))) of
     None \<Rightarrow> containersAt pod = None | Some pod' \<Rightarrow> podNames pod' = Some (cs @ [sidecarName], vs)"
proof (cases "addContainer pod (norm (JObj (SidecarSpec opts)))")
  case None
  then show ?thesis
    by (auto simp: addContainer_def containersAt_def split: json.splits option.splits)
next
  case (Some pod')
  let ?c = "norm (JObj (SidecarSpec opts))"
  obtain m spec xs where m: "pod = JObj m" "map_of m ''spec'' = Some (JObj spec)"
    "map_of spec ''containers'' = Some (JArr xs)"
    and pod': "pod' = JObj (ins ''spec'' (JObj (ins ''containers'' (JArr (xs @ [?c])) spec)) m)"
    using Some by (auto simp: addContainer_def simp del: norm.simps split: json.splits option.splits)
  have "read_ok 10000 (JObj m)" using assms(1) m(1) by (simp del: read_ok.simps)
  from read_ok_lookup [OF this m(2)] this have "keys_sorted m" "keys_sorted spec" by simp_all
  then have look: "map_of (ins ''spec'' (JObj (ins ''containers'' (JArr (xs @ [?c])) spec)) m) ''spec''
      = Some (JObj (ins ''containers'' (JArr (xs @ [?c])) spec))"
    "map_of (ins ''containers'' (JArr (xs @ [?c])) spec) = (map_of spec)(''containers'' \<mapsto> JArr (xs @ [?c]))"
    by (simp_all add: map_of_ins del: norm.simps)
  have vols: "member (ins ''containers'' (JArr (xs @ [?c])) spec) ''volumes'' = member spec ''volumes''"
    by (rule member_ins [OF \<open>keys_sorted spec\<close>]) (simp add: upper_def)
  have "nameElem ?c = Some sidecarName"
    using container_norm(1) [of opts] by (auto simp: nameElem_def strField_def simp del: norm.simps)
  moreover have "those (map nameElem xs) = Some cs" "sliceField nameElem spec ''volumes'' = Some vs"
    using assms(2) m by (auto simp: podNames_def sliceField_def [of _ _ "''containers''"] split: option.splits)
  ultimately have "podNames pod' = Some (cs @ [sidecarName], vs)"
    unfolding pod' podNames_def
    by (simp add: look vols sliceField_def those_append_Some del: norm.simps map_append)
  then show ?thesis using Some by simp
qed

section \<open>Properties\<close>

text \<open>C21: an AdmissionReview with a request is answered with status 200, allowed, for the same uid, and
  the base64 patch of the answer decodes to what \<open>patchFor\<close> decided (no patch member when it
  decided nothing); every other body gets status 400.\<close>

theorem handle_answers:
  "case handle_review opts (Inr body) of (status, answer) \<Rightarrow>
     (case Option.bind (decodeReview body) arRequest of
        None \<Rightarrow> status = 400
      | Some (uid, object) \<Rightarrow> status = 200 \<and> decodeResponse answer = Some (uid, True, patchFor opts object))"
proof (cases "Option.bind (decodeReview body) arRequest")
  case None
  then show ?thesis by (auto simp: handle_review_def split: option.splits)
next
  case (Some req)
  obtain review uid object where r: "decodeReview body = Some review" "arRequest review = Some (uid, object)"
    "req = (uid, object)"
    using Some by (cases req) (auto simp: bind_eq_Some_conv)
  show ?thesis
    using response_reads [OF decodeReview_uid [OF r(1,2)] patchFor_nonempty refl] r Some
    by (simp add: handle_review_def Let_def)
qed

text \<open>C11: the decision and its effect on a pod that came as JSON: a pod gets a patch exactly when it can
  be read, has the tmstat volume and no exporter; a pod with a list at the path of the patch becomes
  one with its containers followed by the exporter, whose mounts are volumes of the pod, and is not
  patched again.\<close>

theorem patchFor_correct:
  "case Unmarshal raw of
     None \<Rightarrow> True
   | Some pod \<Rightarrow>
       (case (podNames pod, patchFor opts (Some pod)) of
          (None, p) \<Rightarrow> p = None
        | (Some (cs, vs), None) \<Rightarrow> \<not> (sidecarName \<notin> set cs \<and> tmstatVolume \<in> set vs)
        | (Some (cs, vs), Some p) \<Rightarrow>
            sidecarName \<notin> set cs \<and> tmstatVolume \<in> set vs
            \<and> list_all (\<lambda>m. list_ex (\<lambda>n. named n m) vs) (sidecarMounts (opts\<lparr>oDSSMCert := DSSMCertVolume \<in> set vs\<rparr>))
            \<and> (case applyPatch pod p of
                 None \<Rightarrow> containersAt pod = None
               | Some pod' \<Rightarrow> podNames pod' = Some (cs @ [sidecarName], vs) \<and> patchFor opts (Some pod') = None))"
proof (cases "Unmarshal raw")
  case (Some pod)
  show ?thesis
  proof (cases "podNames pod")
    case (Some names)
    obtain cs vs where n: "podNames pod = Some (cs, vs)" using Some by (cases names) auto
    show ?thesis
    proof (cases "sidecarName \<in> set cs \<or> tmstatVolume \<notin> set vs")
      case True
      then show ?thesis using n \<open>Unmarshal raw = Some pod\<close> by (auto simp: patchFor_def)
    next
      case False
      let ?opts = "opts\<lparr>oDSSMCert := DSSMCertVolume \<in> set vs\<rparr>"
      let ?c = "norm (JObj (SidecarSpec ?opts))"
      obtain p where p: "patchFor opts (Some pod) = Some p"
        and a: "applyPatch pod p = addContainer pod ?c"
        using False n patch_reads [of ?opts] by (auto simp: patchFor_def applyPatch_def)
      have mounts: "list_all (\<lambda>m. list_ex (\<lambda>n. named n m) vs) (sidecarMounts ?opts)"
        using False by (auto simp: sidecarMounts_def list_ex_iff named_def obj_def mk_def)
      have "case addContainer pod ?c of None \<Rightarrow> containersAt pod = None | Some pod' \<Rightarrow> podNames pod' = Some (cs @ [sidecarName], vs)"
        by (rule addContainer_names [OF Unmarshal_ok [OF \<open>Unmarshal raw = Some pod\<close>] n])
      moreover have "patchFor opts (Some pod') = None" if "podNames pod' = Some (cs @ [sidecarName], vs)" for pod'
        using that by (simp add: patchFor_def)
      ultimately show ?thesis
        using n p a mounts False \<open>Unmarshal raw = Some pod\<close> by (auto split: option.splits)
    qed
  qed (simp add: \<open>Unmarshal raw = Some pod\<close> patchFor_def)
qed simp

section \<open>From the deployment to the container\<close>

text \<open>A value that is a plain YAML scalar to the end of its line.\<close>

definition scalar :: "string \<Rightarrow> bool" where
  "scalar s \<longleftrightarrow> list_all (\<lambda>c. 0x21 \<le> ord c \<and> ord c \<le> 0x7E) s \<and> (s = [] \<or> last s \<noteq> CHR '':'')"

definition scalars :: "options \<Rightarrow> bool" where
  "scalars opt \<longleftrightarrow> list_all scalar
     [oNamespace opt, oWebhookImage opt, oImage opt, oCluster opt, oRemoteWriteURL opt, oDeployment opt]"

lemma scalar_one_line: "scalar s \<Longrightarrow> CHR 0x0A \<notin> set s"
proof
  assume "scalar s" and "CHR 0x0A \<in> set s"
  then have "0x21 \<le> ord (CHR 0x0A)" unfolding scalar_def list_all_iff by blast
  then show False by simp
qed

lemma scalars_one_line: "scalars opt \<Longrightarrow> one_line opt"
  by (simp add: scalars_def one_line_def scalar_one_line)

lemma main_webhook_args:
  "main_webhook (map flagArg [(''remote-write-url'', url), (''cluster'', cluster), (''exporter-image'', img)])
   = Inr \<lparr>whListen = '':8443'', whCert = ''/tls/tls.crt'', whKey = ''/tls/tls.key'',
         whOptions = noOptions\<lparr>oImage := img, oRemoteWriteURL := url, oCluster := cluster\<rparr>\<rparr>"
proof -
  let ?ps = "[(''remote-write-url'', url), (''cluster'', cluster), (''exporter-image'', img)]"
  have "list_all (settable webhookFlags) ?ps"
    by (simp add: settable_def flag_name_def webhookFlags_def lookupFlag_def stringFlag_def setFlag_def)
  then have "parseFlags webhookFlags webhookDefaults (map flagArg ?ps) = Inr (fold (setPair webhookFlags) ?ps webhookDefaults, [])"
    using parseFlags_flagArgs [of webhookFlags ?ps webhookDefaults "[]"] by simp
  then show ?thesis
    unfolding main_webhook_def
    by (simp only: sum.case prod.case)
      (simp add: setPair_def webhookFlags_def lookupFlag_def stringFlag_def setFlag_def webhookDefaults_def strVar_def)
qed

text \<open>C14: when the values of the options are plain YAML scalars (printable ASCII without spaces, no colon
  at the end), the webhook that an injection deploys adds the container that the direct patch would
  add: the manifest holds one set of certificates and names the service they are for, and the arguments
  in it start a webhook whose container specification is that of the options, with and without the
  certificate volume of the DSSM.\<close>

theorem webhook_same_container:
  assumes "scalars opt"
  shows "case generateWebhookCerts cr clock ''tmm-stat-webhook'' (oNamespace opt) of
     Inl _ \<Rightarrow> True
   | Inr certs \<Rightarrow>
       (case renderWebhook (webhookData opt certs) of
          None \<Rightarrow> False
        | Some m \<Rightarrow>
            list_all (\<lambda>l. l \<in> set (Split CHR 0x0A m))
              [''  tls.crt: '' @ ServerCertB64 certs, ''  tls.key: '' @ ServerKeyB64 certs, ''      caBundle: '' @ CABundleB64 certs,
               ''        name: tmm-stat-webhook'', ''        namespace: '' @ oNamespace opt]
            \<and> (case main_webhook (manifestArgs m) of
                 Inl _ \<Rightarrow> False
               | Inr sv \<Rightarrow> SidecarSpec ((whOptions sv)\<lparr>oDSSMCert := b\<rparr>) = SidecarSpec (opt\<lparr>oDSSMCert := b\<rparr>)))"
proof (cases "generateWebhookCerts cr clock ''tmm-stat-webhook'' (oNamespace opt)")
  case (Inr certs)
  let ?m = "unlines (filled opt certs)"
  have split: "Split CHR 0x0A ?m = filled opt certs @ [[]]"
    by (rule Split_unlines [OF filled_one_line [OF scalars_one_line [OF assms] certs_one_line [OF Inr]]])
  have args: "manifestArgs ?m = map flagArg [(''remote-write-url'', oRemoteWriteURL opt), (''cluster'', oCluster opt),
      (''exporter-image'', oImage opt)]"
    unfolding manifestArgs_def split by (rule filled_args)
  have lines: "list_all (\<lambda>l. l \<in> set (Split CHR 0x0A ?m))
      [''  tls.crt: '' @ ServerCertB64 certs, ''  tls.key: '' @ ServerKeyB64 certs, ''      caBundle: '' @ CABundleB64 certs,
       ''        name: tmm-stat-webhook'', ''        namespace: '' @ oNamespace opt]"
    unfolding split using filled_certs [of opt certs] by (simp add: list_all_iff)
  have "SidecarSpec (noOptions\<lparr>oImage := oImage opt, oRemoteWriteURL := oRemoteWriteURL opt, oCluster := oCluster opt, oDSSMCert := b\<rparr>)
      = SidecarSpec (opt\<lparr>oDSSMCert := b\<rparr>)"
    by (simp add: SidecarSpec_def sidecarMounts_def)
  then show ?thesis
    unfolding Inr sum.case renderWebhook_filled option.case args main_webhook_args using lines by simp
qed simp

theorem webhook_same_container_witness:
  "case generateWebhookCerts demo_crypto (0, 0) ''tmm-stat-webhook'' ''default'' of
     Inl _ \<Rightarrow> False
   | Inr certs \<Rightarrow>
       (case renderWebhook (webhookData demo_opts certs) of
          None \<Rightarrow> False
        | Some m \<Rightarrow> (case main_webhook (manifestArgs m) of
                 Inl _ \<Rightarrow> False
               | Inr sv \<Rightarrow> SidecarSpec ((whOptions sv)\<lparr>oDSSMCert := True\<rparr>) = SidecarSpec (demo_opts\<lparr>oDSSMCert := True\<rparr>)))"
proof -
  have "scalars demo_opts" by (simp add: scalars_def scalar_def demo_opts_def DefaultImage_def)
  note w = webhook_same_container [OF this, where cr = demo_crypto and clock = "(0, 0)" and b = True]
  have "oNamespace demo_opts = ''default''" by (simp add: demo_opts_def)
  moreover obtain certs where "generateWebhookCerts demo_crypto (0, 0) ''tmm-stat-webhook'' ''default'' = Inr certs"
    by (simp add: generateWebhookCerts_def demo_crypto_def)
  ultimately show ?thesis using w by (auto split: option.splits sum.splits)
qed

end
