(* ===== verification/Discovery.thy ===== *)
theory Discovery
  imports Stack GoJson
begin

text \<open>
  The discovery file as text: the JSON document that \<open>writeEndpoints\<close> in internal/stack/stack.go
  writes and \<open>LoadEndpoints\<close> reads, and that \<open>tmmscope endpoint --json\<close> prints. Theory Stack keeps
  the file as what it decodes to; here that abstraction is justified.
\<close>

section \<open>The document\<close>

definition endpointsJson :: "endpoints \<Rightarrow> json" where
  "endpointsJson e =
     JObj [(''running'', JBool (epRunning e)),
       (''prometheus'', JObj [(''port'', JNum (epPrometheusPort e)), (''url'', JStr (epPrometheusURL e)),
          (''remote_write_url'', JStr (epRemoteWriteURL e)), (''remote_write_path'', JStr (epRemoteWritePath e))]),
       (''grafana'', JObj [(''port'', JNum (epGrafanaPort e)), (''url'', JStr (epGrafanaURL e)),
          (''dashboard_url'', JStr (epDashboardURL e))]),
       (''updated_at'', JStr (epUpdatedAt e))]"

definition endpointsText :: "endpoints \<Rightarrow> string" where
  "endpointsText e = MarshalIndent (endpointsJson e) @ [CHR 0x0A]"

definition decodeEndpoints :: "string \<Rightarrow> endpoints option" where
  "decodeEndpoints s =
     (case Unmarshal s of
        Some JNull \<Rightarrow> Some noEndpoints
      | Some (JObj m) \<Rightarrow>
          (case (boolField m ''running'', objField m ''prometheus'', objField m ''grafana'', strField m ''updated_at'') of
             (Some r, Some p, Some g, Some u) \<Rightarrow>
               (case (intField p ''port'', strField p ''url'', strField p ''remote_write_url'', strField p ''remote_write_path'',
                      intField g ''port'', strField g ''url'', strField g ''dashboard_url'') of
                  (Some pp, Some pu, Some pw, Some pa, Some gp, Some gu, Some gd) \<Rightarrow>
                    Some \<lparr>epRunning = r, epPrometheusPort = pp, epPrometheusURL = pu, epRemoteWriteURL = pw,
                          epRemoteWritePath = pa, epGrafanaPort = gp, epGrafanaURL = gu, epDashboardURL = gd, epUpdatedAt = u\<rparr>
                | _ \<Rightarrow> None)
           | _ \<Rightarrow> None)
      | _ \<Rightarrow> None)"

text \<open>The state of the file in theory Stack: missing, unreadable, or its text decoded.\<close>

definition discoveryOf :: "(bool \<times> string) option \<Rightarrow> discovery" where
  "discoveryOf file =
     (case file of
        None \<Rightarrow> Missing
      | Some (readable, text) \<Rightarrow>
          if \<not> readable then Unreadable else (case decodeEndpoints text of None \<Rightarrow> Garbage | Some e \<Rightarrow> Written e))"

section \<open>Properties\<close>

text \<open>Endpoints that the document holds: valid strings, ports of less than 54 bits.\<close>

definition endpoints_ok :: "endpoints \<Rightarrow> bool" where
  "endpoints_ok e \<longleftrightarrow> \<bar>epPrometheusPort e\<bar> < 2 ^ 53 \<and> \<bar>epGrafanaPort e\<bar> < 2 ^ 53
     \<and> list_all (\<lambda>s. coerce s = s) [epPrometheusURL e, epRemoteWriteURL e, epRemoteWritePath e, epGrafanaURL e, epDashboardURL e, epUpdatedAt e]"

lemma decode_endpointsText: "endpoints_ok e \<Longrightarrow> decodeEndpoints (endpointsText e) = Some e"
proof -
  assume e: "endpoints_ok e"
  have "json_ok 10000 (endpointsJson e)"
    using e by (simp add: endpointsJson_def endpoints_ok_def num_ok_small del: power_numeral)
  moreover have "skip_ws [CHR 0x0A] = []" "ends [CHR 0x0A]" by (simp_all add: skip_ws_def ends_def is_digit_def)
  ultimately have "Unmarshal (endpointsText e) = Some (norm (endpointsJson e))"
    unfolding endpointsText_def by (rule Unmarshal_MarshalIndent)
  moreover have "intField m k = Some n" if "map_of m k = Some (JNum n)" "\<bar>n\<bar> < 2 ^ 53" for m k n
    using that by (auto simp: intField_def abs_less_iff)
  ultimately show ?thesis
    using e by (simp add: decodeEndpoints_def endpointsJson_def endpoints_ok_def coerce_plain mk_def boolField_def objField_def
        strField_def)
qed

lemma FormatInt_ascii: "list_all (\<lambda>c. ord c < 0x80) (FormatInt n)"
proof -
  have "list_all (\<lambda>c. ord c < 0x80) (FormatUint m)" for m
    using FormatUint_digits [of _ m] by (force simp: list_all_iff is_digit_def)
  then show ?thesis by (simp add: FormatInt_def)
qed

lemma buildEndpoints_ok:
  assumes "\<bar>p\<bar> < 2 ^ 53" and "\<bar>g\<bar> < 2 ^ 53" and "coerce now = now"
  shows "endpoints_ok (buildEndpoints p g r now)"
  using assms FormatInt_ascii by (simp add: endpoints_ok_def buildEndpoints_def remoteWritePath_def coerce_plain)

lemma read_string: "read_ok d (JObj m) \<Longrightarrow> strField m k = Some s \<Longrightarrow> coerce s = s"
  using coerce_plain [of "[]"]
  by (auto simp: strField_def list_all_iff split: option.splits json.splits dest!: member_mem)

lemma read_object: "read_ok d (JObj m) \<Longrightarrow> objField m k = Some p \<Longrightarrow> read_ok (d - 1) (JObj p) \<or> p = []"
  by (auto simp: objField_def simp del: read_ok.simps dest: read_ok_member split: option.splits json.splits)

lemma decoded_strings:
  assumes "decodeEndpoints text = Some e"
  shows "list_all (\<lambda>s. coerce s = s) [epPrometheusURL e, epRemoteWriteURL e, epRemoteWritePath e, epGrafanaURL e, epDashboardURL e, epUpdatedAt e]"
proof (cases "Unmarshal text = Some JNull")
  case True
  then have "e = noEndpoints" using assms by (simp add: decodeEndpoints_def)
  then show ?thesis using coerce_plain [of "[]"] by (simp add: noEndpoints_def)
next
  case False
  obtain m p g where m: "Unmarshal text = Some (JObj m)" "objField m ''prometheus'' = Some p" "objField m ''grafana'' = Some g"
    and f: "strField m ''updated_at'' = Some (epUpdatedAt e)" "strField p ''url'' = Some (epPrometheusURL e)"
      "strField p ''remote_write_url'' = Some (epRemoteWriteURL e)" "strField p ''remote_write_path'' = Some (epRemoteWritePath e)"
      "strField g ''url'' = Some (epGrafanaURL e)" "strField g ''dashboard_url'' = Some (epDashboardURL e)"
    using assms False by (auto simp: decodeEndpoints_def split: option.splits json.splits)
  have ok: "read_ok 10000 (JObj m)" by (rule Unmarshal_ok [OF m(1)])
  have str: "coerce s = s" if "read_ok d (JObj o1) \<or> o1 = []" "strField o1 k = Some s" for d o1 k s
    using that read_string coerce_plain [of "[]"] by (auto simp: strField_def)
  show ?thesis
    using read_string [OF ok f(1)] str [OF read_object [OF ok m(2)]] str [OF read_object [OF ok m(3)]] f(2-) by simp
qed

text \<open>C25: the discovery file keeps what it says: a file that the program can read, and rewrites (as
  \<open>down\<close> does), reads as the endpoints that were written, here with any running flag and time.\<close>

theorem discovery_file_roundtrip:
  assumes "decodeEndpoints text = Some e" and "\<bar>epPrometheusPort e\<bar> < 2 ^ 53" and "\<bar>epGrafanaPort e\<bar> < 2 ^ 53"
    and "coerce now = now"
  shows "discoveryOf (Some (True, endpointsText (e\<lparr>epRunning := running, epUpdatedAt := now\<rparr>)))
     = Written (e\<lparr>epRunning := running, epUpdatedAt := now\<rparr>)"
proof -
  have "endpoints_ok (e\<lparr>epRunning := running, epUpdatedAt := now\<rparr>)"
    using assms decoded_strings [OF assms(1)] by (simp add: endpoints_ok_def)
  then show ?thesis by (simp add: discoveryOf_def decode_endpointsText)
qed

theorem discovery_file_roundtrip_witness:
  "discoveryOf (Some (True, endpointsText ((buildEndpoints 9491 3000 True [])\<lparr>epRunning := False, epUpdatedAt := ''2026''\<rparr>)))
     = Written ((buildEndpoints 9491 3000 True [])\<lparr>epRunning := False, epUpdatedAt := ''2026''\<rparr>)"
proof (rule discovery_file_roundtrip)
  have "endpoints_ok (buildEndpoints 9491 3000 True [])" by (rule buildEndpoints_ok) (simp_all add: coerce_plain)
  then show "decodeEndpoints (endpointsText (buildEndpoints 9491 3000 True [])) = Some (buildEndpoints 9491 3000 True [])"
    by (rule decode_endpointsText)
qed (simp_all add: coerce_plain buildEndpoints_def)

end
