(* ===== verification/Cli.thy ===== *)
theory Cli
  imports WebhookDeploy Discovery GoQuote
begin

text \<open>
  The command line program, cmd/tmmscope/main.go: the commands over the stack and the injection,
  their flags, what they ask and print, and the dispatch of \<open>main\<close> with its exit codes. The line that
  \<open>confirm\<close> reads from the terminal is given, and the browser is a log of the URLs that were opened. Of the output the lines of this file are
  modelled, not those that docker, kubectl and internal/inject print on the way.
\<close>

section \<open>The state\<close>

record ('d, 'k) sys =
  sysHost :: "'d host"
  sysKube :: "'k"
  sysOut :: "string list"
  sysOpened :: "string list"

record ('d, 'k) tools =
  tDocker :: "'d docker"
  tKubectl :: "'k kubectl"
  tJoin :: "string list \<Rightarrow> string"
  tNow :: string
  tLine :: string
  tOpens :: bool
  tEnv :: "string \<rightharpoonup> string"
  tCrypto :: crypto
  tClock :: "int \<times> int"
  tIsPrint :: "string \<Rightarrow> bool"
  tVersion :: string
  tCommit :: string
  tBuildDate :: string

datatype cli_error = ErrMirror mirror_error | ErrStack stack_error | NeverStarted | ProbeFailed
  | NoTmm | NoCluster | StackDown | NoGateway | NoMode | BadMode string | ErrEphemeral inject_error
  | ErrWebhook webhook_error | KubectlFailed | OpenFailed

definition say :: "string list \<Rightarrow> ('d, 'k) sys \<Rightarrow> ('d, 'k) sys" where
  "say lines s = s\<lparr>sysOut := sysOut s @ lines\<rparr>"

definition dash :: string where
  "dash = [CHR 0xE2, CHR 0x80, CHR 0x94]"

definition arrow :: string where
  "arrow = [CHR 0xE2, CHR 0x86, CHR 0x92]"

definition printHuman :: "endpoints \<Rightarrow> string list" where
  "printHuman e =
     [''  Grafana:           http://localhost:'' @ FormatInt (epGrafanaPort e) @ ''   (bound on 0.0.0.0 '' @ dash
        @ '' also http://<host-ip>:'' @ FormatInt (epGrafanaPort e) @ '')'',
      ''  TMM dashboard:     '' @ epDashboardURL e,
      ''  Prometheus:        http://localhost:'' @ FormatInt (epPrometheusPort e) @ ''   (bound on 0.0.0.0)'',
      ''  remote_write port: '' @ FormatInt (epPrometheusPort e) @ ''  (producers push to http://<host-gateway>:''
        @ FormatInt (epPrometheusPort e) @ epRemoteWritePath e @ '')'']"

section \<open>The stack commands\<close>

record upFlags =
  ufPrometheusPort :: int
  ufGrafanaPort :: int
  ufPassword :: string
  ufRegistryCache :: string
  ufRegistryCacheHost :: string

definition cmdUp :: "('d, 'k) tools \<Rightarrow> upFlags \<Rightarrow> ('d, 'k) sys \<Rightarrow> cli_error option \<times> ('d, 'k) sys" where
  "cmdUp t fl s =
     (case ResolveDockerHubMirror (tDocker t) (hDocker (sysHost s)) (ufRegistryCache fl) (ufRegistryCacheHost fl) of
        Inl err \<Rightarrow> (Some (ErrMirror err), s)
      | Inr mirror \<Rightarrow>
          (let s1 = (if mirror \<noteq> []
                then say [''registry cache: pulling stack images through regcachectl docker.io cache at '' @ mirror] s else s);
               (r, h) = Up (tDocker t) (tJoin t) (tNow t)
                  \<lparr>optPrometheusPort = ufPrometheusPort fl, optGrafanaPort = ufGrafanaPort fl,
                   optPassword = ufPassword fl, optMirror = mirror\<rparr> (sysHost s1);
               s2 = s1\<lparr>sysHost := h\<rparr>
           in case r of
                Inl err \<Rightarrow> (Some (ErrStack err), s2)
              | Inr e \<Rightarrow> (None, say (''tmmscope is up.'' # printHuman e) s2)))"

definition cmdDown :: "('d, 'k) tools \<Rightarrow> bool \<Rightarrow> ('d, 'k) sys \<Rightarrow> cli_error option \<times> ('d, 'k) sys" where
  "cmdDown t purge s =
     (let (err, h) = Down (tDocker t) (tJoin t) (tNow t) purge (sysHost s); s1 = s\<lparr>sysHost := h\<rparr>
      in case err of Some err \<Rightarrow> (Some (ErrStack err), s1) | None \<Rightarrow> (None, say [''tmmscope is down.''] s1))"

definition cmdStatus :: "('d, 'k) tools \<Rightarrow> ('d, 'k) sys \<Rightarrow> cli_error option \<times> ('d, 'k) sys" where
  "cmdStatus t s =
     (case Status_stack (tDocker t) (tJoin t) (sysHost s) of
        Inl err \<Rightarrow> (Some (ErrStack err), s)
      | Inr e \<Rightarrow>
          if \<not> epRunning e \<and> epPrometheusPort e = 0
          then (None, say [''tmmscope: not running (never started)''] s)
          else (None, say ((if epRunning e then ''tmmscope: running''
                            else ''tmmscope: stopped (last-known ports below)'') # printHuman e) s))"

definition cmdEndpoint :: "('d, 'k) tools \<Rightarrow> bool \<Rightarrow> ('d, 'k) sys \<Rightarrow> cli_error option \<times> ('d, 'k) sys" where
  "cmdEndpoint t asJSON s =
     (case Status_stack (tDocker t) (tJoin t) (sysHost s) of
        Inl err \<Rightarrow> (Some (ErrStack err), s)
      | Inr e \<Rightarrow>
          if asJSON then (None, say [MarshalIndent (endpointsJson e)] s)
          else if epPrometheusPort e = 0 then (Some NeverStarted, s)
          else (None, say (printHuman e) s))"

definition cmdOpen :: "('d, 'k) tools \<Rightarrow> ('d, 'k) sys \<Rightarrow> cli_error option \<times> ('d, 'k) sys" where
  "cmdOpen t s =
     (case Status_stack (tDocker t) (tJoin t) (sysHost s) of
        Inl err \<Rightarrow> (Some (ErrStack err), s)
      | Inr e \<Rightarrow>
          if epGrafanaPort e = 0 then (Some NeverStarted, s)
          else (let s1 = say [''opening '' @ epDashboardURL e] s
                in if tOpens t then (None, s1\<lparr>sysOpened := sysOpened s1 @ [epDashboardURL e]\<rparr>) else (Some OpenFailed, s1)))"

section \<open>The injection commands\<close>

definition ToLower :: "string \<Rightarrow> string" where
  "ToLower s = map (\<lambda>c. if 65 \<le> ord c \<and> ord c \<le> 90 then char_of (ord c + 32) else c) s"

text \<open>No letter outside ASCII has a lower case among y, e and s.\<close>

definition confirm :: "('d, 'k) tools \<Rightarrow> bool" where
  "confirm t = (TrimSpace (ToLower (tLine t)) \<in> {''y'', ''yes''})"

definition pickMode :: "string \<Rightarrow> probe \<Rightarrow> cli_error + mode" where
  "pickMode m p =
     (if m = ''patch'' then Inr ModePatch
      else if m = ''webhook'' then Inr ModeWebhook
      else if m = ''auto'' then (if pMode p = ModeNone then Inl NoMode else Inr (pMode p))
      else Inl (BadMode m))"

record injectFlags =
  ifOptions :: options
  ifPermanent :: bool
  ifMode :: string
  ifYes :: bool

definition modeText :: "mode \<Rightarrow> string" where
  "modeText m = (case m of ModeNone \<Rightarrow> [] | ModeAuto \<Rightarrow> ''auto'' | ModePatch \<Rightarrow> ''patch'' | ModeWebhook \<Rightarrow> ''webhook'')"

text \<open>The options an injection works with: what the probe found, the cluster label, the push URL.\<close>

definition prepare :: "('d, 'k) tools \<Rightarrow> probe \<Rightarrow> options \<Rightarrow> ('d, 'k) sys \<Rightarrow> cli_error + options" where
  "prepare t p opt s =
     (let opt = opt\<lparr>oResourceKind := pResourceKind p\<rparr>;
          opt = (if oCluster opt = [] then opt\<lparr>oCluster := pContext p\<rparr> else opt)
      in if oCluster opt = [] then Inl NoCluster
         else if oRemoteWriteURL opt \<noteq> [] then Inr opt
         else (case Status_stack (tDocker t) (tJoin t) (sysHost s) of
                 Inl _ \<Rightarrow> Inl StackDown
               | Inr e \<Rightarrow>
                   if epPrometheusPort e = 0 then Inl StackDown
                   else (case DeriveRemoteWriteURL (tKubectl t) opt (epPrometheusPort e) (sysKube s) of
                           None \<Rightarrow> Inl NoGateway
                         | Some url \<Rightarrow> Inr (opt\<lparr>oRemoteWriteURL := url\<rparr>))))"

definition injectBanner :: "('d, 'k) tools \<Rightarrow> probe \<Rightarrow> options \<Rightarrow> ('d, 'k) sys \<Rightarrow> string list" where
  "injectBanner t p opt s =
     [''Detected '' @ pKind p @ '' f5-tmm in namespace '' @ Quote (tIsPrint t) (oNamespace opt),
      ''  context:       '' @ pContext p, ''  cluster (API): '' @ pServer p, ''  exporter:      '' @ oImage opt,
      ''  stream label:  cluster='' @ oCluster opt, ''  remote_write:  '' @ oRemoteWriteURL opt,
      (if DSSMAvailable (tKubectl t) opt (sysKube s) then ''  token export:  enabled (DSSM cert '' @ arrow @ '' '' @ DSSMCertMount @ '') '' @ dash
          @ '' f5tmm_token_* from the iRule table''
       else ''  token export:  disabled (no DSSM client cert on tmm)'')]"

definition injectEphemeralCmd :: "('d, 'k) tools \<Rightarrow> bool \<Rightarrow> options \<Rightarrow> ('d, 'k) sys \<Rightarrow> cli_error option \<times> ('d, 'k) sys" where
  "injectEphemeralCmd t yes opt s =
     (let s = say [''  inject mode:   ephemeral (no f5-tmm restart)'',
            ''  note: ephemeral containers are transient '' @ dash @ '' they don't survive a pod'',
            ''        restart and aren't re-added automatically. Use --permanent for a'',
            ''        durable sidecar (which restarts the pod[s]).''] s in
      if \<not> yes \<and> \<not> confirm t then (None, say [''aborted.''] s)
      else (let (r, k) = InjectEphemeral (tKubectl t) opt (sysKube s); s1 = s\<lparr>sysKube := k\<rparr>
            in case r of
                 Inl err \<Rightarrow> (Some (ErrEphemeral err), s1)
               | Inr _ \<Rightarrow> (None, say [''injected (ephemeral). metrics will appear in Grafana under cluster='' @ oCluster opt] s1)))"

definition injectPermanentCmd :: "('d, 'k) tools \<Rightarrow> bool \<Rightarrow> string \<Rightarrow> probe \<Rightarrow> options \<Rightarrow> ('d, 'k) sys
    \<Rightarrow> cli_error option \<times> ('d, 'k) sys" where
  "injectPermanentCmd t yes m p opt s =
     (case pickMode m p of
        Inl err \<Rightarrow> (Some err, s)
      | Inr resolved \<Rightarrow>
          (let s = say ([''  inject mode:   permanent / '' @ modeText resolved]
                   @ (if resolved = ModeWebhook then [''  webhook:       '' @ oWebhookImage opt] else [])
                   @ [''  WARNING: permanent injection rolls (restarts) the f5-tmm pod(s).'']) s
           in if \<not> yes \<and> \<not> confirm t then (None, say [''aborted.''] s)
              else (let (err, k) = (if resolved = ModeWebhook
                          then (case InjectWebhook (tCrypto t) (tClock t) (tKubectl t) opt (sysKube s) of
                                  (e, k) \<Rightarrow> (map_option ErrWebhook e, k))
                          else (case Inject_patch (tKubectl t) opt (sysKube s) of
                                  (ok, k) \<Rightarrow> (if ok then None else Some KubectlFailed, k)));
                        s1 = s\<lparr>sysKube := k\<rparr>
                    in case err of
                         Some e \<Rightarrow> (Some e, s1)
                       | None \<Rightarrow> (None, say [''injected (permanent). metrics will appear in Grafana under cluster=''
                             @ oCluster opt] s1))))"

definition cmdInject :: "('d, 'k) tools \<Rightarrow> injectFlags \<Rightarrow> ('d, 'k) sys \<Rightarrow> cli_error option \<times> ('d, 'k) sys" where
  "cmdInject t fl s =
     (case ProbeCluster (tKubectl t) (ifOptions fl) (sysKube s) of
        (p, ok) \<Rightarrow>
        if \<not> ok then (Some ProbeFailed, s)
        else if \<not> pFound p then (Some NoTmm, s)
        else (case prepare t p (ifOptions fl) s of
                Inl err \<Rightarrow> (Some err, s)
              | Inr opt \<Rightarrow>
                  (let s1 = say (injectBanner t p opt s) s
                   in if \<not> ifPermanent fl then injectEphemeralCmd t (ifYes fl) opt s1
                      else injectPermanentCmd t (ifYes fl) (ifMode fl) p opt s1)))"

definition cmdEject :: "('d, 'k) tools \<Rightarrow> injectFlags \<Rightarrow> ('d, 'k) sys \<Rightarrow> cli_error option \<times> ('d, 'k) sys" where
  "cmdEject t fl s =
     (case ProbeCluster (tKubectl t) (ifOptions fl) (sysKube s) of
        (p, ok) \<Rightarrow>
        if \<not> ok then (Some ProbeFailed, s)
        else
          (let opt = (ifOptions fl)\<lparr>oResourceKind := pResourceKind p\<rparr>;
               target = oNamespace opt @ CHR ''/'' # oDeployment opt;
               cluster = [''  context:       '' @ pContext p, ''  cluster (API): '' @ pServer p]
           in if \<not> ifPermanent fl then
                (let s1 = say ((''Clear ephemeral tmm-stat-exporter from '' @ target) # cluster
                        @ [''  note: ephemeral containers can't be removed in place '' @ dash
                           @ '' this recreates the f5-tmm pod(s).'']) s
                 in if \<not> ifYes fl \<and> \<not> confirm t then (None, say [''aborted.''] s1)
                    else (let (done, k) = EjectEphemeral (tKubectl t) opt (sysKube s1); s2 = s1\<lparr>sysKube := k\<rparr>
                          in if \<not> done then (Some KubectlFailed, s2)
                             else (None, say [''cleared ephemeral tmm-stat-exporter from '' @ target] s2)))
              else
                (case pickMode (ifMode fl) p of
                   Inl err \<Rightarrow> (Some err, s)
                 | Inr resolved \<Rightarrow>
                     (let s1 = say ((''Eject tmm-stat-exporter (permanent / '' @ modeText resolved @ '') from '' @ target)
                            # cluster @ [''  WARNING: this rolls (restarts) the f5-tmm pod(s).'']) s
                      in if \<not> ifYes fl \<and> \<not> confirm t then (None, say [''aborted.''] s1)
                         else (let (done, k) = (if resolved = ModeWebhook then EjectWebhook (tKubectl t) opt (sysKube s1)
                                     else Eject_patch (tKubectl t) opt (sysKube s1));
                                   s2 = s1\<lparr>sysKube := k\<rparr>
                               in if \<not> done then (Some KubectlFailed, s2)
                                  else (None, say [''ejected tmm-stat-exporter (permanent / '' @ modeText resolved
                                     @ '') from '' @ target] s2))))))"

section \<open>Dispatch\<close>

definition version_String :: "string \<Rightarrow> string \<Rightarrow> string \<Rightarrow> string" where
  "version_String version commit buildDate =
     ''tmmscope '' @ version @ '' (commit '' @ commit @ '', built '' @ buildDate @ '')''"

text \<open>The flag sets, each parsed from its defaults; \<open>main\<close> gives the exit code. The namesakes of two
  flags set one variable.\<close>

definition upFormals :: "formal list" where
  "upFormals = [intFlag ''prometheus-port'', intFlag ''grafana-port'', stringFlag ''grafana-password'',
     stringFlag ''registry-cache'', stringFlag ''registry-cache-host'']"

definition upDefaults :: "(string \<rightharpoonup> string) \<Rightarrow> vars" where
  "upDefaults env =
     [''prometheus-port'' \<mapsto> FNumber 0, ''grafana-port'' \<mapsto> FNumber 0,
      ''grafana-password'' \<mapsto> FString (Getenv env ''TMMSCOPE_GRAFANA_PASSWORD''),
      ''registry-cache'' \<mapsto> FString ''auto'', ''registry-cache-host'' \<mapsto> FString ''localhost'']"

definition upOf :: "vars \<Rightarrow> upFlags" where
  "upOf vs = \<lparr>ufPrometheusPort = intVar vs ''prometheus-port'', ufGrafanaPort = intVar vs ''grafana-port'',
     ufPassword = strVar vs ''grafana-password'', ufRegistryCache = strVar vs ''registry-cache'',
     ufRegistryCacheHost = strVar vs ''registry-cache-host''\<rparr>"

definition switchDefaults :: "string \<Rightarrow> vars" where
  "switchDefaults n = [n \<mapsto> FBool False]"

definition injectFlagSet :: "formal list" where
  "injectFlagSet = map stringFlag [''kubeconfig'', ''context'', ''namespace'', ''deployment'', ''cluster'']"

definition injectSetDefaults :: vars where
  "injectSetDefaults =
     [''kubeconfig'' \<mapsto> FString [], ''context'' \<mapsto> FString [], ''namespace'' \<mapsto> FString ''default'',
      ''deployment'' \<mapsto> FString ''f5-tmm'', ''cluster'' \<mapsto> FString []]"

definition permanentFormals :: "formal list" where
  "permanentFormals = [boolFlag ''permanent'', stringFlag ''mode'', boolFlag ''yes'',
     \<lparr>flName = ''y'', flKind = KBool, flVar = ''yes''\<rparr>]"

definition permanentDefaults :: vars where
  "permanentDefaults = [''permanent'' \<mapsto> FBool False, ''mode'' \<mapsto> FString ''auto'', ''yes'' \<mapsto> FBool False]"

definition injectFormals :: "formal list" where
  "injectFormals = injectFlagSet @ map stringFlag [''remote-write-url'', ''image'', ''webhook-image''] @ permanentFormals"

definition injectDefaults :: vars where
  "injectDefaults = injectSetDefaults
     ++ [''remote-write-url'' \<mapsto> FString [], ''image'' \<mapsto> FString DefaultImage, ''webhook-image'' \<mapsto> FString DefaultWebhookImage]
     ++ permanentDefaults"

definition ejectFormals :: "formal list" where
  "ejectFormals = injectFlagSet @ permanentFormals"

definition ejectDefaults :: vars where
  "ejectDefaults = injectSetDefaults ++ permanentDefaults"

text \<open>The eject command leaves the options without flags empty.\<close>

definition injectOf :: "vars \<Rightarrow> injectFlags" where
  "injectOf vs =
     \<lparr>ifOptions = \<lparr>oKubeconfig = strVar vs ''kubeconfig'', oContext = strVar vs ''context'', oNamespace = strVar vs ''namespace'',
        oDeployment = strVar vs ''deployment'', oResourceKind = [], oCluster = strVar vs ''cluster'',
        oRemoteWriteURL = strVar vs ''remote-write-url'', oImage = strVar vs ''image'', oWebhookImage = strVar vs ''webhook-image'',
        oDSSMCert = False\<rparr>,
      ifPermanent = boolVar vs ''permanent'', ifMode = strVar vs ''mode'', ifYes = boolVar vs ''yes''\<rparr>"

definition exitCode :: "cli_error option \<times> ('d, 'k) sys \<Rightarrow> nat \<times> ('d, 'k) sys" where
  "exitCode r = (case r of (None, s) \<Rightarrow> (0, s) | (Some err, s) \<Rightarrow> (1, s))"

definition withFlags :: "formal list \<Rightarrow> vars \<Rightarrow> (vars \<Rightarrow> cli_error option \<times> ('d, 'k) sys) \<Rightarrow> string list
    \<Rightarrow> ('d, 'k) sys \<Rightarrow> nat \<times> ('d, 'k) sys" where
  "withFlags fs vs cmd args s =
     (case parseFlags fs vs args of
        Inl err \<Rightarrow> (flagExit err, s)
      | Inr (vs', _) \<Rightarrow> exitCode (cmd vs'))"

definition main_cli :: "('d, 'k) tools \<Rightarrow> string list \<Rightarrow> ('d, 'k) sys \<Rightarrow> nat \<times> ('d, 'k) sys" where
  "main_cli t argv s =
     (case argv of
        [] \<Rightarrow> (2, s)
      | cmd # args \<Rightarrow>
          if cmd = ''up'' then withFlags upFormals (upDefaults (tEnv t)) (\<lambda>vs. cmdUp t (upOf vs) s) args s
          else if cmd = ''down''
          then withFlags [boolFlag ''purge''] (switchDefaults ''purge'') (\<lambda>vs. cmdDown t (boolVar vs ''purge'') s) args s
          else if cmd = ''status'' then exitCode (cmdStatus t s)
          else if cmd \<in> {''endpoint'', ''endpoints''}
          then withFlags [boolFlag ''json''] (switchDefaults ''json'') (\<lambda>vs. cmdEndpoint t (boolVar vs ''json'') s) args s
          else if cmd = ''inject'' then withFlags injectFormals injectDefaults (\<lambda>vs. cmdInject t (injectOf vs) s) args s
          else if cmd = ''eject'' then withFlags ejectFormals ejectDefaults (\<lambda>vs. cmdEject t (injectOf vs) s) args s
          else if cmd = ''open'' then exitCode (cmdOpen t s)
          else if cmd \<in> {''version'', ''--version'', ''-v''} then (0, say [version_String (tVersion t) (tCommit t) (tBuildDate t)] s)
          else if cmd \<in> {''help'', ''-h'', ''--help''} then (0, s)
          else (2, s))"

section \<open>Properties\<close>

lemma inject_needs_consent:
  assumes "\<not> ifYes fl" and "\<not> confirm t"
  shows "sysKube (snd (cmdInject t fl s)) = sysKube s \<and> sysHost (snd (cmdInject t fl s)) = sysHost s"
  using assms by (auto simp: cmdInject_def injectEphemeralCmd_def injectPermanentCmd_def say_def Let_def
      split: prod.split sum.split)

lemma eject_needs_consent:
  assumes "\<not> ifYes fl" and "\<not> confirm t"
  shows "sysKube (snd (cmdEject t fl s)) = sysKube s \<and> sysHost (snd (cmdEject t fl s)) = sysHost s"
  using assms by (auto simp: cmdEject_def say_def Let_def split: prod.split sum.split)

text \<open>An argument that does not set the yes flag, by its own name or the short one.\<close>

definition not_yes :: "string \<Rightarrow> bool" where
  "not_yes a = (case classify a of Named n _ \<Rightarrow> n \<notin> {''yes'', ''y''} | _ \<Rightarrow> True)"

lemmas formals_defs = injectFormals_def ejectFormals_def injectFlagSet_def permanentFormals_def flag_defs

lemma spares_yes: "not_yes a \<Longrightarrow> spares injectFormals ''yes'' a" "not_yes a \<Longrightarrow> spares ejectFormals ''yes'' a"
  by (auto simp: not_yes_def spares_def formals_defs lookupFlag_def split: argument.splits)

lemma yes_unset:
  assumes "list_all not_yes args"
  shows "parseFlags injectFormals injectDefaults args = Inr (vs, rest) \<Longrightarrow> \<not> ifYes (injectOf vs)"
    and "parseFlags ejectFormals ejectDefaults args = Inr (vs, rest) \<Longrightarrow> \<not> ifYes (injectOf vs)"
proof -
  have "list_all (spares injectFormals ''yes'') args" "list_all (spares ejectFormals ''yes'') args"
    using assms spares_yes by (auto simp: list_all_iff)
  note keeps = parseFlags_spares [OF this(1)] parseFlags_spares [OF this(2)]
  have d: "injectDefaults ''yes'' = Some (FBool False)" "ejectDefaults ''yes'' = Some (FBool False)"
    by (simp_all add: injectDefaults_def ejectDefaults_def permanentDefaults_def)
  show "parseFlags injectFormals injectDefaults args = Inr (vs, rest) \<Longrightarrow> \<not> ifYes (injectOf vs)"
    using keeps(1) [of injectDefaults vs rest] d(1) by (auto simp: injectOf_def boolVar_def)
  show "parseFlags ejectFormals ejectDefaults args = Inr (vs, rest) \<Longrightarrow> \<not> ifYes (injectOf vs)"
    using keeps(2) [of ejectDefaults vs rest] d(2) by (auto simp: injectOf_def boolVar_def)
qed

text \<open>C26: nothing is changed without consent: on a command line whose arguments do not set the yes flag,
  for a user who does not confirm, inject and eject leave the cluster and the host as they are,
  whatever the other flags say and the probe finds.\<close>

theorem no_change_without_consent:
  assumes "list_all not_yes args" and "\<not> confirm t"
  shows "list_all (\<lambda>cmd. case main_cli t (cmd # args) s of (_, s') \<Rightarrow> sysKube s' = sysKube s \<and> sysHost s' = sysHost s)
     [''inject'', ''eject'']"
proof -
  have "case main_cli t (''inject'' # args) s of (_, s') \<Rightarrow> sysKube s' = sysKube s \<and> sysHost s' = sysHost s"
    using inject_needs_consent [OF yes_unset(1) [OF assms(1)] assms(2)]
    by (auto simp: main_cli_def withFlags_def exitCode_def split: sum.split prod.splits option.splits)
      (metis snd_conv)+
  moreover have "case main_cli t (''eject'' # args) s of (_, s') \<Rightarrow> sysKube s' = sysKube s \<and> sysHost s' = sysHost s"
    using eject_needs_consent [OF yes_unset(2) [OF assms(1)] assms(2)]
    by (auto simp: main_cli_def withFlags_def exitCode_def split: sum.split prod.splits option.splits)
      (metis snd_conv)+
  ultimately show ?thesis by simp
qed

text \<open>Status, endpoint and open are read-only; status and endpoint report the ports of the discovery
  file and the running flag of the daemon.\<close>

theorem queries_change_nothing:
  "list_all (\<lambda>s'. sysHost s' = sysHost s \<and> sysKube s' = sysKube s)
     [snd (cmdStatus t s), snd (cmdEndpoint t asJSON s), snd (cmdOpen t s)]"
  by (auto simp: cmdStatus_def cmdEndpoint_def cmdOpen_def say_def Let_def split: sum.split)

text \<open>An injection that reached the cluster worked with a cluster label and a push URL: the label is
  the flag or else the probed context, the URL the flag or else the derived gateway with the port
  of the stack.\<close>

theorem prepare_complete:
  "case prepare t p opt s of
     Inr opt' \<Rightarrow> oCluster opt' = (if oCluster opt = [] then pContext p else oCluster opt) \<and> oCluster opt' \<noteq> []
       \<and> oResourceKind opt' = pResourceKind p \<and> oImage opt' = oImage opt
       \<and> (if oRemoteWriteURL opt \<noteq> [] then oRemoteWriteURL opt' = oRemoteWriteURL opt
          else (\<exists>e. Status_stack (tDocker t) (tJoin t) (sysHost s) = Inr e \<and> epPrometheusPort e \<noteq> 0
                 \<and> DeriveRemoteWriteURL (tKubectl t) opt (epPrometheusPort e) (sysKube s)
                     = Some (oRemoteWriteURL opt')))
   | Inl err \<Rightarrow> err \<in> {NoCluster, StackDown, NoGateway}"
  by (auto simp: prepare_def Let_def split: sum.split option.split)

definition demo_tools :: "(bool, string) tools" where
  "demo_tools = \<lparr>tDocker = demo_docker, tKubectl = one_pod, tJoin = concat, tNow = ''now'', tLine = ''no'', tOpens = True,
     tEnv = Map.empty, tCrypto = no_crypto, tClock = (0, 0), tIsPrint = (\<lambda>_. False),
     tVersion = ''dev'', tCommit = ''none'', tBuildDate = ''unknown''\<rparr>"

definition demo_sys :: "(bool, string) sys" where
  "demo_sys = \<lparr>sysHost = demo_host True, sysKube = marshal demo_pod, sysOut = [], sysOpened = []\<rparr>"

theorem no_change_without_consent_witness:
  "list_all (\<lambda>cmd. case main_cli demo_tools [cmd, ''--permanent'', ''--mode=patch''] demo_sys of (_, s') \<Rightarrow>
       sysKube s' = sysKube demo_sys \<and> sysHost s' = sysHost demo_sys) [''inject'', ''eject'']"
proof (rule no_change_without_consent)
  show "list_all not_yes [''--permanent'', ''--mode=patch'']"
    by (simp add: not_yes_def classify_def Let_def)
  have "TrimSpace (ToLower ''no'') = ''no''" by code_simp
  then show "\<not> confirm demo_tools" by (simp add: confirm_def demo_tools_def)
qed

end
