(* ===== verification/Compose.thy ===== *)
theory Compose
  imports Stack Template
begin

text \<open>
  The compose file as text: compose.tmpl.yaml, line by line, and what \<open>renderCompose\<close> in
  internal/stack/stack.go fills in. Theory Stack keeps the file as these values; here the rendered
  text is read back as docker compose reads it.
\<close>

section \<open>The template\<close>

definition composeLines :: "string list" where
  "composeLines =
     [''# Rendered by tmmscope '' @ [CHR 0xE2, CHR 0x80, CHR 0x94] @ '' do not edit by hand (regenerated on every `tmmscope up`).'',
      ''#'',
      ''# Standalone Prometheus + Grafana for real-time TMM telemetry. Bridge networking'',
      ''# with published ports: Prometheus is a remote_write RECEIVER on the host'' @ [CHR 0x27] @ ''s'',
      ''# {{.PrometheusPort}} (cluster tmm-stat-exporter sidecars push here via the host'',
      ''# gateway); Grafana serves the TMM Real-Time dashboard at the host'' @ [CHR 0x27] @ ''s'',
      ''# {{.GrafanaPort}}. Grafana reaches Prometheus over the compose network'',
      ''# (prometheus:9090), so the published ports are only for external access.'',
      ''name: tmmscope'',
      [],
      ''services:'',
      ''  prometheus:'',
      ''    image: {{.DockerHubPrefix}}prom/prometheus:v3.1.0'',
      ''    container_name: tmmscope-prometheus'',
      ''    command:'',
      ''      - --config.file=/etc/prometheus/prometheus.yml'',
      ''      - --storage.tsdb.path=/prometheus'',
      ''      - --storage.tsdb.retention.time=24h'',
      ''      - --web.enable-remote-write-receiver'',
      ''      - --web.listen-address=0.0.0.0:9090'',
      ''    ports:'',
      ''      - '' @ [CHR 0x22] @ ''{{.PrometheusPort}}:9090'' @ [CHR 0x22],
      ''    volumes:'',
      ''      - ./telemetry/prometheus/prometheus.yml:/etc/prometheus/prometheus.yml:ro'',
      ''      - prometheus_data:/prometheus'',
      ''    restart: unless-stopped'',
      ''    healthcheck:'',
      ''      test: ['' @ [CHR 0x22] @ ''CMD-SHELL'' @ [CHR 0x22] @ '', '' @ [CHR 0x22] @ ''wget -qO- http://localhost:9090/-/ready || exit 1'' @ [CHR 0x22] @ '']'',
      ''      interval: 15s'',
      ''      timeout: 5s'',
      ''      retries: 5'',
      ''    deploy:'',
      ''      resources:'',
      ''        limits:'',
      ''          cpus: '' @ [CHR 0x27] @ ''1'' @ [CHR 0x27],
      ''          memory: 512M'',
      ''        reservations:'',
      ''          cpus: '' @ [CHR 0x27] @ ''0.1'' @ [CHR 0x27],
      ''          memory: 64M'',
      [],
      ''  grafana:'',
      ''    image: {{.DockerHubPrefix}}grafana/grafana:11.4.0'',
      ''    container_name: tmmscope-grafana'',
      ''    environment:'',
      ''      GF_SERVER_HTTP_PORT: '' @ [CHR 0x22] @ ''3000'' @ [CHR 0x22],
      ''      GF_SERVER_ROOT_URL: '' @ [CHR 0x22] @ ''http://localhost:{{.GrafanaPort}}/'' @ [CHR 0x22],
      ''      # Allow the dashboard to be iframe-embedded; anonymous viewer so an embed'',
      ''      # needs no login (read-only).'',
      ''      GF_SECURITY_ALLOW_EMBEDDING: '' @ [CHR 0x22] @ ''true'' @ [CHR 0x22],
      ''      GF_AUTH_ANONYMOUS_ENABLED: '' @ [CHR 0x22] @ ''true'' @ [CHR 0x22],
      ''      GF_AUTH_ANONYMOUS_ORG_ROLE: '' @ [CHR 0x22] @ ''Viewer'' @ [CHR 0x22],
      ''      GF_USERS_DEFAULT_THEME: '' @ [CHR 0x22] @ ''dark'' @ [CHR 0x22],
      ''      GF_SECURITY_ADMIN_PASSWORD: '' @ [CHR 0x22] @ ''{{.GrafanaAdminPassword}}'' @ [CHR 0x22],
      ''      GF_ANALYTICS_REPORTING_ENABLED: '' @ [CHR 0x22] @ ''false'' @ [CHR 0x22],
      ''      GF_ANALYTICS_CHECK_FOR_UPDATES: '' @ [CHR 0x22] @ ''false'' @ [CHR 0x22],
      ''    ports:'',
      ''      - '' @ [CHR 0x22] @ ''{{.GrafanaPort}}:3000'' @ [CHR 0x22],
      ''    volumes:'',
      ''      - ./telemetry/grafana/provisioning:/etc/grafana/provisioning:ro'',
      ''      - ./telemetry/grafana/dashboards:/var/lib/grafana/dashboards:ro'',
      ''      - grafana_data:/var/lib/grafana'',
      ''    depends_on:'',
      ''      prometheus:'',
      ''        condition: service_healthy'',
      ''    restart: unless-stopped'',
      ''    healthcheck:'',
      ''      test: ['' @ [CHR 0x22] @ ''CMD-SHELL'' @ [CHR 0x22] @ '', '' @ [CHR 0x22] @ ''wget -qO- http://localhost:3000/api/health || exit 1'' @ [CHR 0x22] @ '']'',
      ''      interval: 30s'',
      ''      timeout: 5s'',
      ''      retries: 5'',
      ''      start_period: 20s'',
      ''    deploy:'',
      ''      resources:'',
      ''        limits:'',
      ''          cpus: '' @ [CHR 0x27] @ ''0.5'' @ [CHR 0x27],
      ''          memory: 256M'',
      ''        reservations:'',
      ''          cpus: '' @ [CHR 0x27] @ ''0.1'' @ [CHR 0x27],
      ''          memory: 64M'',
      [],
      ''volumes:'',
      ''  prometheus_data:'',
      ''    driver: local'',
      ''  grafana_data:'',
      ''    driver: local'']"

definition composeTemplate :: string where
  "composeTemplate = unlines composeLines"

definition composeData :: "composeFile \<Rightarrow> tdata" where
  "composeData cf =
     TMap [(''PrometheusPort'', TInt (cfPrometheusPort cf)), (''GrafanaPort'', TInt (cfGrafanaPort cf)),
           (''GrafanaAdminPassword'', TString (cfAdminPassword cf)), (''DockerHubPrefix'', TString (cfHubPrefix cf))]"

definition composeText :: "composeFile \<Rightarrow> string option" where
  "composeText cf = Render composeTemplate (composeData cf)"

text \<open>The text that is on disk in a state of the file.\<close>

fun composeOnDisk :: "compose_state \<Rightarrow> string option" where
  "composeOnDisk NoCompose = None"
| "composeOnDisk (Rendered cf) = composeText cf"
| "composeOnDisk (CutCompose cf k) = map_option (cut_end k) (composeText cf)"

section \<open>Reading the text\<close>

text \<open>The value of the lines that start with the text \<open>k\<close>, an open double quote being part of \<open>k\<close> when
  the value is quoted; a quoted scalar ends at the next quote, and one with a backslash (an escape of
  YAML) or a dollar (an interpolation of compose) is not read.\<close>

definition valuesAt :: "string \<Rightarrow> string \<Rightarrow> string list" where
  "valuesAt k text = map (drop (length k)) (filter (\<lambda>l. HasPrefix l k) (Split CHR 0x0A text))"

definition quotedValue :: "string \<Rightarrow> string option" where
  "quotedValue s =
     (case Cut CHR 0x22 s of (v, rest, ok) \<Rightarrow>
        if ok \<and> rest = [] \<and> CHR 0x5C \<notin> set v \<and> CHR ''$'' \<notin> set v then Some v else None)"

definition portMappings :: "string \<Rightarrow> (string \<times> string) option list" where
  "portMappings text =
     map (\<lambda>s. Option.bind (quotedValue s) (\<lambda>v. case Cut CHR '':'' v of (host, inner, ok) \<Rightarrow>
                 if ok then Some (host, inner) else None))
       (valuesAt (''      - '' @ [CHR 0x22]) text)"

definition composeImages :: "string \<Rightarrow> string list" where
  "composeImages text = valuesAt ''    image: '' text"

definition adminPassword :: "string \<Rightarrow> string option list" where
  "adminPassword text = map quotedValue (valuesAt (''      GF_SECURITY_ADMIN_PASSWORD: '' @ [CHR 0x22]) text)"

section \<open>The rendered lines\<close>

lemmas eval_compose = Render_def parseTemplate_def fieldChain_def cons_text_def blank_def ident_def is_digit_def
  printValue_def composeData_def Let_def

lemma compose_holes:
  "Render ''# {{.PrometheusPort}} (cluster tmm-stat-exporter sidecars push here via the host'' (composeData cf)
   = Some (''# '' @ FormatInt (cfPrometheusPort cf) @ '' (cluster tmm-stat-exporter sidecars push here via the host'')"
  "Render ''# {{.GrafanaPort}}. Grafana reaches Prometheus over the compose network'' (composeData cf)
   = Some (''# '' @ FormatInt (cfGrafanaPort cf) @ ''. Grafana reaches Prometheus over the compose network'')"
  "Render ''    image: {{.DockerHubPrefix}}prom/prometheus:v3.1.0'' (composeData cf)
   = Some (''    image: '' @ cfHubPrefix cf @ ''prom/prometheus:v3.1.0'')"
  "Render ''    image: {{.DockerHubPrefix}}grafana/grafana:11.4.0'' (composeData cf)
   = Some (''    image: '' @ cfHubPrefix cf @ ''grafana/grafana:11.4.0'')"
  by (simp_all add: eval_compose)

lemma quoted_holes:
  "Render (''      - '' @ [CHR 0x22] @ ''{{.PrometheusPort}}:9090'' @ [CHR 0x22]) (composeData cf)
   = Some ((''      - '' @ [CHR 0x22]) @ FormatInt (cfPrometheusPort cf) @ '':9090'' @ [CHR 0x22])"
  "Render (''      - '' @ [CHR 0x22] @ ''{{.GrafanaPort}}:3000'' @ [CHR 0x22]) (composeData cf)
   = Some ((''      - '' @ [CHR 0x22]) @ FormatInt (cfGrafanaPort cf) @ '':3000'' @ [CHR 0x22])"
  "Render (''      GF_SERVER_ROOT_URL: '' @ [CHR 0x22] @ ''http://localhost:{{.GrafanaPort}}/'' @ [CHR 0x22]) (composeData cf)
   = Some (''      GF_SERVER_ROOT_URL: '' @ [CHR 0x22] @ ''http://localhost:'' @ FormatInt (cfGrafanaPort cf) @ ''/'' @ [CHR 0x22])"
  "Render (''      GF_SECURITY_ADMIN_PASSWORD: '' @ [CHR 0x22] @ ''{{.GrafanaAdminPassword}}'' @ [CHR 0x22]) (composeData cf)
   = Some ((''      GF_SECURITY_ADMIN_PASSWORD: '' @ [CHR 0x22]) @ cfAdminPassword cf @ [CHR 0x22])"
  by (simp_all add: eval_compose)

lemma composeLines_render: "list_all (\<lambda>l. closed l \<and> Render l (composeData cf) \<noteq> None) composeLines"
  using compose_holes [of cf] quoted_holes [of cf] by (simp add: composeLines_def closed_def render_plain)

lemma composeText_fill: "composeText cf = Some (unlines (fill composeLines (composeData cf)))"
  unfolding composeText_def composeTemplate_def by (rule render_fill [OF composeLines_render])

section \<open>The values read back\<close>

definition scalar_ok :: "string \<Rightarrow> bool" where
  "scalar_ok s \<longleftrightarrow> list_all (\<lambda>c. c \<notin> {CHR 0x0A, CHR 0x22, CHR 0x5C, CHR ''$''}) s"

lemma FormatInt_chars: "list_all (\<lambda>c. is_digit c \<or> c = CHR ''-'') (FormatInt n)"
  using FormatUint_digits by (auto simp: FormatInt_def list_all_iff)

lemma FormatInt_scalar: "scalar_ok (FormatInt n)" "CHR '':'' \<notin> set (FormatInt n)"
  using FormatInt_chars [of n] by (auto simp: scalar_ok_def list_all_iff is_digit_def)

lemma scalar_no: "scalar_ok s \<Longrightarrow> CHR 0x0A \<notin> set s \<and> CHR 0x22 \<notin> set s \<and> CHR 0x5C \<notin> set s \<and> CHR ''$'' \<notin> set s"
  by (auto simp: scalar_ok_def list_all_iff)

lemma quotedValue_ok: "scalar_ok s \<Longrightarrow> quotedValue (s @ [CHR 0x22]) = Some s"
  using scalar_no [of s] by (simp add: quotedValue_def Cut_found)

lemma composeText_lines:
  assumes "scalar_ok (cfAdminPassword cf)" and "scalar_ok (cfHubPrefix cf)"
  shows "list_all (\<lambda>l. CHR 0x0A \<notin> set l) (fill composeLines (composeData cf))"
  using scalar_no [OF assms(1)] scalar_no [OF assms(2)] scalar_no [OF FormatInt_scalar(1)] compose_holes [of cf] quoted_holes [of cf]
  by (simp add: composeLines_def fill_def render_plain)

lemma composeText_values:
  assumes "scalar_ok (cfAdminPassword cf)" and "scalar_ok (cfHubPrefix cf)"
  shows "\<exists>text. composeText cf = Some text
    \<and> portMappings text = [Some (FormatInt (cfPrometheusPort cf), ''9090''), Some (FormatInt (cfGrafanaPort cf), ''3000'')]
    \<and> composeImages text = [cfHubPrefix cf @ ''prom/prometheus:v3.1.0'', cfHubPrefix cf @ ''grafana/grafana:11.4.0'']
    \<and> adminPassword text = [Some (cfAdminPassword cf)]"
proof -
  have port: "Option.bind (quotedValue (FormatInt n @ CHR '':'' # inner @ [CHR 0x22])) (\<lambda>v. case Cut CHR '':'' v of (host, inner, ok) \<Rightarrow>
      if ok then Some (host, inner) else None) = Some (FormatInt n, inner)" if "scalar_ok inner" for n inner
  proof -
    have "scalar_ok (FormatInt n @ CHR '':'' # inner)" using that FormatInt_scalar(1) [of n] by (simp add: scalar_ok_def)
    from quotedValue_ok [OF this] show ?thesis by (simp add: Cut_found FormatInt_scalar)
  qed
  note ports = port [of "''9090''"] port [of "''3000''"]
  let ?ls = "fill composeLines (composeData cf)"
  have "Split CHR 0x0A (unlines ?ls) = ?ls @ [[]]" by (rule Split_unlines [OF composeText_lines [OF assms]])
  then show ?thesis
    using ports compose_holes [of cf] quoted_holes [of cf] quotedValue_ok [OF assms(1)]
    by (simp add: composeText_fill portMappings_def composeImages_def adminPassword_def valuesAt_def
        fill_def composeLines_def render_plain scalar_ok_def)
qed

text \<open>C23: the compose file that a successful \<open>up\<close> leaves on disk publishes the two container ports on
  the ports that \<open>up\<close> returns, pulls both images through the mirror, and sets the password given, as
  long as the password and the mirror hold no line feed, quote, backslash or dollar.\<close>

theorem Up_composes:
  assumes "scalar_ok (optPassword opts)" and "scalar_ok (optMirror opts)"
  shows "case Up dk join now opts h of
     (Inl _, _) \<Rightarrow> True
   | (Inr e, h') \<Rightarrow> (\<exists>text. composeOnDisk (hCompose h') = Some text
       \<and> portMappings text = [Some (FormatInt (epPrometheusPort e), ''9090''), Some (FormatInt (epGrafanaPort e), ''3000'')]
       \<and> composeImages text = map (append (dockerHubPrefix (optMirror opts))) [''prom/prometheus:v3.1.0'', ''grafana/grafana:11.4.0'']
       \<and> adminPassword text = [Some (if optPassword opts = [] then ''tmmscope'' else optPassword opts)])"
proof -
  obtain r h' where r: "Up dk join now opts h = (r, h')" by fastforce
  show ?thesis
  proof (cases r)
    case (Inr e)
    have "\<exists>cf. hCompose h' = Rendered cf \<and> cfPrometheusPort cf = epPrometheusPort e \<and> cfGrafanaPort cf = epGrafanaPort e
      \<and> cfAdminPassword cf = (if optPassword opts = [] then ''tmmscope'' else optPassword opts)
      \<and> cfHubPrefix cf = dockerHubPrefix (optMirror opts)"
      using Up_Inr [OF r [unfolded Inr]] by (elim exE conjE) (simp add: buildEndpoints_def)
    then obtain cf where cf: "hCompose h' = Rendered cf" "cfPrometheusPort cf = epPrometheusPort e" "cfGrafanaPort cf = epGrafanaPort e"
      "cfAdminPassword cf = (if optPassword opts = [] then ''tmmscope'' else optPassword opts)"
      "cfHubPrefix cf = dockerHubPrefix (optMirror opts)" by (elim exE conjE)
    have "scalar_ok (cfAdminPassword cf)" "scalar_ok (cfHubPrefix cf)"
      using assms cf by (auto simp: dockerHubPrefix_def scalar_ok_def)
    from composeText_values [OF this] show ?thesis using r Inr cf by simp
  qed (use r in simp)
qed

theorem Up_composes_witness:
  "case Up demo_docker concat ''now'' \<lparr>optPrometheusPort = 0, optGrafanaPort = 0, optPassword = ''secret'', optMirror = ''localhost:5000''\<rparr>
     (demo_host True) of
     (Inl _, _) \<Rightarrow> False
   | (Inr e, h') \<Rightarrow> (\<exists>text. composeOnDisk (hCompose h') = Some text
       \<and> portMappings text = [Some (''9500'', ''9090''), Some (''3007'', ''3000'')]
       \<and> composeImages text = [''localhost:5000/prom/prometheus:v3.1.0'', ''localhost:5000/grafana/grafana:11.4.0'']
       \<and> adminPassword text = [Some ''secret''])"
proof -
  let ?opts = "\<lparr>optPrometheusPort = 0, optGrafanaPort = 0, optPassword = ''secret'', optMirror = ''localhost:5000''\<rparr>"
  have claimed: "claimedPorts demo_docker concat (demo_host True) = (9500, 3007)"
    by (simp add: claimedPorts_def demo_host_def demo_running demo_published)
  have free: "dkFree demo_docker True p \<longleftrightarrow> p \<noteq> 9491" for p by (simp add: demo_docker_def)
  have home: "ProjectDir concat (demo_host True) = Some ''/home/u.configtmmscope''"
    by (simp add: ProjectDir_def demo_host_def TrimSpace_def trim_front.simps)
  have "fst (Up demo_docker concat ''now'' ?opts (demo_host True)) = Inr (buildEndpoints 9500 3007 True ''now'')"
    unfolding Up_def claimed home
    by (simp add: demo_host_def demo_running preferredPort_def pickPort_def free renderCompose_def
        compose_def writeEndpoints_def demo_docker_def Let_def)
  then obtain h' where up: "Up demo_docker concat ''now'' ?opts (demo_host True) = (Inr (buildEndpoints 9500 3007 True ''now''), h')"
    by (cases "Up demo_docker concat ''now'' ?opts (demo_host True)") simp
  have out: "FormatInt 9500 = ''9500''" "FormatInt 3007 = ''3007''"
    "epPrometheusPort (buildEndpoints 9500 3007 True ''now'') = 9500" "epGrafanaPort (buildEndpoints 9500 3007 True ''now'') = 3007"
    by (simp_all add: FormatInt_def FormatUint.simps digit_def buildEndpoints_def)
  have opts: "optPassword ?opts = ''secret''" "optMirror ?opts = ''localhost:5000''" "''secret'' \<noteq> []"
    "map (append (dockerHubPrefix ''localhost:5000'')) [''prom/prometheus:v3.1.0'', ''grafana/grafana:11.4.0'']
     = [''localhost:5000/prom/prometheus:v3.1.0'', ''localhost:5000/grafana/grafana:11.4.0'']"
    by (simp_all add: dockerHubPrefix_def)
  have "scalar_ok (optPassword ?opts)" "scalar_ok (optMirror ?opts)" by (simp_all add: scalar_ok_def)
  from Up_composes [OF this, of demo_docker concat "''now''" "demo_host True"] show ?thesis
    unfolding up prod.case sum.case out opts if_False refl if_not_P [OF opts(3)] .
qed

end
