(* ===== verification/Assets.thy ===== *)
theory Assets
  imports GoBase
begin

text \<open>
  The provisioning files, internal/assets/assets.go: a walk over the embedded tree writes every file
  below the telemetry directory of the project. Paths are lists of names. The contents of the
  embedded files are the parameter \<open>content\<close>; which directories can be made on the host, with the text
  of the error otherwise, and what comes of writing a file are given.
\<close>

section \<open>The embedded files\<close>

datatype entry = File string | Dir "(string \<times> entry) list"

text \<open>The tree under internal/assets/files, entries by name.\<close>

definition embedded :: "(string list \<Rightarrow> string) \<Rightarrow> entry" where
  "embedded content =
     (let file = (\<lambda>d n. (n, File (content (d @ [n])))) in
      Dir [(''grafana'',
             Dir [(''dashboards'', Dir (map (file [''grafana'', ''dashboards'']) [''ai-tokens.json'', ''tmm-realtime.json''])),
                  (''provisioning'',
                     Dir [(''dashboards'', Dir [file [''grafana'', ''provisioning'', ''dashboards''] ''provider.yml'']),
                          (''datasources'', Dir [file [''grafana'', ''provisioning'', ''datasources''] ''prometheus.yml''])])]),
           (''prometheus'', Dir [file [''prometheus''] ''prometheus.yml''])])"

text \<open>\<open>fs.WalkDir\<close>: the callback gets the path, the content of a file (\<open>None\<close> for a directory) and the
  state, and its first error ends the walk.\<close>

fun walk :: "(string list \<Rightarrow> string option \<Rightarrow> 's \<Rightarrow> 'e option \<times> 's) \<Rightarrow> string list \<Rightarrow> entry \<Rightarrow> 's \<Rightarrow> 'e option \<times> 's"
  and walkList :: "(string list \<Rightarrow> string option \<Rightarrow> 's \<Rightarrow> 'e option \<times> 's) \<Rightarrow> string list \<Rightarrow> (string \<times> entry) list \<Rightarrow> 's
    \<Rightarrow> 'e option \<times> 's" where
  "walk fn p (File c) s = fn p (Some c) s"
| "walk fn p (Dir es) s = (case fn p None s of (Some err, s1) \<Rightarrow> (Some err, s1) | (None, s1) \<Rightarrow> walkList fn p es s1)"
| "walkList fn p [] s = (None, s)"
| "walkList fn p ((n, e) # es) s =
     (case walk fn (p @ [n]) e s of (Some err, s1) \<Rightarrow> (Some err, s1) | (None, s1) \<Rightarrow> walkList fn p es s1)"

section \<open>The host\<close>

record disk =
  dkMkdir :: "string list \<Rightarrow> string option"
  dkWrite :: "string list \<Rightarrow> write_outcome"
  dkFiles :: "string list \<rightharpoonup> string"

text \<open>The callback of \<open>WriteTelemetry\<close> and the walk. The path below the embedded root is its relative
  path already.\<close>

definition writeFile :: "string list \<Rightarrow> string list \<Rightarrow> string option \<Rightarrow> disk \<Rightarrow> string option \<times> disk" where
  "writeFile dir p file dk =
     (case file of
        None \<Rightarrow> (None, dk)
      | Some b \<Rightarrow>
          (let dst = dir @ [''telemetry''] @ p in
           case dkMkdir dk (butlast dst) of
             Some err \<Rightarrow> (Some err, dk)
           | None \<Rightarrow>
               (case dkWrite dk dst of
                  NotOpened err \<Rightarrow> (Some err, dk)
                | CutShort k err \<Rightarrow> (Some err, dk\<lparr>dkFiles := (dkFiles dk)(dst \<mapsto> cut_end k b)\<rparr>)
                | WroteAll \<Rightarrow> (None, dk\<lparr>dkFiles := (dkFiles dk)(dst \<mapsto> b)\<rparr>))))"

definition WriteTelemetry :: "entry \<Rightarrow> string list \<Rightarrow> disk \<Rightarrow> string option \<times> disk" where
  "WriteTelemetry files dir dk = walk (writeFile dir) [] files dk"

section \<open>The walk as a loop over the files\<close>

fun leaves :: "string list \<Rightarrow> entry \<Rightarrow> (string list \<times> string) list"
  and leavesList :: "string list \<Rightarrow> (string \<times> entry) list \<Rightarrow> (string list \<times> string) list" where
  "leaves p (File c) = [(p, c)]"
| "leaves p (Dir es) = leavesList p es"
| "leavesList p [] = []"
| "leavesList p ((n, e) # es) = leaves (p @ [n]) e @ leavesList p es"

fun writeAll :: "string list \<Rightarrow> (string list \<times> string) list \<Rightarrow> disk \<Rightarrow> string option \<times> disk" where
  "writeAll dir [] dk = (None, dk)"
| "writeAll dir ((p, c) # fs) dk =
     (case writeFile dir p (Some c) dk of (Some err, dk1) \<Rightarrow> (Some err, dk1) | (None, dk1) \<Rightarrow> writeAll dir fs dk1)"

lemma writeAll_append:
  "writeAll dir (fs @ gs) dk = (case writeAll dir fs dk of (Some err, dk1) \<Rightarrow> (Some err, dk1) | (None, dk1) \<Rightarrow> writeAll dir gs dk1)"
  by (induction fs arbitrary: dk) (auto split: prod.splits option.splits)

lemma walk_writeAll:
  "walk (writeFile dir) p e dk = writeAll dir (leaves p e) dk"
  "walkList (writeFile dir) p es dk = writeAll dir (leavesList p es) dk"
proof (induction p e and p es arbitrary: dk and dk rule: leaves_leavesList.induct)
  case (1 p c)
  then show ?case by (auto split: prod.splits option.splits)
next
  case (2 p es)
  then show ?case by (simp add: writeFile_def)
qed (auto simp: writeAll_append split: prod.splits option.splits)

text \<open>What a loop over files leaves on the disk.\<close>

definition destination :: "string list \<Rightarrow> string list \<Rightarrow> string list" where
  "destination dir p = dir @ [''telemetry''] @ p"

lemma writeFile_file:
  "writeFile dir p (Some c) dk =
     (case dkMkdir dk (butlast (destination dir p)) of
        Some err \<Rightarrow> (Some err, dk)
      | None \<Rightarrow> (case dkWrite dk (destination dir p) of
           NotOpened err \<Rightarrow> (Some err, dk)
         | CutShort k err \<Rightarrow> (Some err, dk\<lparr>dkFiles := (dkFiles dk)(destination dir p \<mapsto> cut_end k c)\<rparr>)
         | WroteAll \<Rightarrow> (None, dk\<lparr>dkFiles := (dkFiles dk)(destination dir p \<mapsto> c)\<rparr>)))"
  unfolding writeFile_def destination_def by (simp add: Let_def split: option.split write_outcome.split)

definition onDisk :: "string list \<Rightarrow> disk \<Rightarrow> string list \<Rightarrow> string option" where
  "onDisk dir dk p = dkFiles dk (destination dir p)"

lemma destination_inj [simp]: "destination dir p = destination dir q \<longleftrightarrow> p = q"
  by (simp add: destination_def)

lemma onDisk_upd:
  "onDisk dir (dk\<lparr>dkFiles := (dkFiles dk)(destination dir p \<mapsto> c)\<rparr>) q = (if q = p then Some c else onDisk dir dk q)"
  by (auto simp: onDisk_def)

text \<open>The loop writes the files in order up to the first failure, which may cut one file short.\<close>

definition written_to :: "string list \<Rightarrow> (string list \<times> string) list \<Rightarrow> disk \<Rightarrow> string option \<Rightarrow> disk \<Rightarrow> bool" where
  "written_to dir fs dk r dk' \<longleftrightarrow>
     (case r of
        None \<Rightarrow> map (onDisk dir dk' \<circ> fst) fs = map (Some \<circ> snd) fs
      | Some _ \<Rightarrow> (\<exists>before p c after x. fs = before @ (p, c) # after
          \<and> map (onDisk dir dk' \<circ> fst) fs = map (Some \<circ> snd) before @ x # map (onDisk dir dk \<circ> fst) after
          \<and> (x = onDisk dir dk p \<or> (\<exists>k. x = Some (cut_end k c)))))"

lemma writeAll_files:
  "writeAll dir fs dk = (r, dk') \<Longrightarrow> distinct (map fst fs) \<Longrightarrow>
   written_to dir fs dk r dk' \<and> (\<forall>q. q \<notin> (destination dir \<circ> fst) ` set fs \<longrightarrow> dkFiles dk' q = dkFiles dk q)"
proof (induction fs arbitrary: dk)
  case Nil
  then show ?case by (simp add: written_to_def)
next
  case (Cons f fs)
  obtain p c where f: "f = (p, c)" by fastforce
  have p: "p \<notin> fst ` set fs" and d: "distinct (map fst fs)" using Cons.prems(2) f by auto
  have rest: "map (onDisk dir (dk\<lparr>dkFiles := (dkFiles dk)(destination dir p \<mapsto> y)\<rparr>) \<circ> fst) fs = map (onDisk dir dk \<circ> fst) fs" for y
    using p by (auto simp: onDisk_upd)
  consider (failed) err where "writeFile dir p (Some c) dk = (Some err, dk)"
    | (cut) err k where "writeFile dir p (Some c) dk
        = (Some err, dk\<lparr>dkFiles := (dkFiles dk)(destination dir p \<mapsto> cut_end k c)\<rparr>)"
    | (ok) "writeFile dir p (Some c) dk = (None, dk\<lparr>dkFiles := (dkFiles dk)(destination dir p \<mapsto> c)\<rparr>)"
    unfolding writeFile_file
    by (cases "dkMkdir dk (butlast (destination dir p))"; cases "dkWrite dk (destination dir p)") auto
  then show ?case
  proof cases
    case failed
    then have dk': "dk' = dk" "r = Some err" using Cons.prems f by auto
    have "written_to dir (f # fs) dk r dk'"
      unfolding written_to_def dk' option.case using f
      by (intro exI [of _ "[]"] exI [of _ p] exI [of _ c] exI [of _ fs] exI [of _ "onDisk dir dk p"]) auto
    then show ?thesis by (simp add: dk'(1))
  next
    case cut
    let ?d = "dk\<lparr>dkFiles := (dkFiles dk)(destination dir p \<mapsto> cut_end k c)\<rparr>"
    have dk': "dk' = ?d" "r = Some err" using cut Cons.prems f by auto
    have "written_to dir (f # fs) dk r dk'"
      unfolding written_to_def dk' option.case using f rest [of "cut_end k c"]
      by (intro exI [of _ "[]"] exI [of _ p] exI [of _ c] exI [of _ fs] exI [of _ "Some (cut_end k c)"])
         (auto simp: onDisk_upd)
    then show ?thesis using f by (auto simp: dk'(1))
  next
    case ok
    let ?d = "dk\<lparr>dkFiles := (dkFiles dk)(destination dir p \<mapsto> c)\<rparr>"
    have w: "writeAll dir fs ?d = (r, dk')" using Cons.prems(1) ok f by simp
    have IH: "written_to dir fs ?d r dk'"
      "\<And>q. q \<notin> (destination dir \<circ> fst) ` set fs \<Longrightarrow> dkFiles dk' q = dkFiles ?d q"
      using Cons.IH [OF w d] by auto
    have new: "onDisk dir dk' p = Some c"
      using IH(2) [of "destination dir p"] p by (force simp: onDisk_def)
    have "written_to dir (f # fs) dk r dk'"
    proof (cases r)
      case None
      then show ?thesis using IH(1) new f by (simp add: written_to_def)
    next
      case (Some err)
      then obtain before q b after x where h: "fs = before @ (q, b) # after"
        "map (onDisk dir dk' \<circ> fst) fs = map (Some \<circ> snd) before @ x # map (onDisk dir ?d \<circ> fst) after"
        "x = onDisk dir ?d q \<or> (\<exists>k. x = Some (cut_end k b))"
        using IH(1) unfolding written_to_def Some option.case by blast
      have "q \<noteq> p" "map (onDisk dir ?d \<circ> fst) after = map (onDisk dir dk \<circ> fst) after"
        using h(1) p by (auto simp: onDisk_upd)
      then show ?thesis
        unfolding written_to_def Some option.case using h new f
        by (intro exI [of _ "(p, c) # before"] exI [of _ q] exI [of _ b] exI [of _ after] exI [of _ x])
           (auto simp: onDisk_upd)
    qed
    then show ?thesis using IH(2) f by auto
  qed
qed

section \<open>Properties\<close>

definition provisioning :: "string list list" where
  "provisioning =
     [[''grafana'', ''dashboards'', ''ai-tokens.json''], [''grafana'', ''dashboards'', ''tmm-realtime.json''],
      [''grafana'', ''provisioning'', ''dashboards'', ''provider.yml''], [''grafana'', ''provisioning'', ''datasources'', ''prometheus.yml''],
      [''prometheus'', ''prometheus.yml'']]"

lemma leaves_embedded: "leaves [] (embedded content) = map (\<lambda>p. (p, content p)) provisioning"
  by (simp add: embedded_def provisioning_def Let_def)

lemma written_to_content:
  assumes "written_to dir (map (\<lambda>p. (p, content p)) ps) dk r dk'"
  shows "case r of
      None \<Rightarrow> map (onDisk dir dk') ps = map (Some \<circ> content) ps
    | Some _ \<Rightarrow> (\<exists>before p after x. ps = before @ p # after
        \<and> map (onDisk dir dk') ps = map (Some \<circ> content) before @ x # map (onDisk dir dk) after
        \<and> (x = onDisk dir dk p \<or> (\<exists>k. x = Some (cut_end k (content p)))))"
proof (cases r)
  case None
  then show ?thesis using assms by (simp add: written_to_def comp_def)
next
  case (Some err)
  have view: "map (onDisk dir dk' \<circ> fst) (map (\<lambda>p. (p, content p)) ps) = map (onDisk dir dk') ps"
    by (simp add: comp_def)
  obtain before p c after x where h: "map (\<lambda>p. (p, content p)) ps = before @ (p, c) # after"
    "map (onDisk dir dk') ps = map (Some \<circ> snd) before @ x # map (onDisk dir dk \<circ> fst) after"
    "x = onDisk dir dk p \<or> (\<exists>k. x = Some (cut_end k c))"
    using assms unfolding written_to_def Some option.case view by blast
  then obtain before' after' where "ps = before' @ p # after'" "before = map (\<lambda>p. (p, content p)) before'" "c = content p"
    "after = map (\<lambda>p. (p, content p)) after'"
    by (auto simp: map_eq_append_conv map_eq_Cons_conv)
  with h show ?thesis
    unfolding Some option.case
    by (intro exI [of _ before'] exI [of _ p] exI [of _ after'] exI [of _ x]) (auto simp: comp_def)
qed

text \<open>C38: the provisioning files are refreshed and nothing else is touched: a successful run leaves each
  embedded file below the telemetry directory with the embedded content, over whatever was there. A
  failed run has written the files up to one of them, which is as before or cut short, and leaves
  the later ones as before. Every other file of the host is untouched.\<close>

theorem WriteTelemetry_places:
  "case WriteTelemetry (embedded content) dir dk of (r, dk') \<Rightarrow>
     (let old = (\<lambda>p. dkFiles dk (dir @ ''telemetry'' # p)); new = (\<lambda>p. dkFiles dk' (dir @ ''telemetry'' # p)) in
      (case r of
         None \<Rightarrow> map new provisioning = map (Some \<circ> content) provisioning
       | Some _ \<Rightarrow> (\<exists>before p after x. provisioning = before @ p # after
           \<and> map new provisioning = map (Some \<circ> content) before @ x # map old after
           \<and> (x = old p \<or> (\<exists>k. x = Some (cut_end k (content p))))))
      \<and> (q \<in> (\<lambda>p. dir @ ''telemetry'' # p) ` set provisioning \<or> dkFiles dk' q = dkFiles dk q))"
proof -
  obtain r dk' where w: "WriteTelemetry (embedded content) dir dk = (r, dk')" by fastforce
  let ?fs = "map (\<lambda>p. (p, content p)) provisioning"
  have "writeAll dir ?fs dk = (r, dk')"
    using w by (simp add: WriteTelemetry_def walk_writeAll leaves_embedded)
  moreover have "distinct (map fst ?fs)" by (simp add: provisioning_def)
  ultimately have h: "written_to dir ?fs dk r dk'"
    "q \<notin> (destination dir \<circ> fst) ` set ?fs \<Longrightarrow> dkFiles dk' q = dkFiles dk q"
    using writeAll_files by blast+
  have d: "onDisk dir d = (\<lambda>p. dkFiles d (dir @ ''telemetry'' # p))" "destination dir = (\<lambda>p. dir @ ''telemetry'' # p)" for d
    by (simp_all add: onDisk_def destination_def fun_eq_iff)
  have "(destination dir \<circ> fst) ` set ?fs = (\<lambda>p. dir @ ''telemetry'' # p) ` set provisioning"
    by (simp add: image_image d(2))
  then show ?thesis
    using written_to_content [OF h(1)] h(2) unfolding w prod.case Let_def d(1) by blast
qed

end
