(* ===== verification/Spec2Isabelle.thy ===== *)
theory Spec2Isabelle
  imports Injected OvsLedger OvsMain Webhook Cli Compose Assets
begin

text \<open>
  A model of tmmscope and the theorems that make it correct. tmmscope shows the real-time counters of
  F5's Traffic Management Microkernel (TMM) in Prometheus and Grafana. Its Go programs are: the
  exporter cmd/tmm-stat-exporter, which reads TMM's statistics segments and pushes them or serves
  them; cmd/ovs-doca-exporter, which does the same for the flow counters of OVS-DOCA; the command
  line cmd/tmmscope, which runs the receiving stack and injects the exporter into clusters; and the
  admission webhook cmd/tmm-stat-webhook.

  How a value flows: TMM writes a segment file; internal/tmstat parses it and merges the rows of a
  table by key; the exporter turns rows into samples, adds the token counters it reads from a Redis
  (the DSSM), and writes them as text on /metrics or as a protobuf request to the remote_write URL.
  That URL and the labels cluster, pod and node come from the container that internal/inject (or the
  webhook) adds to the TMM pod, and the URL's port from the discovery file of internal/stack.

  Theories, with the code they model and what their lemmas show:

  GoBase, GoFloat, GoJson, GoQuote, GoFlag, Base64, Template: what the sources use of Go and its
  library. Strings are byte lists, an index or a slice out of range and an allocation above the
  address space (2^48 bytes) are panics, which are \<open>None\<close>, a \<open>float64\<close> is an integer
  that 53 bits can hold, an infinity or NaN (no sample has a fraction), rounding to even, its bits and
  its shortest text read back. Contracts are locales: \<open>slice_sort\<close> for sort.Slice (interpreted on the
  label sort in Promwrite and the token sort in Tokens) and \<open>codec\<close> for a prefix-free format
  (interpreted on varints and protobuf fields in Promwrite, on RESP in Redis, on quoted labels in
  ExpText, on JSON strings in GoJson). GoJson has Marshal, MarshalIndent and Unmarshal on bytes, with
  UTF-8, escapes and the nesting limit, and proves that what is written reads back. GoFlag is package
  flag with strconv and time.ParseDuration. Template renders a template by its lines, Base64 has base64 and PEM.

  TmBytes, TmAddr, TmSchema, TmRows: internal/tmstat/tmstat.go. Field readers and writers (\<open>leUint_run\<close>
  and \<open>setUint_run\<close> with the check of every index, \<open>leUint\<close> and \<open>setUint\<close> their values); the text of
  addresses; \<open>Parse\<close>, which finds the slab size, reads the two meta-tables from slabs and builds the
  tables; raw rows, and the aggregation, an in-place loop over an index. The parser and the row
  readers never panic, whatever the bytes; the schema is what the meta-tables say; the aggregated
  rows hold the modular sums per key and keep the rest of the first row, and no traffic is lost or
  counted twice.

  Promwrite, Remotewrite: internal/promwrite/promwrite.go and its copy in
  cmd/tmm-stat-exporter/remotewrite.go. The request body decodes, by a protobuf reader written from
  the format, to the labels and values of the samples; the two copies send the same bytes.

  Redis, ExpText, Tokens, Exporter, ExpMain: the rest of cmd/tmm-stat-exporter (redis.go, main.go). The
  client reads RESP from a byte stream, with fuel: one unit per byte of the stream is enough, and more
  changes nothing, and a panic comes from an announced length only; the SCAN loop ends. The text of /metrics reads back as the samples. The
  token collector returns exactly the counters the DSSM holds. \<open>collect\<close>, \<open>handleMetrics\<close>, \<open>pushOnce\<close>
  and \<open>pushLoop\<close> run in a world that gives the content of files, the connection of each dial and the
  answer to a post. ExpMain has the flags with their environment defaults, the start, the handlers,
  and the state that concurrent collections share: however their updates interleave, the log of the
  DSSM reports transitions only.

  Ovs, OvsLedger, OvsMain: cmd/ovs-doca-exporter/main.go. The totals never go down and, while they are
  below 2^53, are exactly a ledger of natural numbers, in which each flow counts with the last
  counters of each of its lifetimes. OvsMain has the JSON-RPC exchange, the flags and the output of
  the flag once.

  Stack, Compose, Discovery, Assets: internal/stack (ports.go, regcache.go, stack.go, compose.tmpl.yaml)
  and internal/assets. The project directory and the docker daemon are the state; \<open>stack_step\<close> lets up,
  down and the outside world act in any order. A write of a file succeeds, does not open the file, or
  is cut short after truncating it. A running stack keeps its ports, and the discovery file is
  missing, broken by a cut write, or consistent. Stack keeps the compose file and the discovery file as values; Compose
  and Discovery give their texts and read them back. Assets is the walk that writes the provisioning
  files.

  Inject, Certs, WebhookDeploy, Webhook: internal/inject (inject.go, ephemeral.go, probe.go, cert.go,
  webhook.go, webhook.tmpl.yaml) and cmd/tmm-stat-webhook/main.go. kubectl is a parameter over the
  state of the cluster. The requests are byte strings, and the theorems read them as the API server
  does: exactly the exporter is added, only volumes the pod has are mounted, a second run changes
  nothing, pods are rolled only after the webhook is ready, and the webhook that the manifest starts
  adds the container that the direct patch would add.

  Cli: cmd/tmmscope/main.go and internal/version/version.go. Commands with their flags, dispatch and
  exit codes; without consent nothing is changed. Injected joins injection and exporter: the process
  that the injected container starts has the URL, the segments and the labels it was given. This
  theory ends with the URL from the stack to the injection.

  Parameters, because their code is not in the repository: snappy compression (a theorem that decodes
  a body assumes that it can be undone), docker, kubectl, the HTTP exchange, the answer of the OVS
  socket, the clock, filepath.Join, the cryptography of crypto/x509 (a record of its results), the
  table of printable runes, the contents of the embedded files, and what the host answers to file
  operations and to a bind test.

  Not modelled: TLS, the HTTP servers and time-outs around the handlers; what the help of a flag and
  the usage of the command line print, and the texts of errors that only end up on a terminal;
  progress output of internal/inject; the browser command of open. The order of a Go map iteration
  is a parameter. Of several members of a JSON object that name one field of a struct, GoJson takes
  the exact name first, where Go takes the last in the text. An integer of a JSON document is the
  float64 that Go gives to a value of type any, also for the two ports of the discovery file, which Go
  reads exactly: they differ from 2^53 on. A number with a fraction or an exponent is kept as written,
  where Go writes a pod back with the number in its shortest form. Memory and stack that run out below
  the address space are outside the model.
\<close>

section \<open>From the stack to the injection\<close>

text \<open>C39: the URL that an injection derives is the remote_write URL of the discovery file that \<open>up\<close>
  wrote, with the gateway in the place of localhost.\<close>

theorem derived_url_is_discovered:
  "case Up dk join now opts h of
     (Inl _, _) \<Rightarrow> True
   | (Inr e, _) \<Rightarrow>
       (case DeriveRemoteWriteURL kc opt (epPrometheusPort e) k of
          None \<Rightarrow> True
        | Some url \<Rightarrow> (\<exists>gw rest. epRemoteWriteURL e = ''http://localhost'' @ rest \<and> url = ''http://'' @ gw @ rest
            \<and> (multusGateway kc opt k = Some gw \<or> nodeGateway kc opt k = Some gw)))"
proof -
  obtain r h' where r: "Up dk join now opts h = (r, h')" by fastforce
  show ?thesis
  proof (cases r)
    case (Inr e)
    have e: "epRemoteWriteURL e = ''http://localhost'' @ CHR '':'' # FormatInt (epPrometheusPort e) @ ''/api/v1/write''"
      using Up_Inr [OF r [unfolded Inr]] by (auto simp: buildEndpoints_def remoteWritePath_def)
    show ?thesis
    proof (cases "DeriveRemoteWriteURL kc opt (epPrometheusPort e) k")
      case (Some url)
      then obtain gw where "url = ''http://'' @ gw @ CHR '':'' # FormatInt (epPrometheusPort e) @ ''/api/v1/write''"
        "multusGateway kc opt k = Some gw \<or> nodeGateway kc opt k = Some gw"
        by (auto simp: DeriveRemoteWriteURL_def split: option.splits)
      with e have "\<exists>gw rest. epRemoteWriteURL e = ''http://localhost'' @ rest \<and> url = ''http://'' @ gw @ rest
          \<and> (multusGateway kc opt k = Some gw \<or> nodeGateway kc opt k = Some gw)" by blast
      then show ?thesis using r Inr Some by simp
    qed (use r Inr in simp)
  qed (use r in simp)
qed

end
